(* ===== verification/Boot_Prelude.thy ===== *)
theory Boot_Prelude
  imports Main "HOL-Library.Word" "HOL-Library.Monad_Syntax"
begin

text \<open>
  Shared vocabulary of the development: the machine integers of the C sources, byte
  memories with checked accesses, and the list and word lemmas the components use.

  A C object is a list of bytes (or of machine words).  An access outside the object is
  undefined in C and is the value \<^term>\<open>None\<close> of the model, so a theorem that an
  operation returns \<open>Some\<close> is also a memory-safety statement.
\<close>

unbundle bit_operations_syntax

type_synonym u8 = "8 word"
type_synonym u16 = "16 word"
type_synonym u32 = "32 word"
type_synonym u64 = "64 word"

text \<open>Byte memory, and a pointer into it (\<^term>\<open>None\<close> is the null pointer).\<close>

type_synonym mem = "u8 list"
type_synonym ptr = "nat option"

named_theorems acc_simps \<open>checked reads and writes of C arrays\<close>
named_theorems word_nat \<open>unsigned readings of word arithmetic that does not wrap\<close>

subsection \<open>Checked accesses\<close>

definition rd :: "'a list \<Rightarrow> nat \<Rightarrow> 'a option" where
  "rd m i = (if i < length m then Some (m ! i) else None)"

definition wr :: "'a list \<Rightarrow> nat \<Rightarrow> 'a \<Rightarrow> 'a list option" where
  "wr m i x = (if i < length m then Some (m[i := x]) else None)"

text \<open>\<open>slice m i n\<close> reads \<open>n\<close> cells from index \<open>i\<close>; \<open>blit m i xs\<close> stores \<open>xs\<close> there.\<close>

definition slice :: "'a list \<Rightarrow> nat \<Rightarrow> nat \<Rightarrow> 'a list option" where
  "slice m i n = (if i + n \<le> length m then Some (take n (drop i m)) else None)"

definition blit :: "'a list \<Rightarrow> nat \<Rightarrow> 'a list \<Rightarrow> 'a list option" where
  "blit m i xs =
     (if i + length xs \<le> length m
      then Some (take i m @ xs @ drop (i + length xs) m) else None)"

text \<open>
  \<open>assert(x)\<close> of U-Boot's \<^verbatim>\<open>src/boot/u-boot_2019_10/include/log.h\<close>: when the file is
  compiled with \<open>_DEBUG\<close>, the first argument here, a false condition ends the program (the
  value \<^term>\<open>None\<close>); otherwise it is ignored.
\<close>

definition c_assert :: "bool \<Rightarrow> bool \<Rightarrow> unit option" where
  "c_assert dbg x = (if \<not> x \<and> dbg then None else Some ())"

lemma bind_c_assert [simp]: "Option.bind (c_assert dbg x) f = (if dbg \<longrightarrow> x then f () else None)"
  by (simp add: c_assert_def)

lemma rd_Some_iff [acc_simps]: "rd m i = Some x \<longleftrightarrow> i < length m \<and> x = m ! i"
  by (auto simp: rd_def)

lemma wr_Some_iff [acc_simps]: "wr m i x = Some m' \<longleftrightarrow> i < length m \<and> m' = m[i := x]"
  by (auto simp: wr_def)

lemma slice_Some_iff [acc_simps]:
  "slice m i n = Some xs \<longleftrightarrow> i + n \<le> length m \<and> xs = take n (drop i m)"
  by (auto simp: slice_def)

lemma blit_Some_iff [acc_simps]:
  "blit m i xs = Some m' \<longleftrightarrow>
     i + length xs \<le> length m \<and> m' = take i m @ xs @ drop (i + length xs) m"
  by (auto simp: blit_def)

lemma rd_in [simp]: "i < length m \<Longrightarrow> rd m i = Some (m ! i)"
  by (simp add: rd_def)

lemma wr_in [simp]: "i < length m \<Longrightarrow> wr m i x = Some (m[i := x])"
  by (simp add: wr_def)

lemma length_blit: "blit m i xs = Some m' \<Longrightarrow> length m' = length m"
  by (auto simp: blit_Some_iff)

lemma blit_nth:
  assumes "blit m i xs = Some m'" and "j < length m"
  shows "m' ! j = (if i \<le> j \<and> j < i + length xs then xs ! (j - i) else m ! j)"
  using assms by (auto simp: blit_Some_iff nth_append)

lemma blit_mid: "blit (as @ bs @ cs) (length as) xs = Some (as @ xs @ cs)"
  if "length xs = length bs"
  using that by (simp add: blit_def)

lemma blit_Nil [simp]: "i \<le> length m \<Longrightarrow> blit m i [] = Some m"
  by (simp add: blit_def)

lemma slice_mid: "slice (as @ bs @ cs) (length as) (length bs) = Some bs"
  by (simp add: slice_def)

lemma slice_nth: "slice m i n = Some xs \<Longrightarrow> j < n \<Longrightarrow> xs ! j = m ! (i + j)"
  by (auto simp: slice_Some_iff)

lemma length_slice: "slice m i n = Some xs \<Longrightarrow> length xs = n"
  by (auto simp: slice_Some_iff)

subsection \<open>Unsigned readings of word arithmetic\<close>

lemma unat_add_small [word_nat]:
  fixes a b :: "'a::len word"
  assumes "unat a + unat b < 2 ^ LENGTH('a)"
  shows "unat (a + b) = unat a + unat b"
  using assms by (simp add: unat_word_ariths)

lemma unat_sub_small [word_nat]:
  fixes a b :: "'a::len word"
  assumes "unat b \<le> unat a"
  shows "unat (a - b) = unat a - unat b"
  using assms by (simp add: unat_sub word_le_nat_alt)

lemma u32_bound: "unat (x :: u32) < 4294967296"
  by (rule order_less_le_trans [OF unsigned_less]) simp

lemma u8_bound: "unat (x :: u8) < 256"
  by (rule order_less_le_trans [OF unsigned_less]) simp

lemma unat_eq_iff: "(a :: 'a::len word) = b \<longleftrightarrow> unat a = unat b"
  by (simp add: word_unat_eq_iff)

text \<open>Rounding down by masking.\<close>

lemma int_and_not_mask: "(x :: int) AND NOT (mask n) = x div 2 ^ n * 2 ^ n"
proof -
  have "x AND NOT (mask n) = push_bit n (drop_bit n x)"
    by (rule bit_eqI) (auto simp: bit_simps)
  then show ?thesis by (simp add: push_bit_eq_mult drop_bit_eq_div)
qed

subsection \<open>Little-endian byte images of 32-bit words\<close>

definition le32 :: "u32 \<Rightarrow> u8 list" where
  "le32 w = [ucast w, ucast (drop_bit 8 w), ucast (drop_bit 16 w), ucast (drop_bit 24 w)]"

definition of_le32 :: "u8 list \<Rightarrow> u32" where
  "of_le32 bs = ucast (bs ! 0) OR push_bit 8 (ucast (bs ! 1)) OR
     push_bit 16 (ucast (bs ! 2)) OR push_bit 24 (ucast (bs ! 3))"

lemma length_le32 [simp]: "length (le32 w) = 4"
  by (simp add: le32_def)

lemma of_le32_le32 [simp]: "of_le32 (le32 w) = w"
proof (rule bit_word_eqI)
  fix n assume "n < LENGTH(32)"
  then have "n < 8 \<or> (8 \<le> n \<and> n < 16) \<or> (16 \<le> n \<and> n < 24) \<or> (24 \<le> n \<and> n < 32)"
    by auto
  then show "bit (of_le32 (le32 w)) n = bit w n"
    by (elim disjE) (auto simp: of_le32_def le32_def bit_simps)
qed

end
