(* ===== verification/C_String.thy ===== *)
theory C_String
  imports Boot_Prelude
begin

text \<open>
  The C string and memory routines of \<^verbatim>\<open>src/boot/common/lib/string.c\<close>, over one flat byte
  memory: an address is an index into it, a pointer is an optional address, and every
  routine returns \<^term>\<open>None\<close> where the C code would leave the memory.  \<open>char\<close> is
  unsigned on the ARM targets and \<open>unsigned long\<close> is 64 bits wide.
\<close>

section \<open>The routines\<close>

text \<open>\<open>while ((*strDest++ = *strSrc++) != 0) ;\<close>\<close>

function strcpy_loop :: "mem \<Rightarrow> nat \<Rightarrow> nat \<Rightarrow> mem option" where
  "strcpy_loop m d s =
     (case rd m s of None \<Rightarrow> None
      | Some c \<Rightarrow> (case wr m d c of None \<Rightarrow> None
        | Some m' \<Rightarrow> if c = 0 then Some m' else strcpy_loop m' (Suc d) (Suc s)))"
  by pat_completeness auto
termination
  by (relation "measure (\<lambda>(m, d, s). length m - s)") (auto simp: acc_simps)

definition strcpy :: "mem \<Rightarrow> ptr \<Rightarrow> ptr \<Rightarrow> (mem \<times> ptr) option" where
  "strcpy m dst src =
     (case (dst, src) of
        (Some d, Some s) \<Rightarrow> map_option (\<lambda>m'. (m', Some d)) (strcpy_loop m d s)
      | _ \<Rightarrow> Some (m, None))"

text \<open>\<open>while (size--) *address++ = c;\<close>\<close>

fun fill :: "mem \<Rightarrow> nat \<Rightarrow> u8 \<Rightarrow> nat \<Rightarrow> mem option" where
  "fill m p c 0 = Some m"
| "fill m p c (Suc n) = do { m' \<leftarrow> wr m p c; fill m' (Suc p) c n }"

text \<open>The two loops of \<open>strncpy\<close>: copy up to the terminator, then pad with zero bytes.\<close>

fun strncpy_loop :: "mem \<Rightarrow> nat \<Rightarrow> nat \<Rightarrow> nat \<Rightarrow> mem option" where
  "strncpy_loop m d s 0 = Some m"
| "strncpy_loop m d s (Suc n) =
     do { c \<leftarrow> rd m s; m' \<leftarrow> wr m d c;
          if c = 0 then fill m' (Suc d) 0 n else strncpy_loop m' (Suc d) (Suc s) n }"

definition strncpy :: "mem \<Rightarrow> ptr \<Rightarrow> ptr \<Rightarrow> nat \<Rightarrow> (mem \<times> ptr) option" where
  "strncpy m dst src count =
     (case (dst, src) of
        (Some d, Some s) \<Rightarrow> map_option (\<lambda>m'. (m', Some d)) (strncpy_loop m d s count)
      | _ \<Rightarrow> Some (m, None))"

text \<open>\<open>while (*str) str++;\<close>: the address of the terminator.\<close>

function str_end :: "mem \<Rightarrow> nat \<Rightarrow> nat option" where
  "str_end m p =
     (case rd m p of None \<Rightarrow> None
      | Some c \<Rightarrow> if c = 0 then Some p else str_end m (Suc p))"
  by pat_completeness auto
termination
  by (relation "measure (\<lambda>(m, p). length m - p)") (auto simp: acc_simps)

definition strcat :: "mem \<Rightarrow> ptr \<Rightarrow> ptr \<Rightarrow> (mem \<times> ptr) option" where
  "strcat m dst src =
     (case (dst, src) of
        (Some d, Some s) \<Rightarrow>
          do { e \<leftarrow> str_end m d; m' \<leftarrow> strcpy_loop m e s; Some (m', Some d) }
      | _ \<Rightarrow> Some (m, None))"

text \<open>
  The copy loop of \<open>strncat\<close>: it stops after \<open>size\<close> bytes or after copying the
  terminator, and in both cases \<open>*strDest = 0\<close> is written at the advanced pointer.
\<close>

fun strncat_loop :: "mem \<Rightarrow> nat \<Rightarrow> nat \<Rightarrow> nat \<Rightarrow> mem option" where
  "strncat_loop m d s 0 = wr m d 0"
| "strncat_loop m d s (Suc n) =
     do { c \<leftarrow> rd m s; m' \<leftarrow> wr m d c;
          if c = 0 then wr m' (Suc d) 0 else strncat_loop m' (Suc d) (Suc s) n }"

definition strncat :: "mem \<Rightarrow> ptr \<Rightarrow> ptr \<Rightarrow> nat \<Rightarrow> (mem \<times> ptr) option" where
  "strncat m dst src count =
     (case (dst, src) of
        (Some d, Some s) \<Rightarrow>
          do { e \<leftarrow> str_end m d; m' \<leftarrow> strncat_loop m e s count; Some (m', Some d) }
      | _ \<Rightarrow> Some (m, None))"

text \<open>
  \<open>strcmp\<close> and \<open>strncmp\<close> keep the difference in a \<open>char\<close>.  The two strings may
  live in different objects, so each pointer comes with its memory.
\<close>

function strcmp :: "mem \<Rightarrow> nat \<Rightarrow> mem \<Rightarrow> nat \<Rightarrow> u8 option" where
  "strcmp m1 p1 m2 p2 =
     (case (rd m1 p1, rd m2 p2) of
        (Some a, Some b) \<Rightarrow>
          (let res = a - b in
           if res \<noteq> 0 \<or> a = 0 then Some res else strcmp m1 (Suc p1) m2 (Suc p2))
      | _ \<Rightarrow> None)"
  by pat_completeness auto
termination
  by (relation "measure (\<lambda>(m1, p1, m2, p2). length m1 - p1)")
    (auto simp: rd_def split: if_splits)

fun strncmp_loop :: "mem \<Rightarrow> nat \<Rightarrow> mem \<Rightarrow> nat \<Rightarrow> nat \<Rightarrow> u8 \<Rightarrow> u8 option" where
  "strncmp_loop m1 p1 m2 p2 0 res = Some res"
| "strncmp_loop m1 p1 m2 p2 (Suc n) res =
     do { a \<leftarrow> rd m1 p1; b \<leftarrow> rd m2 p2;
          let res' = a - b in
          if res' \<noteq> 0 \<or> a = 0 then Some res'
          else strncmp_loop m1 (Suc p1) m2 (Suc p2) n res' }"

definition strncmp :: "mem \<Rightarrow> nat \<Rightarrow> mem \<Rightarrow> nat \<Rightarrow> nat \<Rightarrow> u8 option" where
  "strncmp m1 p1 m2 p2 count = strncmp_loop m1 p1 m2 p2 count 0"

function strchr_loop :: "mem \<Rightarrow> nat \<Rightarrow> u8 \<Rightarrow> ptr option" where
  "strchr_loop m p c =
     (case rd m p of None \<Rightarrow> None
      | Some x \<Rightarrow> if x = c then Some (Some p)
                 else if x = 0 then Some None else strchr_loop m (Suc p) c)"
  by pat_completeness auto
termination
  by (relation "measure (\<lambda>(m, p, c). length m - p)") (auto simp: acc_simps)

definition strchr :: "mem \<Rightarrow> ptr \<Rightarrow> u8 \<Rightarrow> ptr option" where
  "strchr m str c = (case str of None \<Rightarrow> Some None | Some p \<Rightarrow> strchr_loop m p c)"

function strlen_loop :: "mem \<Rightarrow> nat \<Rightarrow> nat \<Rightarrow> nat option" where
  "strlen_loop m p len =
     (case rd m p of None \<Rightarrow> None
      | Some c \<Rightarrow> if c = 0 then Some len else strlen_loop m (Suc p) (Suc len))"
  by pat_completeness auto
termination
  by (relation "measure (\<lambda>(m, p, len). length m - p)") (auto simp: acc_simps)

definition strlen :: "mem \<Rightarrow> ptr \<Rightarrow> nat option" where
  "strlen m str = (case str of None \<Rightarrow> Some 0 | Some p \<Rightarrow> strlen_loop m p 0)"

fun strnlen_loop :: "mem \<Rightarrow> nat \<Rightarrow> nat \<Rightarrow> nat \<Rightarrow> nat option" where
  "strnlen_loop m p 0 maxlen = Some maxlen"
| "strnlen_loop m p (Suc n) maxlen =
     do { c \<leftarrow> rd m p;
          if c \<noteq> 0 then strnlen_loop m (Suc p) n (Suc maxlen) else Some maxlen }"

definition strnlen :: "mem \<Rightarrow> ptr \<Rightarrow> nat \<Rightarrow> nat option" where
  "strnlen m str maxsize =
     (case str of None \<Rightarrow> Some 0 | Some p \<Rightarrow> strnlen_loop m p maxsize 0)"

definition memset :: "mem \<Rightarrow> ptr \<Rightarrow> u32 \<Rightarrow> nat \<Rightarrow> (mem \<times> ptr) option" where
  "memset m str c count =
     (case str of None \<Rightarrow> Some (m, None)
      | Some p \<Rightarrow> map_option (\<lambda>m'. (m', Some p)) (fill m p (ucast c) count))"

fun memchr_loop :: "mem \<Rightarrow> nat \<Rightarrow> u8 \<Rightarrow> nat \<Rightarrow> ptr option" where
  "memchr_loop m p c 0 = Some None"
| "memchr_loop m p c (Suc n) =
     do { x \<leftarrow> rd m p; if c = x then Some (Some p) else memchr_loop m (Suc p) c n }"

definition memchr :: "mem \<Rightarrow> ptr \<Rightarrow> u32 \<Rightarrow> nat \<Rightarrow> ptr option" where
  "memchr m str c n =
     (case str of None \<Rightarrow> Some None | Some p \<Rightarrow> memchr_loop m p (ucast c) n)"

text \<open>The word loop and the byte loop of \<open>memcpy\<close>; the word loop returns where it stopped.\<close>

function copy_words :: "mem \<Rightarrow> nat \<Rightarrow> nat \<Rightarrow> nat \<Rightarrow> (mem \<times> nat \<times> nat \<times> nat) option" where
  "copy_words m d s n =
     (if 8 \<le> n
      then (case slice m s 8 of None \<Rightarrow> None
            | Some w \<Rightarrow> (case blit m d w of None \<Rightarrow> None
              | Some m' \<Rightarrow> copy_words m' (d + 8) (s + 8) (n - 8)))
      else Some (m, d, s, n))"
  by pat_completeness auto
termination
  by (relation "measure (\<lambda>(m, d, s, n). n)") auto

fun copy_up :: "mem \<Rightarrow> nat \<Rightarrow> nat \<Rightarrow> nat \<Rightarrow> mem option" where
  "copy_up m d s 0 = Some m"
| "copy_up m d s (Suc n) =
     do { x \<leftarrow> rd m s; m' \<leftarrow> wr m d x; copy_up m' (Suc d) (Suc s) n }"

fun copy_down :: "mem \<Rightarrow> nat \<Rightarrow> nat \<Rightarrow> nat \<Rightarrow> mem option" where
  "copy_down m d s 0 = Some m"
| "copy_down m d s (Suc n) =
     do { x \<leftarrow> rd m (s + n); m' \<leftarrow> wr m (d + n) x; copy_down m' d s n }"

definition memcpy :: "mem \<Rightarrow> ptr \<Rightarrow> ptr \<Rightarrow> nat \<Rightarrow> (mem \<times> ptr) option" where
  "memcpy m dst src count =
     (case (dst, src) of
        (Some d, Some s) \<Rightarrow>
          if s = d then Some (m, Some d)
          else if (d OR s) AND 7 = 0
          then do { (m', d', s', n') \<leftarrow> copy_words m d s count;
                    m'' \<leftarrow> copy_up m' d' s' n'; Some (m'', Some d) }
          else do { m'' \<leftarrow> copy_up m d s count; Some (m'', Some d) }
      | _ \<Rightarrow> Some (m, None))"

definition memmove :: "mem \<Rightarrow> ptr \<Rightarrow> ptr \<Rightarrow> nat \<Rightarrow> (mem \<times> ptr) option" where
  "memmove m dst src count =
     (case (dst, src) of
        (Some d, Some s) \<Rightarrow>
          map_option (\<lambda>m'. (m', dst))
            (if d \<le> s then copy_up m d s count else copy_down m d s count)
      | _ \<Rightarrow> Some (m, dst))"

fun memcmp_loop :: "mem \<Rightarrow> nat \<Rightarrow> mem \<Rightarrow> nat \<Rightarrow> nat \<Rightarrow> int \<Rightarrow> int option" where
  "memcmp_loop m1 p1 m2 p2 0 res = Some res"
| "memcmp_loop m1 p1 m2 p2 (Suc n) res =
     do { a \<leftarrow> rd m1 p1; b \<leftarrow> rd m2 p2;
          let res' = uint a - uint b in
          if res' \<noteq> 0 then Some res' else memcmp_loop m1 (Suc p1) m2 (Suc p2) n res' }"

definition memcmp :: "mem \<Rightarrow> ptr \<Rightarrow> mem \<Rightarrow> ptr \<Rightarrow> nat \<Rightarrow> int option" where
  "memcmp m1 str1 m2 str2 count =
     (case (str1, str2) of
        (Some p1, Some p2) \<Rightarrow> memcmp_loop m1 p1 m2 p2 count 1
      | _ \<Rightarrow> Some 1)"

text \<open>
  \<open>while (len1 >= len2) { len1--; if (!memcmp(str1,str2,len2)) return str1; str1++; }\<close>,
  entered with \<open>0 < len2\<close>.
\<close>

function strstr_loop :: "mem \<Rightarrow> nat \<Rightarrow> mem \<Rightarrow> nat \<Rightarrow> int \<Rightarrow> int \<Rightarrow> ptr option" where
  "strstr_loop m1 p1 m2 p2 len1 len2 =
     (if 0 < len2 \<and> len2 \<le> len1
      then (case memcmp m1 (Some p1) m2 (Some p2) (nat len2) of None \<Rightarrow> None
            | Some r \<Rightarrow> if r = 0 then Some (Some p1)
                       else strstr_loop m1 (Suc p1) m2 p2 (len1 - 1) len2)
      else Some None)"
  by pat_completeness auto
termination
  by (relation "measure (\<lambda>(m1, p1, m2, p2, len1, len2). nat len1)") auto

definition strstr :: "mem \<Rightarrow> ptr \<Rightarrow> mem \<Rightarrow> ptr \<Rightarrow> ptr option" where
  "strstr m1 str1 m2 str2 =
     (case str1 of None \<Rightarrow> Some None
      | Some p1 \<Rightarrow>
          do { len2 \<leftarrow> strlen m2 str2;
               if len2 = 0 then Some str1
               else do { len1 \<leftarrow> strlen m1 str1;
                         p2 \<leftarrow> str2;
                         strstr_loop m1 p1 m2 p2 (int len1) (int len2) } })"

definition TOLOWER :: "u8 \<Rightarrow> u8" where
  "TOLOWER x = x OR 0x20"

definition isdigit :: "u8 \<Rightarrow> bool" where
  "isdigit x \<longleftrightarrow> 48 \<le> x \<and> x \<le> 57"

definition isxdigit :: "u8 \<Rightarrow> bool" where
  "isxdigit x \<longleftrightarrow> isdigit x \<or> (97 \<le> x \<and> x \<le> 102) \<or> (65 \<le> x \<and> x \<le> 70)"

text \<open>The value of one digit, in an \<open>unsigned int\<close>.\<close>

definition digit_value :: "u8 \<Rightarrow> u32" where
  "digit_value c = (if isdigit c then ucast c - 48 else ucast (TOLOWER c) - 97 + 10)"

function strtoul_loop :: "mem \<Rightarrow> nat \<Rightarrow> u32 \<Rightarrow> u64 \<Rightarrow> (u64 \<times> nat) option" where
  "strtoul_loop m p base result =
     (case rd m p of None \<Rightarrow> None
      | Some c \<Rightarrow>
          if isxdigit c then
            (let value = digit_value c in
             if base \<le> value then Some (result, p)
             else strtoul_loop m (Suc p) base (result * ucast base + ucast value))
          else Some (result, p))"
  by pat_completeness auto
termination
  by (relation "measure (\<lambda>(m, p, base, result). length m - p)") (auto simp: acc_simps)

text \<open>The base is detected from the prefix when the caller passes 0.\<close>

definition strtoul_base :: "mem \<Rightarrow> nat \<Rightarrow> u32 \<Rightarrow> u32 option" where
  "strtoul_base m p base =
     (if base = 0
      then do { c0 \<leftarrow> rd m p;
                if c0 = 48
                then do { c1 \<leftarrow> rd m (p + 1);
                          if TOLOWER c1 = 120
                          then do { c2 \<leftarrow> rd m (p + 2);
                                    Some (if isxdigit c2 then 16 else 8) }
                          else Some 8 }
                else Some 10 }
      else Some base)"

text \<open>
  \<open>strtoul\<close> returns the value and the address \<open>*endptr\<close> receives (when \<open>endptr\<close> is
  not null).
\<close>

definition strtoul :: "mem \<Rightarrow> nat \<Rightarrow> u32 \<Rightarrow> (u64 \<times> nat) option" where
  "strtoul m nptr base0 =
     do { base \<leftarrow> strtoul_base m nptr base0;
          start \<leftarrow> (if base = 16
                    then do { c0 \<leftarrow> rd m nptr;
                              if c0 = 48
                              then do { c1 \<leftarrow> rd m (nptr + 1);
                                        Some (if TOLOWER c1 = 120 then nptr + 2 else nptr) }
                              else Some nptr }
                    else Some nptr);
          strtoul_loop m start base 0 }"

definition ctoi :: "u8 \<Rightarrow> int" where
  "ctoi c =
     (if 48 \<le> c \<and> c \<le> 57 then uint c - 48
      else if 97 \<le> c \<and> c \<le> 102 then uint c - 97 + 10
      else if 65 \<le> c \<and> c \<le> 70 then uint c - 65 + 10
      else -1)"

definition itoc :: "u8 \<Rightarrow> u8" where
  "itoc i = (let j = i AND 0xf in if j < 10 then j + 48 else j - 10 + 65)"

declare strcpy_loop.simps [simp del] str_end.simps [simp del] strcmp.simps [simp del]
  strchr_loop.simps [simp del] strlen_loop.simps [simp del] copy_words.simps [simp del]
  strstr_loop.simps [simp del] strtoul_loop.simps [simp del]

section \<open>Strings in memory\<close>

text \<open>\<open>cstr m p s\<close>: the zero-terminated string at address \<open>p\<close> has the characters \<open>s\<close>.\<close>

fun cstr :: "mem \<Rightarrow> nat \<Rightarrow> u8 list \<Rightarrow> bool" where
  "cstr m p [] \<longleftrightarrow> rd m p = Some 0"
| "cstr m p (c # s) \<longleftrightarrow> c \<noteq> 0 \<and> rd m p = Some c \<and> cstr m (Suc p) s"

lemma cstr_length: "cstr m p s \<Longrightarrow> p + length s < length m"
  by (induction s arbitrary: p) (fastforce simp: acc_simps)+

lemma cstr_nonzero: "cstr m p s \<Longrightarrow> 0 \<notin> set s"
  by (induction s arbitrary: p) auto

lemma cstr_nth: "cstr m p s \<Longrightarrow> i < length s \<Longrightarrow> m ! (p + i) = s ! i"
proof (induction s arbitrary: p i)
  case (Cons c s)
  then show ?case by (cases i) (auto simp: acc_simps simp flip: add_Suc)
qed simp

lemma cstr_end: "cstr m p s \<Longrightarrow> m ! (p + length s) = 0"
  by (induction s arbitrary: p) (auto simp: acc_simps simp flip: add_Suc)

lemma cstr_append: "cstr m p (s @ t) \<Longrightarrow> cstr m (p + length s) t"
  by (induction s arbitrary: p) (auto simp flip: add_Suc)

lemma cstr_unique: "cstr m p s \<Longrightarrow> cstr m p t \<Longrightarrow> s = t"
proof (induction s arbitrary: p t)
  case Nil
  then show ?case by (cases t) auto
next
  case (Cons c s)
  then show ?case by (cases t) auto
qed

lemma cstr_local:
  assumes "cstr m p s" and "length m' = length m"
    and "\<And>i. i \<le> length s \<Longrightarrow> m' ! (p + i) = m ! (p + i)"
  shows "cstr m' p s"
  using assms
proof (induction s arbitrary: p)
  case Nil
  then show ?case using Nil.prems(3) [of 0] by (auto simp: acc_simps)
next
  case (Cons c s)
  have "cstr m' (Suc p) s"
  proof (rule Cons.IH)
    fix i assume "i \<le> length s"
    then show "m' ! (Suc p + i) = m ! (Suc p + i)" using Cons.prems(3) [of "Suc i"] by simp
  qed (use Cons.prems in auto)
  then show ?case using Cons.prems Cons.prems(3) [of 0] by (auto simp: acc_simps)
qed

lemma strlen_loop_cstr: "cstr m p s \<Longrightarrow> strlen_loop m p n = Some (n + length s)"
  by (induction s arbitrary: p n) (auto simp: strlen_loop.simps)

lemma strlen_cstr [simp]: "cstr m p s \<Longrightarrow> strlen m (Some p) = Some (length s)"
  by (simp add: strlen_def strlen_loop_cstr)

lemma str_end_cstr [simp]: "cstr m p s \<Longrightarrow> str_end m p = Some (p + length s)"
  by (induction s arbitrary: p) (auto simp: str_end.simps)

lemma strcmp_cstr:
  assumes "cstr m1 p1 s" and "cstr m2 p2 t"
  shows "\<exists>r. strcmp m1 p1 m2 p2 = Some r \<and> (r = 0 \<longleftrightarrow> s = t)"
  using assms
proof (induction s arbitrary: p1 p2 t)
  case Nil
  then show ?case by (cases t) (auto simp: strcmp.simps [of m1 p1 m2 p2] Let_def)
next
  case (Cons a s)
  show ?case
  proof (cases t)
    case Nil
    then show ?thesis using Cons.prems by (auto simp: strcmp.simps [of m1 p1 m2 p2] Let_def)
  next
    case (Cons b t')
    with Cons.prems Cons.IH [of "Suc p1" "Suc p2" t'] show ?thesis
      by (auto simp: strcmp.simps [of m1 p1 m2 p2] Let_def)
  qed
qed

lemma strncmp_loop_cstr:
  assumes "cstr m1 p1 s" and "cstr m2 p2 t"
  shows "\<exists>r. strncmp_loop m1 p1 m2 p2 n r0 = Some r \<and>
    (r = 0 \<longleftrightarrow> take n s = take n t \<and> (n = 0 \<longrightarrow> r0 = 0))"
  using assms
proof (induction n arbitrary: p1 p2 s t r0)
  case (Suc n)
  show ?case
  proof (cases s)
    case Nil
    then show ?thesis using Suc.prems by (cases t) (auto simp: Let_def)
  next
    case s: (Cons a s')
    show ?thesis
    proof (cases t)
      case Nil
      then show ?thesis using s Suc.prems by (auto simp: Let_def)
    next
      case (Cons b t')
      with s Suc.prems Suc.IH [of "Suc p1" s' "Suc p2" t' 0] show ?thesis
        by (auto simp: Let_def)
    qed
  qed
qed simp

lemma strncmp_cstr:
  assumes "cstr m1 p1 s" and "cstr m2 p2 t"
  shows "\<exists>r. strncmp m1 p1 m2 p2 n = Some r \<and> (r = 0 \<longleftrightarrow> take n s = take n t)"
  using strncmp_loop_cstr [OF assms, of n 0] by (simp add: strncmp_def)

section \<open>Copying\<close>

text \<open>
  What a correct copy leaves in memory: the \<open>n\<close> bytes that were at \<open>s\<close> before the call
  are at \<open>d\<close>, everything else is unchanged.
\<close>

definition copied :: "mem \<Rightarrow> nat \<Rightarrow> nat \<Rightarrow> nat \<Rightarrow> mem \<Rightarrow> bool" where
  "copied m d s n m' \<longleftrightarrow> length m' = length m \<and>
     (\<forall>j < length m. m' ! j = (if d \<le> j \<and> j < d + n then m ! (s + (j - d)) else m ! j))"

lemma copied_blit:
  assumes "copied m d s n m'" and "s + n \<le> length m" and "d + n \<le> length m"
  shows "blit m d (take n (drop s m)) = Some m'"
proof -
  have "m' = take d m @ take n (drop s m) @ drop (d + n) m"
    using assms by (intro nth_equalityI) (auto simp: copied_def nth_append)
  then show ?thesis using assms by (simp add: blit_def)
qed

lemma copied_step_up:
  assumes "copied (m[d := m ! s]) (Suc d) (Suc s) n m'" and "d \<le> s \<or> s + Suc n \<le> d"
    and "s < length m" and "d < length m"
  shows "copied m d s (Suc n) m'"
proof -
  have "m' ! j = (if d \<le> j \<and> j < d + Suc n then m ! (s + (j - d)) else m ! j)"
    if j: "j < length m" for j
  proof -
    consider "j = d" | "Suc d \<le> j" "j < d + Suc n" | "j < d \<or> d + Suc n \<le> j" by linarith
    then show ?thesis
    proof cases
      case 2
      then have "s + (j - d) = Suc s + (j - Suc d)" and "s + (j - d) \<noteq> d"
        using assms(2) by linarith+
      then show ?thesis using 2 j assms(1) by (auto simp: copied_def)
    qed (use j assms in \<open>auto simp: copied_def\<close>)
  qed
  then show ?thesis using assms by (auto simp: copied_def)
qed

lemma copy_up_copied:
  assumes "d \<le> s \<or> s + n \<le> d" and "s + n \<le> length m" and "d + n \<le> length m"
  shows "\<exists>m'. copy_up m d s n = Some m' \<and> copied m d s n m'"
  using assms
proof (induction n arbitrary: m d s)
  case 0
  then show ?case by (auto simp: copied_def)
next
  case (Suc n)
  have "\<exists>m'. copy_up (m[d := m ! s]) (Suc d) (Suc s) n = Some m' \<and>
      copied (m[d := m ! s]) (Suc d) (Suc s) n m'"
    using Suc.prems by (intro Suc.IH) auto
  then show ?case using Suc.prems by (auto dest!: copied_step_up)
qed

lemma copied_step_down:
  assumes "copied (m[d + n := m ! (s + n)]) d s n m'" and "s \<le> d"
    and "s + n < length m" and "d + n < length m"
  shows "copied m d s (Suc n) m'"
proof -
  have "m' ! j = (if d \<le> j \<and> j < d + Suc n then m ! (s + (j - d)) else m ! j)"
    if j: "j < length m" for j
  proof -
    consider "j = d + n" | "d \<le> j" "j < d + n" | "j < d \<or> d + Suc n \<le> j" by linarith
    then show ?thesis
    proof cases
      case 2
      then have "s + (j - d) \<noteq> d + n" using assms(2) by linarith
      then show ?thesis using 2 j assms(1) by (auto simp: copied_def)
    qed (use j assms in \<open>auto simp: copied_def\<close>)
  qed
  then show ?thesis using assms by (auto simp: copied_def)
qed

lemma copy_down_copied:
  assumes "s \<le> d" and "s + n \<le> length m" and "d + n \<le> length m"
  shows "\<exists>m'. copy_down m d s n = Some m' \<and> copied m d s n m'"
  using assms
proof (induction n arbitrary: m)
  case 0
  then show ?case by (auto simp: copied_def)
next
  case (Suc n)
  have "\<exists>m'. copy_down (m[d + n := m ! (s + n)]) d s n = Some m' \<and>
      copied (m[d + n := m ! (s + n)]) d s n m'"
    using Suc.prems by (intro Suc.IH) auto
  then show ?case using Suc.prems by (auto dest!: copied_step_down)
qed

lemma copied_compose:
  assumes "copied m d s k m1" and "copied m1 (d + k) (s + k) n m2"
    and "d \<le> s \<or> s + k + n \<le> d" and "s + k + n \<le> length m" and "d + k + n \<le> length m"
  shows "copied m d s (k + n) m2"
proof -
  have "m2 ! j = (if d \<le> j \<and> j < d + (k + n) then m ! (s + (j - d)) else m ! j)"
    if j: "j < length m" for j
  proof -
    consider "d + k \<le> j" "j < d + k + n" | "d \<le> j" "j < d + k" | "j < d \<or> d + k + n \<le> j"
      by linarith
    then show ?thesis
    proof cases
      case 1
      then have eq: "s + (j - d) = s + k + (j - (d + k))" by linarith
      have "s + (j - d) < length m" and "\<not> (d \<le> s + (j - d) \<and> s + (j - d) < d + k)"
        using 1 j assms(3,4) by linarith+
      then show ?thesis using 1 j assms(1,2) eq by (auto simp: copied_def)
    qed (use j assms(1,2) in \<open>auto simp: copied_def\<close>)
  qed
  then show ?thesis using assms(1,2) by (auto simp: copied_def)
qed

lemma blit_copied: "blit m d (take n (drop s m)) = Some m' \<Longrightarrow> s + n \<le> length m \<Longrightarrow> copied m d s n m'"
  by (auto simp: copied_def blit_nth length_blit)

lemma copy_words_copied:
  assumes "d \<le> s \<or> s + n \<le> d" and "s + n \<le> length m" and "d + n \<le> length m"
  shows "\<exists>m' k. copy_words m d s n = Some (m', d + k, s + k, n - k) \<and> k \<le> n \<and> copied m d s k m'"
  using assms
proof (induction m d s n rule: copy_words.induct)
  case (1 m d s n)
  show ?case
  proof (cases "8 \<le> n")
    case False
    then show ?thesis by (subst copy_words.simps) (auto intro!: exI [of _ 0] simp: copied_def)
  next
    case True
    define w where "w = take 8 (drop s m)"
    have sl: "slice m s 8 = Some w" using 1(3) True by (simp add: slice_def w_def)
    have lw: "length w = 8" using sl by (rule length_slice)
    obtain m1 where m1: "blit m d w = Some m1"
      using 1(4) True lw by (auto simp: blit_def)
    have c1: "copied m d s 8 m1"
      using m1 1(3) True unfolding w_def by (intro blit_copied) auto
    have lm: "length m1 = length m" using m1 by (rule length_blit)
    have "d + 8 \<le> s + 8 \<or> s + 8 + (n - 8) \<le> d + 8" using 1(2) True by auto
    then obtain m' k where k: "copy_words m1 (d + 8) (s + 8) (n - 8) = Some (m', d + 8 + k, s + 8 + k, n - 8 - k)"
      "k \<le> n - 8" "copied m1 (d + 8) (s + 8) k m'"
      using 1(1) [OF True sl m1] 1(3,4) True lm by auto
    have "copied m d s (8 + k) m'"
      using c1 k(2,3) 1(2,3,4) True by (intro copied_compose) auto
    then show ?thesis
      using k True sl m1 by (subst copy_words.simps) (auto intro!: exI [of _ "8 + k"] simp: add.assoc)
  qed
qed

lemma memmove_blit:
  assumes "s + n \<le> length m" and "d + n \<le> length m"
  shows "\<exists>m'. memmove m (Some d) (Some s) n = Some (m', Some d) \<and>
    blit m d (take n (drop s m)) = Some m'"
proof (cases "d \<le> s")
  case True
  with copy_up_copied [of d s n m] assms show ?thesis
    by (auto simp: memmove_def dest: copied_blit)
next
  case False
  with copy_down_copied [of s d n m] assms show ?thesis
    by (auto simp: memmove_def dest: copied_blit)
qed

text \<open>
  C37: \<open>memmove\<close> is correct for every overlap of the two regions: whenever both
  lie in the memory it returns the destination pointer, the bytes that were at the
  source before the call are at the destination, and no other byte changes.
\<close>

theorem memmove_correct:
  assumes "s + n \<le> length m" and "d + n \<le> length m"
  shows "\<exists>m'. memmove m (Some d) (Some s) n = Some (m', Some d) \<and>
    blit m d (take n (drop s m)) = Some m'"
  using assms by (rule memmove_blit)

theorem memmove_correct_witness:
  "\<exists>m'. memmove [1, 2, 3, 4, 5] (Some 2) (Some 1) 3 = Some (m', Some 2) \<and>
     m' = [1, 2, 2, 3, 4]"
  using memmove_correct [of 1 3 "[1, 2, 3, 4, 5]" 2] by (simp add: blit_def numeral_eq_Suc)

text \<open>
  \<open>memcpy\<close> copies correctly through its 8-byte loop and through its byte loop
  whenever the destination does not start inside the source region.
\<close>

lemma memcpy_correct:
  assumes "d \<le> s \<or> s + n \<le> d" and "s + n \<le> length m" and "d + n \<le> length m"
  shows "\<exists>m'. memcpy m (Some d) (Some s) n = Some (m', Some d) \<and>
    blit m d (take n (drop s m)) = Some m'"
proof (cases "s = d")
  case True
  then have "copied m d s n m" by (auto simp: copied_def)
  with True assms show ?thesis by (auto simp: memcpy_def dest: copied_blit)
next
  case ne: False
  show ?thesis
  proof (cases "(d OR s) AND 7 = 0")
    case True
    obtain m1 k where k: "copy_words m d s n = Some (m1, d + k, s + k, n - k)" "k \<le> n"
      "copied m d s k m1" using copy_words_copied [OF assms] by blast
    have l1: "length m1 = length m" using k(3) by (simp add: copied_def)
    have "d + k \<le> s + k \<or> s + k + (n - k) \<le> d + k" using assms(1) k(2) by linarith
    then obtain m2 where m2: "copy_up m1 (d + k) (s + k) (n - k) = Some m2"
      "copied m1 (d + k) (s + k) (n - k) m2"
      using copy_up_copied [of "d + k" "s + k" "n - k" m1] assms k(2) l1 by auto
    have "copied m d s (k + (n - k)) m2"
      using k m2(2) assms by (intro copied_compose) auto
    then show ?thesis using True ne k m2 assms by (auto simp: memcpy_def dest: copied_blit)
  next
    case False
    with ne copy_up_copied [OF assms] assms show ?thesis
      by (auto simp: memcpy_def dest: copied_blit)
  qed
qed

section \<open>Length-limited copies\<close>

lemma fill_nth:
  assumes "p + n \<le> length m"
  shows "\<exists>m'. fill m p c n = Some m' \<and> length m' = length m \<and>
    (\<forall>j < length m. m' ! j = (if p \<le> j \<and> j < p + n then c else m ! j))"
  using assms
proof (induction n arbitrary: m p)
  case (Suc n)
  have "\<exists>m'. fill (m[p := c]) (Suc p) c n = Some m' \<and> length m' = length m \<and>
    (\<forall>j < length m. m' ! j = (if Suc p \<le> j \<and> j < Suc p + n then c else m[p := c] ! j))"
    using Suc.IH [of "Suc p" "m[p := c]"] Suc.prems by simp
  then show ?case using Suc.prems by (auto simp: nth_list_update)
qed auto

lemma strncpy_loop_nth:
  assumes "cstr m s t" and "d + n \<le> length m"
    and "d + n \<le> s \<or> s + length t < d"
  shows "\<exists>m'. strncpy_loop m d s n = Some m' \<and> length m' = length m \<and>
    (\<forall>j < length m. m' ! j =
       (if d \<le> j \<and> j < d + n then (if j - d < length t then t ! (j - d) else 0) else m ! j))"
  using assms
proof (induction n arbitrary: m d s t)
  case (Suc n)
  show ?case
  proof (cases t)
    case Nil
    with Suc.prems have c: "rd m s = Some 0" by simp
    obtain m' where "fill (m[d := 0]) (Suc d) 0 n = Some m'" "length m' = length m"
      "\<forall>j < length m. m' ! j = (if Suc d \<le> j \<and> j < Suc d + n then 0 else m[d := 0] ! j)"
      using fill_nth [of "Suc d" n "m[d := 0]" 0] Suc.prems(2) by auto
    then show ?thesis using Nil c Suc.prems by (auto simp: nth_list_update)
  next
    case (Cons a t')
    with Suc.prems(1) have a: "rd m s = Some a" "a \<noteq> 0" "cstr m (Suc s) t'" by auto
    have "cstr (m[d := a]) (Suc s) t'"
      using a(3) by (rule cstr_local) (use Suc.prems(3) Cons in \<open>auto simp: nth_list_update\<close>)
    then obtain m' where m': "strncpy_loop (m[d := a]) (Suc d) (Suc s) n = Some m'"
      "length m' = length m"
      "\<forall>j < length m. m' ! j = (if Suc d \<le> j \<and> j < Suc d + n then
         (if j - Suc d < length t' then t' ! (j - Suc d) else 0) else m[d := a] ! j)"
      using Suc.IH [of "m[d := a]" "Suc s" t' "Suc d"] Suc.prems Cons by auto
    have "m' ! j = (if d \<le> j \<and> j < d + Suc n
       then (if j - d < length t then t ! (j - d) else 0) else m ! j)" if "j < length m" for j
    proof (cases "d < j")
      case True
      then have "j - d = Suc (j - Suc d)" by simp
      with m'(3) that Cons True show ?thesis by auto
    qed (use m' that Cons Suc.prems(2) in \<open>auto simp: nth_list_update\<close>)
    then show ?thesis using m' a Suc.prems(2) by auto
  qed
qed auto

lemma strncpy_blit:
  assumes "cstr m s t" and "d + n \<le> length m" and "d + n \<le> s \<or> s + length t < d"
  shows "\<exists>m'. strncpy m (Some d) (Some s) n = Some (m', Some d) \<and>
    blit m d (take n (t @ replicate n 0)) = Some m'"
proof -
  obtain m' where m': "strncpy_loop m d s n = Some m'" "length m' = length m"
    "\<forall>j < length m. m' ! j =
       (if d \<le> j \<and> j < d + n then (if j - d < length t then t ! (j - d) else 0) else m ! j)"
    using strncpy_loop_nth [OF assms] by blast
  define ys where "ys = take n (t @ replicate n (0 :: u8))"
  have ys: "length ys = n" "\<And>i. i < n \<Longrightarrow> ys ! i = (if i < length t then t ! i else 0)"
    by (auto simp: ys_def nth_append)
  have "m' = take d m @ ys @ drop (d + n) m"
    using assms(2) m'(2,3) by (intro nth_equalityI) (auto simp: nth_append ys)
  then have "blit m d ys = Some m'" using assms(2) ys(1) by (simp add: blit_def)
  then show ?thesis using m'(1) by (simp add: strncpy_def ys_def)
qed

text \<open>
  \<open>strncpy\<close> writes exactly \<open>n\<close> bytes: the characters of the source string cut
  to \<open>n\<close>, then zero bytes.  So the copy is zero-terminated only if the string is
  shorter than \<open>n\<close>, and the buffer is padded although the comment above the routine
  says that it is not.
\<close>

lemma strncpy_correct:
  assumes "cstr m s t" and "d + n \<le> length m" and "d + n \<le> s \<or> s + length t < d"
  shows "\<exists>m'. strncpy m (Some d) (Some s) n = Some (m', Some d) \<and>
    blit m d (take n (t @ replicate n 0)) = Some m'"
  using assms by (rule strncpy_blit)

section \<open>Comparison and search\<close>

lemma uint_eq_iff_eq: "uint (a :: 'a::len word) = uint b \<longleftrightarrow> a = b"
  by (simp add: word_uint_eq_iff)

lemma memcmp_loop_slices:
  assumes "p1 + n \<le> length m1" and "p2 + n \<le> length m2"
  shows "\<exists>r. memcmp_loop m1 p1 m2 p2 n r0 = Some r \<and>
    (r = 0 \<longleftrightarrow> take n (drop p1 m1) = take n (drop p2 m2) \<and> (n = 0 \<longrightarrow> r0 = 0))"
  using assms
proof (induction n arbitrary: p1 p2 r0)
  case (Suc n)
  have "take (Suc n) (drop p1 m1) = m1 ! p1 # take n (drop (Suc p1) m1)"
    and "take (Suc n) (drop p2 m2) = m2 ! p2 # take n (drop (Suc p2) m2)"
    using Suc.prems by (simp_all flip: Cons_nth_drop_Suc)
  then show ?case
    using Suc.prems Suc.IH [of "Suc p1" "Suc p2" 0] by (auto simp: Let_def uint_eq_iff_eq)
qed simp

lemma memcmp_slices:
  assumes "p1 + n \<le> length m1" and "p2 + n \<le> length m2"
  shows "\<exists>r. memcmp m1 (Some p1) m2 (Some p2) n = Some r \<and>
    (r = 0 \<longleftrightarrow> 0 < n \<and> take n (drop p1 m1) = take n (drop p2 m2))"
  using memcmp_loop_slices [OF assms, of 1] by (auto simp: memcmp_def)

text \<open>
  on two regions inside their memories \<open>memcmp\<close> always returns, and it returns 0
  exactly when the regions are equal and not empty: for a size of zero it returns 1,
  where the C standard asks for 0.
\<close>

lemma memcmp_correct:
  assumes "p1 + n \<le> length m1" and "p2 + n \<le> length m2"
  shows "\<exists>r. memcmp m1 (Some p1) m2 (Some p2) n = Some r \<and>
    (r = 0 \<longleftrightarrow> 0 < n \<and> take n (drop p1 m1) = take n (drop p2 m2))"
  using assms by (rule memcmp_slices)

lemma strstr_loop_spec:
  assumes "cstr m1 p1 s" and "cstr m2 p2 t" and "t \<noteq> []"
  shows "strstr_loop m1 p1 m2 p2 (int (length s)) (int (length t)) =
    Some (map_option (\<lambda>i. p1 + i)
      (find (\<lambda>i. take (length t) (drop i s) = t) [0..<Suc (length s) - length t]))"
  using assms(1)
proof (induction s arbitrary: p1)
  case Nil
  have "[0..<Suc (length ([] :: u8 list)) - length t] = []" using assms(3) by (cases t) simp_all
  then show ?case using assms(3) by (subst strstr_loop.simps) simp
next
  case (Cons a s)
  show ?case
  proof (cases "length t \<le> length (a # s)")
    case False
    then have "[0..<Suc (length (a # s)) - length t] = []" by simp
    with False show ?thesis by (subst strstr_loop.simps) auto
  next
    case True
    have sl1: "take (length t) (drop p1 m1) = take (length t) (a # s)"
      using Cons.prems True cstr_length [OF Cons.prems] cstr_nth [OF Cons.prems]
      by (intro nth_equalityI) auto
    have sl2: "take (length t) (drop p2 m2) = t"
      using cstr_length [OF assms(2)] cstr_nth [OF assms(2)] by (intro nth_equalityI) auto
    obtain r where r: "memcmp m1 (Some p1) m2 (Some p2) (length t) = Some r"
      "r = 0 \<longleftrightarrow> take (length t) (a # s) = t"
      using memcmp_loop_slices [of p1 "length t" m1 p2 m2 1] cstr_length [OF Cons.prems]
        cstr_length [OF assms(2)] True assms(3) sl1 sl2
      by (auto simp: memcmp_def)
    have up: "[0..<Suc (length (a # s)) - length t] =
      0 # map Suc [0..<Suc (length s) - length t]"
      using True assms(3) by (simp add: map_Suc_upt upt_conv_Cons Suc_diff_le)
    have "find (\<lambda>i. take (length t) (drop i (a # s)) = t) (map Suc xs) =
      map_option Suc (find (\<lambda>i. take (length t) (drop i s) = t) xs)" for xs
      by (induction xs) auto
    moreover have "strstr_loop m1 (Suc p1) m2 p2 (int (length s)) (int (length t)) =
      Some (map_option (\<lambda>i. Suc p1 + i)
        (find (\<lambda>i. take (length t) (drop i s) = t) [0..<Suc (length s) - length t]))"
      using Cons by simp
    ultimately show ?thesis
      using r True assms(3) unfolding up
      by (subst strstr_loop.simps) (auto simp: option.map_comp comp_def)
  qed
qed

text \<open>
  \<open>strstr\<close> returns the address of the first occurrence of a non-empty needle in
  the haystack, and the null pointer when there is none.
\<close>

lemma strstr_first_occurrence:
  assumes "cstr m1 p1 s" and "cstr m2 p2 t" and "t \<noteq> []"
  shows "strstr m1 (Some p1) m2 (Some p2) =
    Some (map_option (\<lambda>i. p1 + i)
      (find (\<lambda>i. take (length t) (drop i s) = t) [0..<Suc (length s) - length t]))"
  using assms strstr_loop_spec [OF assms] by (simp add: strstr_def)

section \<open>Numbers\<close>

text \<open>The decimal characters of a digit list, and its value.\<close>

definition dec_chars :: "nat list \<Rightarrow> u8 list" where
  "dec_chars ds = map (\<lambda>d. 48 + of_nat d) ds"

definition dec_value :: "nat list \<Rightarrow> nat" where
  "dec_value ds = foldl (\<lambda>a d. a * 10 + d) 0 ds"

lemma dec_char:
  assumes "d < 10"
  shows "isdigit (48 + of_nat d)" and "isxdigit (48 + of_nat d)"
    and "digit_value (48 + of_nat d) = of_nat d" and "(48 + of_nat d :: u8) \<noteq> 0"
    and "digit_value (48 + of_nat d) < 10" and "d \<noteq> 0 \<Longrightarrow> (48 + of_nat d :: u8) \<noteq> 48"
proof -
  have "d = 0 \<or> d = 1 \<or> d = 2 \<or> d = 3 \<or> d = 4 \<or> d = 5 \<or> d = 6 \<or> d = 7 \<or> d = 8 \<or> d = 9"
    using assms by arith
  then have "isdigit (48 + of_nat d) \<and> digit_value (48 + of_nat d) = of_nat d \<and>
    (48 + of_nat d :: u8) \<noteq> 0 \<and> digit_value (48 + of_nat d) < 10"
    by (elim disjE) (simp_all add: isdigit_def digit_value_def)
  then show "isdigit (48 + of_nat d)" and "isxdigit (48 + of_nat d)"
    and "digit_value (48 + of_nat d) = of_nat d" and "(48 + of_nat d :: u8) \<noteq> 0"
    and "digit_value (48 + of_nat d) < 10"
    by (auto simp: isxdigit_def)
  show "d \<noteq> 0 \<Longrightarrow> (48 + of_nat d :: u8) \<noteq> 48"
    using assms by (auto simp: word_of_nat_eq_0_iff dest: dvd_imp_le)
qed

lemma strtoul_loop_dec:
  assumes "cstr m p (dec_chars ds)" and "\<forall>d \<in> set ds. d < 10"
  shows "strtoul_loop m p 10 r = Some (foldl (\<lambda>a d. a * 10 + of_nat d) r ds, p + length ds)"
  using assms
proof (induction ds arbitrary: p r)
  case Nil
  then show ?case by (subst strtoul_loop.simps) (simp add: dec_chars_def isxdigit_def isdigit_def)
next
  case (Cons d ds)
  have d: "d < 10" using Cons.prems by simp
  have "unat (of_nat d :: u32) = d" using d by (simp add: unat_of_nat)
  then have "ucast (of_nat d :: u32) = (of_nat d :: u64)"
    using d by (simp add: unsigned_of_nat take_bit_nat_eq_self)
  then show ?case
    using Cons dec_char [OF d]
    by (subst strtoul_loop.simps) (auto simp: dec_chars_def Let_def not_le)
qed

lemma foldl_of_nat:
  "foldl (\<lambda>a d. a * 10 + of_nat d) (of_nat n :: u64) ds = of_nat (foldl (\<lambda>a d. a * 10 + d) n ds)"
proof (induction ds arbitrary: n)
  case (Cons d ds)
  show ?case using Cons [of "n * 10 + d"] by simp
qed simp

text \<open>
  with automatic base detection \<open>strtoul\<close> reads a decimal number that does not
  start with the digit 0 as its value (modulo the width of \<open>unsigned long\<close>) and stops
  at its end.
\<close>

lemma strtoul_decimal:
  assumes "cstr m p (dec_chars (d # ds))" and "\<forall>x \<in> set (d # ds). x < 10" and "d \<noteq> 0"
  shows "strtoul m p 0 = Some (of_nat (dec_value (d # ds)), p + length (d # ds))"
proof -
  have "rd m p = Some (48 + of_nat d)" using assms(1) by (simp add: dec_chars_def)
  moreover have "(48 + of_nat d :: u8) \<noteq> 48"
    using assms(2,3) by (intro dec_char) auto
  ultimately have "strtoul_base m p 0 = Some 10"
    by (simp add: strtoul_base_def)
  then show ?thesis
    using strtoul_loop_dec [OF assms(1,2), of 0] foldl_of_nat [of 0 "d # ds"]
    by (simp add: strtoul_def dec_value_def)
qed

lemma strncat_loop_short:
  assumes "cstr m s t" and "length t < n" and "s + length t < d" and "length m = d + length t + 1"
  shows "strncat_loop m d s n = None"
  using assms
proof (induction t arbitrary: m s d n)
  case Nil
  then obtain k where n: "n = Suc k" by (cases n) auto
  have "wr (m[d := 0]) (Suc d) 0 = None" using Nil.prems(4) by (simp add: wr_def)
  then show ?case using Nil.prems n by simp
next
  case (Cons a t)
  then obtain k where n: "n = Suc k" by (cases n) auto
  have a: "rd m s = Some a" "a \<noteq> 0" "cstr m (Suc s) t" using Cons.prems by auto
  have "cstr (m[d := a]) (Suc s) t"
    by (rule cstr_local [OF a(3)]) (use Cons.prems in \<open>simp_all add: nth_list_update\<close>)
  then have "strncat_loop (m[d := a]) (Suc d) (Suc s) k = None"
    by (rule Cons.IH) (use Cons.prems n in simp_all)
  then show ?case using Cons.prems(4) n a by (simp add: wr_def)
qed

text \<open>
  when the whole source string fits in the limit, \<open>strncat\<close> writes a second zero
  byte behind the terminator it has copied: the call leaves the memory when the
  destination has room for the concatenated string but not for one byte more.
\<close>

lemma strncat_writes_past_terminator:
  assumes "cstr m s t" and "cstr m d u" and "length t < n" and "s + length t < d"
    and "length m = d + length u + length t + 1"
  shows "strncat m (Some d) (Some s) n = None"
  using assms strncat_loop_short [OF assms(1,3), of "d + length u"] by (simp add: strncat_def)

end
