(* ===== verification/Crc32.thy ===== *)
theory Crc32
  imports Boot_Prelude
begin

text \<open>
  The CRC-32 of \<^verbatim>\<open>src/boot/common/lib/crc32.c\<close>, the checksum of the GPT headers, image
  headers and flash records.  The routine works on whole words with a table; here it is
  related to the bit-serial definition that the key/value stores use directly.  The
  targets are little-endian, so \<open>cpu_to_le32\<close>, \<open>le32_to_cpu\<close> and \<open>tole\<close> are the identity.
\<close>

section \<open>The routine\<close>

text \<open>The exponents of the polynomial, and the exclusive-or pattern built from them.\<close>

definition crc_terms :: "nat list" where
  "crc_terms = [0, 1, 2, 4, 5, 7, 8, 10, 11, 12, 16, 22, 23, 26]"

definition crc_poly :: u32 where
  "crc_poly = foldl (\<lambda>poly t. poly OR push_bit (31 - t) 1) 0 crc_terms"

text \<open>One entry of \<open>make_crc_table\<close>: eight shift steps.\<close>

fun crc_entry :: "nat \<Rightarrow> u32 \<Rightarrow> u32" where
  "crc_entry 0 c = c"
| "crc_entry (Suc k) c =
     crc_entry k (if c AND 1 \<noteq> 0 then crc_poly XOR drop_bit 1 c else drop_bit 1 c)"

definition make_crc_table :: "u32 list" where
  "make_crc_table = map (\<lambda>n. crc_entry 8 (of_nat n)) [0..<256]"

text \<open>The table compiled into the program.\<close>

definition crc_table :: "u32 list" where
  "crc_table =
    [
     0x00000000, 0x77073096, 0xee0e612c, 0x990951ba, 0x076dc419, 0x706af48f,
     0xe963a535, 0x9e6495a3, 0x0edb8832, 0x79dcb8a4, 0xe0d5e91e, 0x97d2d988,
     0x09b64c2b, 0x7eb17cbd, 0xe7b82d07, 0x90bf1d91, 0x1db71064, 0x6ab020f2,
     0xf3b97148, 0x84be41de, 0x1adad47d, 0x6ddde4eb, 0xf4d4b551, 0x83d385c7,
     0x136c9856, 0x646ba8c0, 0xfd62f97a, 0x8a65c9ec, 0x14015c4f, 0x63066cd9,
     0xfa0f3d63, 0x8d080df5, 0x3b6e20c8, 0x4c69105e, 0xd56041e4, 0xa2677172,
     0x3c03e4d1, 0x4b04d447, 0xd20d85fd, 0xa50ab56b, 0x35b5a8fa, 0x42b2986c,
     0xdbbbc9d6, 0xacbcf940, 0x32d86ce3, 0x45df5c75, 0xdcd60dcf, 0xabd13d59,
     0x26d930ac, 0x51de003a, 0xc8d75180, 0xbfd06116, 0x21b4f4b5, 0x56b3c423,
     0xcfba9599, 0xb8bda50f, 0x2802b89e, 0x5f058808, 0xc60cd9b2, 0xb10be924,
     0x2f6f7c87, 0x58684c11, 0xc1611dab, 0xb6662d3d, 0x76dc4190, 0x01db7106,
     0x98d220bc, 0xefd5102a, 0x71b18589, 0x06b6b51f, 0x9fbfe4a5, 0xe8b8d433,
     0x7807c9a2, 0x0f00f934, 0x9609a88e, 0xe10e9818, 0x7f6a0dbb, 0x086d3d2d,
     0x91646c97, 0xe6635c01, 0x6b6b51f4, 0x1c6c6162, 0x856530d8, 0xf262004e,
     0x6c0695ed, 0x1b01a57b, 0x8208f4c1, 0xf50fc457, 0x65b0d9c6, 0x12b7e950,
     0x8bbeb8ea, 0xfcb9887c, 0x62dd1ddf, 0x15da2d49, 0x8cd37cf3, 0xfbd44c65,
     0x4db26158, 0x3ab551ce, 0xa3bc0074, 0xd4bb30e2, 0x4adfa541, 0x3dd895d7,
     0xa4d1c46d, 0xd3d6f4fb, 0x4369e96a, 0x346ed9fc, 0xad678846, 0xda60b8d0,
     0x44042d73, 0x33031de5, 0xaa0a4c5f, 0xdd0d7cc9, 0x5005713c, 0x270241aa,
     0xbe0b1010, 0xc90c2086, 0x5768b525, 0x206f85b3, 0xb966d409, 0xce61e49f,
     0x5edef90e, 0x29d9c998, 0xb0d09822, 0xc7d7a8b4, 0x59b33d17, 0x2eb40d81,
     0xb7bd5c3b, 0xc0ba6cad, 0xedb88320, 0x9abfb3b6, 0x03b6e20c, 0x74b1d29a,
     0xead54739, 0x9dd277af, 0x04db2615, 0x73dc1683, 0xe3630b12, 0x94643b84,
     0x0d6d6a3e, 0x7a6a5aa8, 0xe40ecf0b, 0x9309ff9d, 0x0a00ae27, 0x7d079eb1,
     0xf00f9344, 0x8708a3d2, 0x1e01f268, 0x6906c2fe, 0xf762575d, 0x806567cb,
     0x196c3671, 0x6e6b06e7, 0xfed41b76, 0x89d32be0, 0x10da7a5a, 0x67dd4acc,
     0xf9b9df6f, 0x8ebeeff9, 0x17b7be43, 0x60b08ed5, 0xd6d6a3e8, 0xa1d1937e,
     0x38d8c2c4, 0x4fdff252, 0xd1bb67f1, 0xa6bc5767, 0x3fb506dd, 0x48b2364b,
     0xd80d2bda, 0xaf0a1b4c, 0x36034af6, 0x41047a60, 0xdf60efc3, 0xa867df55,
     0x316e8eef, 0x4669be79, 0xcb61b38c, 0xbc66831a, 0x256fd2a0, 0x5268e236,
     0xcc0c7795, 0xbb0b4703, 0x220216b9, 0x5505262f, 0xc5ba3bbe, 0xb2bd0b28,
     0x2bb45a92, 0x5cb36a04, 0xc2d7ffa7, 0xb5d0cf31, 0x2cd99e8b, 0x5bdeae1d,
     0x9b64c2b0, 0xec63f226, 0x756aa39c, 0x026d930a, 0x9c0906a9, 0xeb0e363f,
     0x72076785, 0x05005713, 0x95bf4a82, 0xe2b87a14, 0x7bb12bae, 0x0cb61b38,
     0x92d28e9b, 0xe5d5be0d, 0x7cdcefb7, 0x0bdbdf21, 0x86d3d2d4, 0xf1d4e242,
     0x68ddb3f8, 0x1fda836e, 0x81be16cd, 0xf6b9265b, 0x6fb077e1, 0x18b74777,
     0x88085ae6, 0xff0f6a70, 0x66063bca, 0x11010b5c, 0x8f659eff, 0xf862ae69,
     0x616bffd3, 0x166ccf45, 0xa00ae278, 0xd70dd2ee, 0x4e048354, 0x3903b3c2,
     0xa7672661, 0xd06016f7, 0x4969474d, 0x3e6e77db, 0xaed16a4a, 0xd9d65adc,
     0x40df0b66, 0x37d83bf0, 0xa9bcae53, 0xdebb9ec5, 0x47b2cf7f, 0x30b5ffe9,
     0xbdbdf21c, 0xcabac28a, 0x53b39330, 0x24b4a3a6, 0xbad03605, 0xcdd70693,
     0x54de5729, 0x23d967bf, 0xb3667a2e, 0xc4614ab8, 0x5d681b02, 0x2a6f2b94,
     0xb40bbe37, 0xc30c8ea1, 0x5a05df1b, 0x2d02ef8d]"

text \<open>\<open>DO_CRC(x)\<close>: \<open>crc = tab[(crc ^ x) & 255] ^ (crc >> 8)\<close>.\<close>

definition DO_CRC :: "u32 \<Rightarrow> u32 \<Rightarrow> u32" where
  "DO_CRC crc x = crc_table ! unat ((crc XOR x) AND 255) XOR drop_bit 8 crc"

text \<open>
  The three loops of \<open>crc32_no_comp\<close>: bytes until the address is a multiple of four (or
  the data ends), then 32-bit words, then the remaining bytes.
\<close>

fun crc_align :: "nat \<Rightarrow> u32 \<Rightarrow> u8 list \<Rightarrow> u32 \<times> u8 list" where
  "crc_align addr crc [] = (crc, [])"
| "crc_align addr crc (b # bs) =
     (let crc' = DO_CRC crc (ucast b) in
      if bs \<noteq> [] \<and> (addr + 1) AND 3 \<noteq> 0 then crc_align (addr + 1) crc' bs else (crc', bs))"

fun crc_words :: "u32 \<Rightarrow> u8 list \<Rightarrow> u32 \<times> u8 list" where
  "crc_words crc (b0 # b1 # b2 # b3 # bs) =
     (let c = crc XOR of_le32 [b0, b1, b2, b3] in
      crc_words (DO_CRC (DO_CRC (DO_CRC (DO_CRC c 0) 0) 0) 0) bs)"
| "crc_words crc bs = (crc, bs)"

fun crc_bytes :: "u32 \<Rightarrow> u8 list \<Rightarrow> u32" where
  "crc_bytes crc [] = crc"
| "crc_bytes crc (b # bs) = crc_bytes (DO_CRC crc (ucast b)) bs"

definition crc32_no_comp :: "u32 \<Rightarrow> nat \<Rightarrow> u8 list \<Rightarrow> u32" where
  "crc32_no_comp crc addr buf =
     (let (crc1, buf1) = (if addr AND 3 \<noteq> 0 \<and> buf \<noteq> [] then crc_align addr crc buf else (crc, buf));
          (crc2, buf2) = crc_words crc1 buf1
      in crc_bytes crc2 buf2)"

definition crc32 :: "u32 \<Rightarrow> nat \<Rightarrow> u8 list \<Rightarrow> u32" where
  "crc32 crc addr p = crc32_no_comp (crc XOR 0xffffffff) addr p XOR 0xffffffff"

text \<open>
  \<open>crc32_wd\<close> in the configuration with a watchdog: the data is cut into chunks.  A chunk
  size of zero never advances, which is the value \<^term>\<open>None\<close>.
\<close>

function crc32_wd :: "u32 \<Rightarrow> nat \<Rightarrow> u8 list \<Rightarrow> nat \<Rightarrow> u32 option" where
  "crc32_wd crc addr buf chunk_sz =
     (if buf = [] then Some crc
      else if chunk_sz = 0 then None
      else let chunk = (if chunk_sz < length buf then chunk_sz else length buf) in
           crc32_wd (crc32 crc addr (take chunk buf)) (addr + chunk) (drop chunk buf) chunk_sz)"
  by pat_completeness auto
termination
  by (relation "measure (\<lambda>(crc, addr, buf, chunk_sz). length buf)") (auto simp: Let_def)

declare crc32_wd.simps [simp del]

section \<open>The bit-serial definition\<close>

text \<open>One bit of the shift register, as \<open>flash_ts_crc\<close> and \<open>ram_ts_crc\<close> compute it.\<close>

definition crc_bit :: "u32 \<Rightarrow> u32" where
  "crc_bit crc = drop_bit 1 crc XOR (if crc AND 1 \<noteq> 0 then 0xedb88320 else 0)"

text \<open>A whole byte: \<open>crc ^= *p++; for (i = 0; i < 8; i++) ...\<close>\<close>

definition crc_serial :: "u32 \<Rightarrow> u8 \<Rightarrow> u32" where
  "crc_serial crc b = (crc_bit ^^ 8) (crc XOR ucast b)"

lemma crc_bit_odd: "crc_bit c = (if odd c then drop_bit 1 c XOR 0xedb88320 else drop_bit 1 c)"
  by (simp add: crc_bit_def and_one_eq odd_iff_mod_2_eq_one)

lemma xor_left_commute: "(a :: 'a::len word) XOR (b XOR c) = b XOR (a XOR c)"
  by (simp add: xor.left_commute)

lemma crc_bit_xor: "crc_bit (a XOR b) = crc_bit a XOR crc_bit b"
  by (auto simp: crc_bit_odd even_xor_iff drop_bit_xor xor.assoc xor.commute xor_left_commute)

lemma crc_bits_xor: "(crc_bit ^^ n) (a XOR b) = (crc_bit ^^ n) a XOR (crc_bit ^^ n) b"
  by (induction n) (simp_all add: crc_bit_xor)

lemma crc_bit_push:
  assumes "\<And>k. bit h k \<Longrightarrow> k + Suc n < 32"
  shows "crc_bit (push_bit (Suc n) h) = push_bit n h"
proof -
  have "even (push_bit (Suc n) h)" by simp
  moreover have "drop_bit 1 (push_bit (Suc n) h) = push_bit n h"
  proof (rule bit_word_eqI)
    fix k assume k: "k < LENGTH(32)"
    have "bit (push_bit (Suc n) h) (Suc k) \<longleftrightarrow> Suc k < 32 \<and> n \<le> k \<and> bit h (k - n)"
      by (auto simp: bit_push_bit_iff simp del: push_bit_Suc)
    moreover have "n \<le> k \<and> bit h (k - n) \<Longrightarrow> Suc k < 32" using assms [of "k - n"] by auto
    ultimately show "bit (drop_bit 1 (push_bit (Suc n) h)) k = bit (push_bit n h) k"
      using k by (auto simp: bit_drop_bit_eq bit_push_bit_iff simp del: push_bit_Suc)
  qed
  ultimately show ?thesis by (simp add: crc_bit_odd)
qed

lemma crc_bits_push:
  "(\<And>k. bit h k \<Longrightarrow> k + n < 32) \<Longrightarrow> (crc_bit ^^ n) (push_bit n h) = h"
proof (induction n)
  case (Suc n)
  have "(crc_bit ^^ Suc n) (push_bit (Suc n) h) = (crc_bit ^^ n) (crc_bit (push_bit (Suc n) h))"
    by (simp only: funpow_Suc_right o_apply)
  also have "\<dots> = (crc_bit ^^ n) (push_bit n h)" using Suc.prems by (subst crc_bit_push) auto
  also have "\<dots> = h" using Suc.prems by (intro Suc.IH) fastforce
  finally show ?case .
qed simp

lemma split_low_byte: "c = (c AND 255) XOR push_bit 8 (drop_bit 8 (c :: u32))"
proof (rule bit_word_eqI)
  fix n assume n: "n < LENGTH(32)"
  have "(255 :: u32) = mask 8" by (simp add: mask_eq_exp_minus_1)
  then have "bit (255 :: u32) n \<longleftrightarrow> n < 8" by (simp only: bit_mask_iff) auto
  then show "bit c n = bit ((c AND 255) XOR push_bit 8 (drop_bit 8 c)) n"
    using n by (auto simp: bit_xor_iff bit_and_iff bit_push_bit_iff bit_drop_bit_eq)
qed

lemma crc_byte_split: "(crc_bit ^^ 8) c = (crc_bit ^^ 8) (c AND 255) XOR drop_bit 8 c"
proof -
  have "(crc_bit ^^ 8) (push_bit 8 (drop_bit 8 c)) = drop_bit 8 c"
    by (rule crc_bits_push) (auto simp: bit_simps dest: bit_imp_le_length)
  then show ?thesis
    by (subst split_low_byte [of c]) (simp only: crc_bits_xor)
qed

section \<open>The table\<close>

lemma crc_poly_value: "crc_poly = 0xedb88320"
  by code_simp

lemma crc_entry_bits: "crc_entry n c = (crc_bit ^^ n) c"
proof (induction n arbitrary: c)
  case (Suc n)
  have "(if c AND 1 \<noteq> 0 then crc_poly XOR drop_bit 1 c else drop_bit 1 c) = crc_bit c"
    by (simp add: crc_bit_def crc_poly_value xor.commute)
  then show ?case using Suc by (simp add: funpow_swap1)
qed simp

text \<open>The entry of an exclusive-or is the exclusive-or of the entries, so the table doubles.\<close>

lemma of_nat_add_xor: "n < 2 ^ k \<Longrightarrow> (of_nat (n + 2 ^ k) :: u32) = of_nat n XOR of_nat (2 ^ k)"
proof -
  assume n: "n < 2 ^ k"
  have "take_bit k n = n" using n by (simp add: take_bit_nat_eq_self)
  then have "n + 2 ^ k = n XOR 2 ^ k"
    using disjunctive_xor_eq_or [of n "2 ^ k"] disjunctive_add_eq_or [of n "2 ^ k"]
    by (metis and.commute and_exp_eq_0_iff_not_bit bit_take_bit_iff less_irrefl)
  then show ?thesis by (simp add: of_nat_xor_eq)
qed

lemma crc_table_double:
  assumes "map (\<lambda>n. crc_entry 8 (of_nat n)) [0..<2 ^ k] = xs"
  shows "map (\<lambda>n. crc_entry 8 (of_nat n)) [0..<2 ^ Suc k] = xs @ map (\<lambda>e. e XOR crc_entry 8 (of_nat (2 ^ k))) xs"
proof -
  have "[0..<2 ^ Suc k] = [0..<2 ^ k] @ map (\<lambda>n. n + 2 ^ k) [0..<2 ^ k]"
    by (simp add: map_add_upt mult_2 flip: upt_add_eq_append)
  then show ?thesis
    using assms by (auto simp: crc_entry_bits of_nat_add_xor crc_bits_xor simp del: of_nat_add of_nat_power)
qed

lemma crc_table_0: "map (\<lambda>n. crc_entry 8 (of_nat n)) [0..<2 ^ 0] = [0]"
  by (simp add: crc_entry_bits numeral_eq_Suc crc_bit_def)

lemma crc_entry_8: "crc_entry 8 c = crc_bit (crc_bit (crc_bit (crc_bit (crc_bit (crc_bit (crc_bit (crc_bit c)))))))"
  by (simp add: crc_entry_bits numeral_eq_Suc)

lemma crc_table_make: "crc_table = make_crc_table"
  unfolding make_crc_table_def crc_table_def
  using crc_table_double [OF crc_table_double [OF crc_table_double [OF crc_table_double
    [OF crc_table_double [OF crc_table_double [OF crc_table_double [OF crc_table_double
    [OF crc_table_0]]]]]]]]
  by (simp add: crc_entry_8 crc_bit_def)

section \<open>The table-driven routine is the bit-serial one\<close>

lemma crc_table_nth: "n < 256 \<Longrightarrow> crc_table ! n = (crc_bit ^^ 8) (of_nat n)"
  by (simp add: crc_table_make make_crc_table_def crc_entry_bits)

lemma and_255_bound: "unat (c AND 255 :: u32) < 256"
proof -
  have "c AND 255 \<le> (255 :: u32)" by (rule word_and_le1)
  then have "unat (c AND 255) \<le> unat (255 :: u32)" by (simp only: word_le_nat_alt)
  then show ?thesis by simp
qed

lemma DO_CRC_bits:
  assumes "drop_bit 8 x = 0"
  shows "DO_CRC crc x = (crc_bit ^^ 8) (crc XOR x)"
proof -
  have "drop_bit 8 crc = drop_bit 8 (crc XOR x)" using assms by (simp add: drop_bit_xor)
  then show ?thesis
    unfolding DO_CRC_def crc_byte_split [of "crc XOR x"]
    by (simp add: crc_table_nth and_255_bound)
qed

lemma drop_bit_ucast_u8: "drop_bit 8 (ucast (b :: u8) :: u32) = 0"
  by (rule bit_word_eqI) (auto simp: bit_simps dest: bit_imp_le_length)

lemma DO_CRC_byte: "DO_CRC crc (ucast b) = crc_serial crc b"
  by (simp add: DO_CRC_bits drop_bit_ucast_u8 crc_serial_def)

lemma of_le32_xor:
  "of_le32 [b0, b1, b2, b3] = ucast b0 XOR (push_bit 8 (ucast b1) XOR
     (push_bit 16 (ucast b2) XOR push_bit 24 (ucast b3)))"
proof (rule bit_word_eqI)
  fix n assume "n < LENGTH(32)"
  then have "n < 8 \<or> (8 \<le> n \<and> n < 16) \<or> (16 \<le> n \<and> n < 24) \<or> (24 \<le> n \<and> n < 32)"
    by auto
  moreover have "\<not> bit (b :: u8) k" if "8 \<le> k" for b k
    using that by (auto dest: bit_imp_le_length)
  ultimately show "bit (of_le32 [b0, b1, b2, b3]) n = bit (ucast b0 XOR (push_bit 8 (ucast b1) XOR
     (push_bit 16 (ucast b2) XOR push_bit 24 (ucast b3))) :: u32) n"
    by (elim disjE conjE) (simp_all add: of_le32_def bit_simps le_diff_conv2)
qed

lemma crc_bits_push_byte:
  "n \<le> 24 \<Longrightarrow> (crc_bit ^^ n) (push_bit n (ucast (b :: u8))) = ucast b"
  by (rule crc_bits_push) (auto simp: bit_simps dest: bit_imp_le_length)

lemma crc_bits_bits: "(crc_bit ^^ m) ((crc_bit ^^ n) y) = (crc_bit ^^ (m + n)) y"
  by (simp add: funpow_add)

text \<open>Four serial steps are 32 shifts of the register with the whole word folded in.\<close>

lemma crc_serial_word:
  "crc_serial (crc_serial (crc_serial (crc_serial crc b0) b1) b2) b3 =
     (crc_bit ^^ 32) (crc XOR of_le32 [b0, b1, b2, b3])"
proof -
  have split: "(crc_bit ^^ 32) y = (crc_bit ^^ 8) ((crc_bit ^^ 24) y)"
    "(crc_bit ^^ 24) y = (crc_bit ^^ 8) ((crc_bit ^^ 16) y)"
    "(crc_bit ^^ 16) y = (crc_bit ^^ 8) ((crc_bit ^^ 8) y)" for y
    by (simp_all add: crc_bits_bits)
  let ?c = "crc_bit ^^ 8"
  have "(crc_bit ^^ 24) (push_bit 24 (ucast b3)) = (ucast b3 :: u32)"
    "(crc_bit ^^ 16) (push_bit 16 (ucast b2)) = (ucast b2 :: u32)"
    "?c (push_bit 8 (ucast b1)) = (ucast b1 :: u32)"
    by (simp_all add: crc_bits_push_byte)
  then have byte: "?c (?c (?c (push_bit 24 (ucast b3)))) = (ucast b3 :: u32)"
    "?c (?c (push_bit 16 (ucast b2))) = (ucast b2 :: u32)"
    "?c (push_bit 8 (ucast b1)) = (ucast b1 :: u32)"
    by (simp_all only: split)
  show ?thesis
    unfolding crc_serial_def of_le32_xor split crc_bits_xor byte
    by (simp only: xor.assoc)
qed

lemma crc_words_serial:
  "case crc_words crc bs of (c, r) \<Rightarrow> foldl crc_serial c r = foldl crc_serial crc bs"
proof (induction crc bs rule: crc_words.induct)
  case (1 crc b0 b1 b2 b3 bs)
  have "DO_CRC (DO_CRC (DO_CRC (DO_CRC c 0) 0) 0) 0 = (crc_bit ^^ 32) c" for c
    by (simp add: DO_CRC_bits crc_bits_bits)
  then show ?case using 1 by (simp add: crc_serial_word)
qed simp_all

lemma crc_align_serial:
  "case crc_align addr crc bs of (c, r) \<Rightarrow> foldl crc_serial c r = foldl crc_serial crc bs"
  by (induction addr crc bs rule: crc_align.induct) (simp_all add: Let_def DO_CRC_byte)

lemma crc_bytes_serial: "crc_bytes crc bs = foldl crc_serial crc bs"
  by (induction crc bs rule: crc_bytes.induct) (simp_all add: DO_CRC_byte)

lemma crc32_no_comp_serial: "crc32_no_comp crc addr buf = foldl crc_serial crc buf"
proof -
  have "foldl crc_serial (fst w) (snd w) = foldl crc_serial c b" if "w = crc_words c b" for w :: "u32 \<times> u8 list" and c b
    using crc_words_serial [where crc = c and bs = b] that by (simp add: case_prod_beta)
  moreover have "foldl crc_serial (fst a) (snd a) = foldl crc_serial crc buf"
    if "a = crc_align addr crc buf" for a :: "u32 \<times> u8 list"
    using crc_align_serial [where addr = addr and crc = crc and bs = buf] that by (simp add: case_prod_beta)
  ultimately show ?thesis
    by (simp add: crc32_no_comp_def crc_bytes_serial case_prod_beta Let_def)
qed

section \<open>What the checksum detects\<close>

lemma xor_cancel_right: "(a :: 'a::len word) XOR c = b XOR c \<Longrightarrow> a = b"
proof (rule bit_word_eqI)
  fix n assume "a XOR c = b XOR c"
  then have "bit (a XOR c) n = bit (b XOR c) n" by simp
  then show "bit a n = bit b n" by (auto simp: bit_xor_iff)
qed

lemma word_xor_eq_0: "(a :: 'a::len word) XOR b = 0 \<Longrightarrow> a = b"
  using xor_cancel_right [of a b b] by simp

lemma crc_bit_inj_0: "crc_bit c = 0 \<Longrightarrow> c = 0"
proof -
  assume c: "crc_bit c = 0"
  have "bit (0xedb88320 :: u32) 31" by simp
  moreover have "\<not> bit (drop_bit 1 c) 31" using bit_imp_le_length [of c 32] by (auto simp: bit_drop_bit_eq)
  moreover have "\<not> bit (crc_bit c) 31" using c by simp
  ultimately have "even c" by (cases "even c") (simp_all add: crc_bit_odd bit_xor_iff)
  then have "drop_bit 1 c = 0" using c by (simp add: crc_bit_odd)
  then have "bit (drop_bit 1 c) n = False" for n by simp
  then have "\<not> bit c (Suc n)" for n by (simp add: bit_drop_bit_eq)
  moreover have "\<not> bit c 0" using \<open>even c\<close> by (simp add: bit_0)
  ultimately have "\<not> bit c n" for n by (cases n) simp_all
  then show "c = 0" by (intro bit_word_eqI) simp
qed

lemma crc_bits_inj: "(crc_bit ^^ n) a = (crc_bit ^^ n) b \<Longrightarrow> a = b"
proof (induction n arbitrary: a b)
  case (Suc n)
  then have "crc_bit ((crc_bit ^^ n) a XOR (crc_bit ^^ n) b) = 0" by (simp add: crc_bit_xor)
  then have "(crc_bit ^^ n) a XOR (crc_bit ^^ n) b = 0" by (rule crc_bit_inj_0)
  then have "(crc_bit ^^ n) a = (crc_bit ^^ n) b" by (rule word_xor_eq_0)
  then show ?case by (rule Suc.IH)
qed simp

lemma crc_serial_inj: "foldl crc_serial c xs = foldl crc_serial d xs \<Longrightarrow> c = d"
proof (induction xs arbitrary: c d)
  case (Cons x xs)
  have "crc_serial c x = crc_serial d x" by (rule Cons.IH [OF Cons.prems [unfolded foldl_Cons]])
  then have "c XOR ucast x = d XOR ucast x" unfolding crc_serial_def by (rule crc_bits_inj)
  then show ?case by (rule xor_cancel_right)
qed simp

lemma of_le32_inj:
  assumes "of_le32 [a0, a1, a2, a3] = of_le32 [b0, b1, b2, b3]"
  shows "[a0, a1, a2, a3] = [b0, b1, b2, b3]"
proof -
  have hi: "\<not> bit (b :: u8) k" if "8 \<le> k" for b k
    using that by (auto dest: bit_imp_le_length)
  have byte: "ucast (of_le32 [c0, c1, c2, c3]) = c0" "ucast (drop_bit 8 (of_le32 [c0, c1, c2, c3])) = c1"
    "ucast (drop_bit 16 (of_le32 [c0, c1, c2, c3])) = c2" "ucast (drop_bit 24 (of_le32 [c0, c1, c2, c3])) = c3"
    for c0 c1 c2 c3 :: u8
    by (rule bit_word_eqI, simp add: of_le32_def bit_simps hi)+
  show ?thesis using byte [of a0 a1 a2 a3] byte [of b0 b1 b2 b3] assms by simp
qed

lemma crc_burst_4:
  assumes "foldl crc_serial c as = foldl crc_serial c bs" and "length as = 4" and "length bs = 4"
  shows "as = bs"
proof -
  obtain a0 a1 a2 a3 where as: "as = [a0, a1, a2, a3]"
    using assms(2) by (auto simp: numeral_eq_Suc length_Suc_conv)
  obtain b0 b1 b2 b3 where bs: "bs = [b0, b1, b2, b3]"
    using assms(3) by (auto simp: numeral_eq_Suc length_Suc_conv)
  have "(crc_bit ^^ 32) (c XOR of_le32 as) = (crc_bit ^^ 32) (c XOR of_le32 bs)"
    using assms(1) by (simp add: as bs crc_serial_word)
  then have "of_le32 as XOR c = of_le32 bs XOR c" using crc_bits_inj by (simp add: xor.commute)
  then have "of_le32 as = of_le32 bs" by (rule xor_cancel_right)
  then show ?thesis unfolding as bs by (rule of_le32_inj)
qed

lemma crc_burst:
  assumes "foldl crc_serial c as = foldl crc_serial c bs" and "length as = length bs"
    and "length as \<le> 4"
  shows "as = bs"
proof -
  let ?z = "replicate (4 - length as) 0"
  have "foldl crc_serial c (as @ ?z) = foldl crc_serial c (bs @ ?z)" using assms by simp
  then have "as @ ?z = bs @ ?z" by (rule crc_burst_4) (use assms in auto)
  then show ?thesis by simp
qed

text \<open>
  C35: for every data, alignment and starting value the word-at-a-time routine computes the
  bit-serial CRC-32, with the initial and final complement.
\<close>

theorem crc32_bit_serial:
  "crc32 crc addr buf = foldl crc_serial (crc XOR 0xffffffff) buf XOR 0xffffffff"
  by (simp add: crc32_def crc32_no_comp_serial)

lemma crc32_append: "crc32 (crc32 crc addr xs) addr' ys = crc32 crc addr (xs @ ys)"
  by (simp add: crc32_def crc32_no_comp_serial xor.assoc)

text \<open>
  with a watchdog the checksum is computed in chunks, and for every positive chunk size
  the loop ends with the checksum of the whole data.
\<close>

lemma crc32_wd_correct: "0 < chunk_sz \<Longrightarrow> crc32_wd crc addr buf chunk_sz = Some (crc32 crc addr buf)"
proof (induction crc addr buf chunk_sz rule: crc32_wd.induct)
  case (1 crc addr buf chunk_sz)
  show ?case
  proof (cases "buf = []")
    case True
    then show ?thesis
      by (subst crc32_wd.simps) (simp add: crc32_def crc32_no_comp_serial xor.assoc)
  next
    case False
    let ?n = "if chunk_sz < length buf then chunk_sz else length buf"
    have "crc32_wd crc addr buf chunk_sz =
        crc32_wd (crc32 crc addr (take ?n buf)) (addr + ?n) (drop ?n buf) chunk_sz"
      using False 1(2) by (subst crc32_wd.simps) (simp add: Let_def)
    also have "\<dots> = Some (crc32 (crc32 crc addr (take ?n buf)) (addr + ?n) (drop ?n buf))"
      using 1(1) [OF False _ refl 1(2)] 1(2) by simp
    finally show ?thesis by (simp only: crc32_append append_take_drop_id)
  qed
qed

text \<open>
  C36: damage confined to four consecutive bytes always changes the checksum, wherever it is
  in the data and however the two copies are aligned.
\<close>

theorem crc32_detects_burst:
  assumes "length as = length bs" and "length as \<le> 4" and "as \<noteq> bs"
  shows "crc32 crc addr (xs @ as @ ys) \<noteq> crc32 crc addr' (xs @ bs @ ys)"
proof
  let ?c = "foldl crc_serial (crc XOR 0xffffffff) xs"
  assume "crc32 crc addr (xs @ as @ ys) = crc32 crc addr' (xs @ bs @ ys)"
  then have "foldl crc_serial (foldl crc_serial ?c as) ys = foldl crc_serial (foldl crc_serial ?c bs) ys"
    by (auto simp: crc32_def crc32_no_comp_serial dest: xor_cancel_right)
  then show False using crc_serial_inj crc_burst assms by blast
qed

theorem crc32_detects_burst_witness:
  "crc32 0 0 ([7] @ [1, 2, 3, 4] @ [9]) \<noteq> crc32 0 3 ([7] @ [1, 2, 3, 5] @ [9])"
  by (rule crc32_detects_burst) simp_all

end
