(* ===== verification/Ctype.thy ===== *)
theory Ctype
  imports C_String
begin

text \<open>
  The character classes and the number parser of \<^verbatim>\<open>src/boot/common/lib/ctype.c\<close>.  The
  parser \<open>str2ul\<close> is the one the key/value stores use for integer settings.  The
  predicates return 0 or 1 in the source and are boolean here.  Names that the string
  library already uses carry the suffix \<open>_ct\<close>.
\<close>

section \<open>Character classes\<close>

definition isdigit_ct :: "u8 \<Rightarrow> bool" where
  "isdigit_ct c \<longleftrightarrow> 48 \<le> c \<and> c \<le> 57"

definition islower :: "u8 \<Rightarrow> bool" where
  "islower c \<longleftrightarrow> 97 \<le> c \<and> c \<le> 122"

definition isupper :: "u8 \<Rightarrow> bool" where
  "isupper c \<longleftrightarrow> 65 \<le> c \<and> c \<le> 90"

definition isalpha :: "u8 \<Rightarrow> bool" where
  "isalpha c \<longleftrightarrow> isupper c \<or> islower c"

definition isalnum :: "u8 \<Rightarrow> bool" where
  "isalnum c \<longleftrightarrow> isalpha c \<or> isdigit_ct c"

definition iscntrl :: "u8 \<Rightarrow> bool" where
  "iscntrl c \<longleftrightarrow> c \<le> 0x1f"

definition isgraph :: "u8 \<Rightarrow> bool" where
  "isgraph c \<longleftrightarrow> 0x21 \<le> c \<and> c \<le> 0x7e"

definition isprint :: "u8 \<Rightarrow> bool" where
  "isprint c \<longleftrightarrow> 0x20 \<le> c \<and> c \<le> 0x7e"

definition ispunct :: "u8 \<Rightarrow> bool" where
  "ispunct c \<longleftrightarrow> isgraph c \<and> \<not> isalnum c"

text \<open>The condition of \<open>isspace\<close> is written with an assignment, \<open>(c = ' ') || ...\<close>.\<close>

definition isspace :: "u8 \<Rightarrow> bool" where
  "isspace c \<longleftrightarrow> (let c = 32 in c \<noteq> 0 \<or> (9 \<le> c \<and> c \<le> (13 :: u8)))"

definition toupper :: "u8 \<Rightarrow> u8" where
  "toupper c = (if islower c then c - (97 - 65) else c)"

definition tolower :: "u8 \<Rightarrow> u8" where
  "tolower c = (if isupper c then c - (65 - 97) else c)"

definition isxdigit_ct :: "u8 \<Rightarrow> bool" where
  "isxdigit_ct c \<longleftrightarrow> isdigit_ct c \<or> (97 \<le> c \<and> c \<le> 102) \<or> (65 \<le> c \<and> c \<le> 70)"

definition isascii :: "u8 \<Rightarrow> bool" where
  "isascii c \<longleftrightarrow> c \<le> 0x7f"

definition toascii :: "u8 \<Rightarrow> u8" where
  "toascii c = c AND 0x7f"

section \<open>Parsing numbers\<close>

text \<open>The value expression of the loop condition.\<close>

definition xdigit_value :: "u8 \<Rightarrow> u64" where
  "xdigit_value c =
     (if isdigit_ct c then ucast c - 48
      else ucast (if islower c then toupper c else c) - 65 + 10)"

function str2ul_loop :: "mem \<Rightarrow> nat \<Rightarrow> u32 \<Rightarrow> u64 \<Rightarrow> (u64 \<times> nat) option" where
  "str2ul_loop m p base ret =
     (case rd m p of None \<Rightarrow> None
      | Some c \<Rightarrow>
        if isxdigit_ct c \<and> xdigit_value c < ucast base
        then str2ul_loop m (Suc p) base (ret * ucast base + xdigit_value c)
        else Some (ret, p))"
  by pat_completeness auto
termination
  by (relation "measure (\<lambda>(m, p, base, ret). length m - p)") (auto simp: acc_simps)

declare str2ul_loop.simps [simp del]

text \<open>The result is the number and the final position, which \<open>*endp\<close> receives.\<close>

definition str2ul :: "mem \<Rightarrow> nat \<Rightarrow> u32 \<Rightarrow> (u64 \<times> nat) option" where
  "str2ul m startp base =
     do { c \<leftarrow> rd m startp;
          (p, base1) \<leftarrow>
            (if c = 48
             then do { c1 \<leftarrow> rd m (startp + 1);
                       x \<leftarrow> (if c1 = 120 then map_option isxdigit_ct (rd m (startp + 2)) else Some False);
                       let (p, b) = (if x then (startp + 2, 16) else (startp + 1, base));
                       Some (p, if b = 0 then 8 else b) }
             else Some (startp, base));
          str2ul_loop m p (if base1 = 0 then 10 else base1) 0 }"

section \<open>What the classes mean\<close>

lemmas ctype_defs = isdigit_ct_def islower_def isupper_def isalpha_def isalnum_def iscntrl_def
  isgraph_def isprint_def ispunct_def isspace_def toupper_def tolower_def isxdigit_ct_def
  isascii_def toascii_def

lemma isspace_always: "isspace c"
  by (simp add: isspace_def)

lemma toupper_upper: "isalpha c \<Longrightarrow> isupper (toupper c) \<and> tolower (toupper c) = tolower c"
proof -
  assume "isalpha c"
  moreover have "97 \<le> c \<Longrightarrow> c \<le> 122 \<Longrightarrow> unat (c - 32) = unat c - 32"
    by (subst unat_sub) (auto simp: word_le_nat_alt)
  ultimately show ?thesis by (auto simp: ctype_defs word_le_nat_alt)
qed

text \<open>
  every printing character is exactly one of a space, a letter, a digit or a
  punctuation character, and every control character is none of them.
\<close>

lemma ctype_partition:
  "(isprint c \<longleftrightarrow> c = 32 \<or> isalpha c \<or> isdigit_ct c \<or> ispunct c) \<and>
   \<not> (isalpha c \<and> isdigit_ct c) \<and> \<not> (isalpha c \<and> ispunct c) \<and> \<not> (isdigit_ct c \<and> ispunct c) \<and>
   \<not> (iscntrl c \<and> isprint c)"
proof -
  have "c = 32 \<longleftrightarrow> unat c = 32" by (simp add: unat_eq_iff)
  then show ?thesis by (auto simp: ctype_defs word_le_nat_alt)
qed

text \<open>
  \<open>isspace\<close> accepts every byte, letters and the terminating zero included, because its
  condition assigns the parameter instead of comparing it.
\<close>

lemma isspace_accepts_everything: "isspace c \<and> isspace 0 \<and> isspace 65"
  by (simp add: isspace_always)

section \<open>The parser computes the number\<close>

definition xchar :: "nat \<Rightarrow> u8" where
  "xchar d = (if d < 10 then 48 + of_nat d else 87 + of_nat d)"

definition digits_value :: "nat \<Rightarrow> nat list \<Rightarrow> nat" where
  "digits_value b ds = foldl (\<lambda>a d. a * b + d) 0 ds"

lemma less_16_cases:
  assumes "d < (16 :: nat)"
  shows "d = 0 \<or> d = 1 \<or> d = 2 \<or> d = 3 \<or> d = 4 \<or> d = 5 \<or> d = 6 \<or> d = 7 \<or> d = 8 \<or> d = 9 \<or>
    d = 10 \<or> d = 11 \<or> d = 12 \<or> d = 13 \<or> d = 14 \<or> d = 15"
  using assms by arith

lemma xchar_digit:
  assumes "d < 16"
  shows "isxdigit_ct (xchar d)" and "xdigit_value (xchar d) = of_nat d"
    and "d \<noteq> 0 \<Longrightarrow> xchar d \<noteq> 48" and "xchar d \<noteq> 120"
  using less_16_cases [OF assms]
  by (elim disjE; simp add: xchar_def xdigit_value_def ctype_defs)+

lemma xchar_nonzero: "d < 16 \<Longrightarrow> xchar d \<noteq> 0"
  by (drule less_16_cases) (elim disjE; simp add: xchar_def)

lemma xdigit_value_0: "\<not> isxdigit_ct 0"
  by (simp add: ctype_defs)

lemma str2ul_loop_digits:
  assumes "cstr m p (map xchar ds)" and "\<forall>d \<in> set ds. d < b" and "b \<le> 16"
  shows "str2ul_loop m p (of_nat b) (of_nat n) =
    Some (of_nat (foldl (\<lambda>a d. a * b + d) n ds), p + length ds)"
  using assms(1,2)
proof (induction ds arbitrary: p n)
  case Nil
  then show ?case by (subst str2ul_loop.simps) (simp add: xdigit_value_0)
next
  case (Cons d ds)
  have b: "ucast (of_nat b :: u32) = (of_nat b :: u64)"
    using assms(3) by (simp add: word_unat_eq_iff unsigned_of_nat take_bit_nat_eq_self unsigned_ucast_eq)
  have d: "d < b" "d < 16" using Cons.prems assms(3) by auto
  have "(of_nat d :: u64) < of_nat b"
    using d assms(3) by (simp add: word_less_nat_alt unsigned_of_nat take_bit_nat_eq_self)
  moreover have "rd m p = Some (xchar d)" using Cons.prems by simp
  ultimately have "str2ul_loop m p (of_nat b) (of_nat n) =
      str2ul_loop m (Suc p) (of_nat b) (of_nat (n * b + d))"
    using xchar_digit [OF d(2)] b by (subst str2ul_loop.simps) simp
  then show ?case using Cons.IH [of "Suc p" "n * b + d"] Cons.prems by simp
qed

text \<open>
  a hexadecimal number, \<open>0x\<close> and at least one digit, is read to its value (modulo the
  width of \<open>unsigned long\<close>), whatever base the caller asks for, and the end position is the
  first character after the digits.
\<close>

lemma str2ul_hex:
  assumes "cstr m p (48 # 120 # map xchar ds)" and "ds \<noteq> []" and "\<forall>d \<in> set ds. d < 16"
  shows "str2ul m p base = Some (of_nat (digits_value 16 ds), p + 2 + length ds)"
proof -
  have "rd m p = Some 48" "rd m (p + 1) = Some 120" "cstr m (p + 2) (map xchar ds)"
    using assms(1) by (simp_all add: numeral_2_eq_2)
  moreover have "rd m (p + 2) = Some (xchar (hd ds))"
    using assms(2) \<open>cstr m (p + 2) (map xchar ds)\<close> by (cases ds) auto
  moreover have "isxdigit_ct (xchar (hd ds))" using assms(2,3) by (intro xchar_digit) auto
  moreover have "str2ul_loop m (p + 2) 16 0 = Some (of_nat (digits_value 16 ds), p + 2 + length ds)"
    using str2ul_loop_digits [of m "p + 2" ds 16 0] assms(3) calculation(3) by (simp add: digits_value_def)
  ultimately show ?thesis by (simp add: str2ul_def)
qed

lemma str2ul_dec:
  assumes "cstr m p (map xchar (d # ds))" and "\<forall>x \<in> set (d # ds). x < 10" and "d \<noteq> 0"
  shows "str2ul m p 0 = Some (of_nat (digits_value 10 (d # ds)), p + length (d # ds))"
proof -
  have "rd m p = Some (xchar d)" "xchar d \<noteq> 48" using assms xchar_digit(3) [of d] by auto
  then show ?thesis
    using str2ul_loop_digits [of m p "d # ds" 10 0] assms by (simp add: str2ul_def digits_value_def)
qed

end
