(* ===== verification/Ts_Store.thy ===== *)
theory Ts_Store
  imports C_String Crc32
begin

text \<open>
  The record format and the in-memory operations shared by the two transactional
  key/value stores, \<^verbatim>\<open>src/boot/common/driver/ram_ts/ram_ts.c\<close> and
  \<^verbatim>\<open>src/boot/common/driver/flash_ts/flash_ts.c\<close>: both hold a C structure with a header and
  a byte array of the form \<open>key1=value1\0key2=value2\0\0\<close>, and both search, measure and
  edit that array with the same statements.

  The record is related to a list of entries (\<open>ts_repr\<close>), and the edits are shown to
  implement replacement, removal and insertion in that list.  \<open>size_t\<close> is 64 bits wide, as
  in the boot loader builds.
\<close>

section \<open>The record\<close>

record ts_record =
  ts_magic :: u32
  ts_crc :: u32
  ts_len :: u32
  ts_version :: u32
  ts_data :: mem

text \<open>
  The structure has no padding, so the bytes that follow the \<open>crc\<close> field are the images
  of \<open>len\<close> and \<open>version\<close> and then the data.
\<close>

definition ts_body :: "ts_record \<Rightarrow> mem" where
  "ts_body t = le32 (ts_len t) @ le32 (ts_version t) @ ts_data t"

text \<open>
  \<open>ram_ts_crc\<close> (and \<open>flash_ts_crc\<close>): \<open>len + 8\<close> bytes from the \<open>len\<close> field on.  A length
  field that exceeds the array makes the loop read past the structure.
\<close>

definition ram_ts_crc :: "ts_record \<Rightarrow> u32 option" where
  "ram_ts_crc t =
     do { p \<leftarrow> slice (ts_body t) 0 (unat (ts_len t) + 2 * 4);
          Some (foldl crc_serial 0 p XOR 0xffffffff) }"

text \<open>
  \<open>ram_ts_key_search\<close>: walk over the entries until the empty one, and return the address
  of the first entry that starts with the key and an equals sign.
\<close>

function key_search_loop :: "mem \<Rightarrow> nat \<Rightarrow> mem \<Rightarrow> nat \<Rightarrow> ptr option" where
  "key_search_loop d p key len =
     (case rd d p of None \<Rightarrow> None
      | Some c \<Rightarrow>
        if c = 0 then Some None
        else (case strncmp d p key 0 len of None \<Rightarrow> None
              | Some r \<Rightarrow>
                (case (if r = 0 then map_option (\<lambda>e. e = 61) (rd d (p + len)) else Some False) of
                   None \<Rightarrow> None
                 | Some True \<Rightarrow> Some (Some p)
                 | Some False \<Rightarrow>
                     (case strlen d (Some p) of None \<Rightarrow> None
                      | Some n \<Rightarrow> key_search_loop d (p + (n + 1)) key len))))"
  by pat_completeness auto
termination
  by (relation "measure (\<lambda>(d, p, key, len). length d - p)") (auto simp: acc_simps)

declare key_search_loop.simps [simp del]

definition ram_ts_key_search :: "mem \<Rightarrow> ptr \<Rightarrow> mem \<Rightarrow> nat \<Rightarrow> ptr option" where
  "ram_ts_key_search d ts_dat key len =
     (case ts_dat of None \<Rightarrow> Some None | Some p \<Rightarrow> key_search_loop d p key len)"

text \<open>
  The outcome of the editing part of \<open>ram_ts_set\<close> and \<open>flash_ts_set\<close>: \<open>goto no_space\<close>,
  \<open>goto out\<close> with the record untouched, or falling through with an edited record.
\<close>

datatype edit = No_space | Unchanged | Edited ts_record

text \<open>The value is stored over the old one: \<open>memcpy(p, value, vlen); p[vlen] = 0\<close>.\<close>

definition store_value :: "mem \<Rightarrow> nat \<Rightarrow> mem \<Rightarrow> nat \<Rightarrow> mem option" where
  "store_value d p val vlen =
     (if vlen \<noteq> 0
      then do { v \<leftarrow> slice val 0 vlen; d' \<leftarrow> blit d p v; wr d' (p + vlen) 0 }
      else Some d)"

text \<open>The branch of an existing entry at \<open>p\<close>.\<close>

definition replace_entry :: "ts_record \<Rightarrow> nat \<Rightarrow> nat \<Rightarrow> mem \<Rightarrow> nat \<Rightarrow> edit option" where
  "replace_entry t p klen val vlen =
     do { n \<leftarrow> strlen (ts_data t) (Some p);
          let cur_len = n + 1;
          let new_len = (if vlen \<noteq> 0 then klen + 1 + vlen + 1 else 0);
          let total = (ucast (ts_len t) - of_nat cur_len + of_nat new_len :: u64);
          if cur_len \<noteq> new_len
          then if of_nat (length (ts_data t)) < total then Some No_space
               else do { (d, _) \<leftarrow> memmove (ts_data t) (Some (p + new_len)) (Some (p + cur_len))
                           (unat (ucast (ts_len t) - of_nat (p + cur_len) :: u64));
                         d' \<leftarrow> store_value d (p + klen + 1) val vlen;
                         Some (Edited (t\<lparr>ts_len := ucast total, ts_data := d'\<rparr>)) }
          else do { r \<leftarrow> strcmp (ts_data t) (p + klen + 1) val 0;
                    if r = 0 then Some Unchanged
                    else do { d' \<leftarrow> store_value (ts_data t) (p + klen + 1) val vlen;
                              Some (Edited (t\<lparr>ts_data := d'\<rparr>)) } } }"

text \<open>The branch of a new entry, stored over the final zero byte.\<close>

definition append_entry :: "ts_record \<Rightarrow> mem \<Rightarrow> nat \<Rightarrow> mem \<Rightarrow> nat \<Rightarrow> edit option" where
  "append_entry t key klen val vlen =
     (let len = klen + 1 + vlen + 1 in
      if vlen = 0 then Some Unchanged
      else if of_nat (length (ts_data t)) < (ucast (ts_len t) + of_nat len :: u64) then Some No_space
      else if ts_len t = 0 then None
      else do { let p = unat (ts_len t) - 1;
                k \<leftarrow> slice key 0 klen; d1 \<leftarrow> blit (ts_data t) p k;
                d2 \<leftarrow> wr d1 (p + klen) 61;
                v \<leftarrow> slice val 0 vlen; d3 \<leftarrow> blit d2 (p + klen + 1) v;
                d4 \<leftarrow> wr d3 (p + klen + 1 + vlen) 0;
                d5 \<leftarrow> wr d4 (p + klen + 1 + vlen + 1) 0;
                Some (Edited (t\<lparr>ts_len := ts_len t + of_nat len, ts_data := d5\<rparr>)) })"

definition edit_entry :: "ts_record \<Rightarrow> mem \<Rightarrow> nat \<Rightarrow> mem \<Rightarrow> nat \<Rightarrow> edit option" where
  "edit_entry t key klen val vlen =
     do { p \<leftarrow> ram_ts_key_search (ts_data t) (Some 0) key klen;
          case p of Some p \<Rightarrow> replace_entry t p klen val vlen
                  | None \<Rightarrow> append_entry t key klen val vlen }"

section \<open>The abstract store\<close>

text \<open>Entries are the non-empty strings of the data; an entry belongs to a key when it starts with the key and \<open>=\<close>.\<close>

definition flat :: "u8 list list \<Rightarrow> mem" where
  "flat es = concat (map (\<lambda>e. e @ [0]) es)"

definition is_entry :: "u8 list \<Rightarrow> u8 list \<Rightarrow> bool" where
  "is_entry k e \<longleftrightarrow> take (length k + 1) e = k @ [61]"

fun es_set :: "u8 list \<Rightarrow> u8 list \<Rightarrow> u8 list list \<Rightarrow> u8 list list" where
  "es_set k v [] = (if v = [] then [] else [k @ 61 # v])"
| "es_set k v (e # es) =
     (if is_entry k e then (if v = [] then es else (k @ 61 # v) # es) else e # es_set k v es)"

definition es_get :: "u8 list \<Rightarrow> u8 list list \<Rightarrow> u8 list option" where
  "es_get k es = map_option (drop (length k + 1)) (find (is_entry k) es)"

definition entries_ok :: "u8 list list \<Rightarrow> bool" where
  "entries_ok es \<longleftrightarrow> (\<forall>e \<in> set es. e \<noteq> [] \<and> 0 \<notin> set e)"

definition ts_repr :: "ts_record \<Rightarrow> u8 list list \<Rightarrow> bool" where
  "ts_repr t es \<longleftrightarrow> entries_ok es \<and> length (ts_data t) < 2 ^ 32 \<and>
     unat (ts_len t) = length (flat es) + 1 \<and> length (flat es) + 1 \<le> length (ts_data t) \<and>
     take (length (flat es) + 1) (ts_data t) = flat es @ [0]"

lemma flat_simps [simp]:
  "flat [] = []" "flat (e # es) = e @ 0 # flat es" "flat (xs @ ys) = flat xs @ flat ys"
  by (simp_all add: flat_def)

lemma entries_ok_simps [simp]:
  "entries_ok []" "entries_ok (e # es) \<longleftrightarrow> e \<noteq> [] \<and> 0 \<notin> set e \<and> entries_ok es"
  "entries_ok (xs @ ys) \<longleftrightarrow> entries_ok xs \<and> entries_ok ys"
  by (auto simp: entries_ok_def)

lemma is_entryD: "is_entry k e \<Longrightarrow> \<exists>w. e = k @ 61 # w"
  unfolding is_entry_def by (metis append.assoc append_Cons append_Nil append_take_drop_id)

lemma is_entry_new [simp]: "is_entry k (k @ 61 # v)"
  by (simp add: is_entry_def)

lemma is_entry_other:
  assumes "61 \<notin> set k" and "61 \<notin> set k'" and "is_entry k e" and "is_entry k' e"
  shows "k = k'"
proof -
  obtain w w' where "e = k @ 61 # w" "e = k' @ 61 # w'" using assms(3,4) is_entryD by metis
  moreover have "takeWhile (\<lambda>c. c \<noteq> 61) (x @ 61 # y) = x" if "61 \<notin> set x" for x y :: "u8 list"
    using that by (induction x) auto
  ultimately show ?thesis using assms(1,2) by metis
qed

lemma es_get_set_same: "es_get k (es_set k v es) = (if v = [] then es_get k (tl (dropWhile (\<lambda>e. \<not> is_entry k e) es)) else Some v)"
  by (induction es) (auto simp: es_get_def)

lemma es_get_set_other:
  assumes "61 \<notin> set k" and "61 \<notin> set k'" and "k \<noteq> k'"
  shows "es_get k' (es_set k v es) = es_get k' es"
proof -
  have "\<not> is_entry k' (k @ 61 # v)" using is_entry_other [OF assms(1,2)] assms(3) is_entry_new by blast
  moreover have "is_entry k e \<Longrightarrow> \<not> is_entry k' e" for e using is_entry_other assms by blast
  ultimately show ?thesis by (induction es) (auto simp: es_get_def)
qed

lemma entries_ok_set: "entries_ok es \<Longrightarrow> 0 \<notin> set k \<Longrightarrow> 0 \<notin> set v \<Longrightarrow> entries_ok (es_set k v es)"
  by (induction es) auto

text \<open>The two shapes of an update: the first entry of the key is found, or there is none.\<close>

lemma es_set_found:
  assumes "\<forall>e \<in> set pre. \<not> is_entry k e" and "is_entry k e"
  shows "es_set k v (pre @ e # post) = pre @ (if v = [] then post else (k @ 61 # v) # post)"
  using assms by (induction pre) auto

lemma es_set_new:
  "\<forall>e \<in> set es. \<not> is_entry k e \<Longrightarrow> es_set k v es = (if v = [] then es else es @ [k @ 61 # v])"
  by (induction es) auto

lemma es_cases:
  obtains (new) "\<forall>e \<in> set es. \<not> is_entry k e"
    | (found) pre e post where "es = pre @ e # post" "\<forall>x \<in> set pre. \<not> is_entry k x" "is_entry k e"
proof (cases "\<exists>e \<in> set es. is_entry k e")
  case True
  then show ?thesis using found split_list_first_prop [of es "is_entry k"] by blast
qed (use new in blast)

section \<open>The search finds the first entry of the key\<close>

lemma cstr_mid: "0 \<notin> set e \<Longrightarrow> cstr (A @ e @ 0 # B) (length A) e"
proof (induction e arbitrary: A)
  case (Cons c e)
  then show ?case using Cons.IH [of "A @ [c]"] by (auto simp: acc_simps)
qed (simp add: acc_simps)

lemma is_entry_take:
  assumes "cstr key 0 k" and "0 \<notin> set e"
  shows "\<exists>r. strncmp (A @ e @ 0 # B) (length A) key 0 (length k) = Some r \<and>
    (if r = 0 then map_option (\<lambda>x. x = 61) (rd (A @ e @ 0 # B) (length A + length k)) else Some False)
      = Some (is_entry k e)"
proof -
  obtain r where r: "strncmp (A @ e @ 0 # B) (length A) key 0 (length k) = Some r"
      "r = 0 \<longleftrightarrow> take (length k) e = k"
    using strncmp_cstr [OF cstr_mid [OF assms(2)] assms(1), where n = "length k"] by auto
  have "map_option (\<lambda>x. x = 61) (rd (A @ e @ 0 # B) (length A + length k)) = Some (is_entry k e)"
    if k: "take (length k) e = k"
  proof (cases "length k < length e")
    case True
    then have "take (length k + 1) e = k @ [e ! length k]" using k by (simp add: take_Suc_conv_app_nth)
    with True show ?thesis by (auto simp: is_entry_def rd_def nth_append)
  next
    case False
    then have "length e = length k" using arg_cong [OF k, of length] by simp
    then show ?thesis using k by (auto simp: is_entry_def rd_def nth_append)
  qed
  moreover have "\<not> is_entry k e" if "take (length k) e \<noteq> k"
    using that by (auto dest: is_entryD)
  ultimately show ?thesis using r by auto
qed

lemma key_search_loop_spec:
  assumes "entries_ok es" and "cstr key 0 k"
  shows "key_search_loop (A @ flat es @ 0 # R) (length A) key (length k) =
    Some (if \<exists>e \<in> set es. is_entry k e
          then Some (length A + length (flat (takeWhile (\<lambda>e. \<not> is_entry k e) es))) else None)"
  using assms(1)
proof (induction es arbitrary: A)
  case Nil
  then show ?case by (subst key_search_loop.simps) (simp add: rd_def)
next
  case (Cons e es)
  let ?d = "A @ e @ 0 # (flat es @ 0 # R)"
  have e: "e \<noteq> []" "0 \<notin> set e" using Cons.prems by auto
  obtain r where r: "strncmp ?d (length A) key 0 (length k) = Some r"
      "(if r = 0 then map_option (\<lambda>x. x = 61) (rd ?d (length A + length k)) else Some False)
        = Some (is_entry k e)"
    using is_entry_take [OF assms(2) e(2)] by blast
  have "rd ?d (length A) = Some (hd e)" "hd e \<noteq> 0"
    using e by (cases e; simp add: rd_def nth_append)+
  moreover have "strlen ?d (Some (length A)) = Some (length e)"
    using cstr_mid [OF e(2)] by simp
  ultimately have "key_search_loop ?d (length A) key (length k) =
      (if is_entry k e then Some (Some (length A))
       else key_search_loop ?d (length A + (length e + 1)) key (length k))"
    using r by (subst key_search_loop.simps) (simp split: bool.split)
  moreover have "key_search_loop ?d (length A + (length e + 1)) key (length k) =
      Some (if \<exists>e \<in> set es. is_entry k e
        then Some (length A + (length e + 1) + length (flat (takeWhile (\<lambda>e. \<not> is_entry k e) es))) else None)"
    using Cons.IH [of "A @ e @ [0]"] Cons.prems by simp
  ultimately show ?case by (simp add: add.assoc)
qed

section \<open>The edits implement the abstract update\<close>

lemma wr_mid [simp]: "wr (as @ x # bs) (length as) y = Some (as @ y # bs)"
  by (simp add: wr_def)

lemma split_at:
  assumes "n \<le> length xs"
  obtains as bs where "xs = as @ bs" and "length as = n"
  using assms by (metis append_take_drop_id length_take min.absorb2)

lemma memmove_mid:
  assumes "m = X @ Y @ Z" and "length X = d" and "length Y = length M" and "m = S @ M @ T" and "length S = s"
  shows "memmove m (Some d) (Some s) (length M) = Some (X @ M @ Z, Some d)"
proof -
  have "s + length M \<le> length m" and "take (length M) (drop s m) = M"
    unfolding assms(4) using assms(5) by auto
  moreover have "d + length M \<le> length m" and "blit m d M = Some (X @ M @ Z)"
    unfolding assms(1) using assms(2,3) blit_mid [of M Y X Z] by auto
  ultimately show ?thesis using memmove_blit [of s "length M" m d] by auto
qed

lemma ts_repr_data:
  assumes "ts_repr t es"
  obtains R where "ts_data t = flat es @ 0 # R" and "length (ts_data t) = length (flat es) + 1 + length R"
proof -
  have "ts_data t = (flat es @ [0]) @ drop (length (flat es) + 1) (ts_data t)"
    using assms by (metis append_take_drop_id ts_repr_def)
  then have "ts_data t = flat es @ 0 # drop (length (flat es) + 1) (ts_data t)" by simp
  then show ?thesis using that assms by (auto simp: ts_repr_def)
qed

lemma ts_repr_intro:
  assumes "ts_data t = flat es @ 0 # R" and "unat (ts_len t) = length (flat es) + 1"
    and "length (ts_data t) < 2 ^ 32" and "entries_ok es"
  shows "ts_repr t es"
  using assms by (simp add: ts_repr_def)

lemma u64_less_iff [word_nat]: "a < 2 ^ 64 \<Longrightarrow> b < 2 ^ 64 \<Longrightarrow> (of_nat a :: u64) < of_nat b \<longleftrightarrow> a < b"
  by (simp add: word_less_nat_alt unsigned_of_nat take_bit_nat_eq_self)

lemma unat_u64_of_nat [word_nat]: "a < 2 ^ 64 \<Longrightarrow> unat (of_nat a :: u64) = a"
  by (simp add: unsigned_of_nat take_bit_nat_eq_self)

lemma unat_u32_of_nat [word_nat]: "a < 2 ^ 32 \<Longrightarrow> unat (of_nat a :: u32) = a"
  by (simp add: unsigned_of_nat take_bit_nat_eq_self)

lemma ucast_u64_of_nat: "ucast (w :: u32) = (of_nat (unat w) :: u64)"
  by (simp add: word_unat_eq_iff)

lemma ucast_u32_of_nat: "ucast (of_nat a :: u64) = (of_nat a :: u32)"
  by (rule bit_word_eqI) (auto simp: bit_simps)

lemma u64_sub_add:
  "c \<le> l \<Longrightarrow> (of_nat l - of_nat c + of_nat n :: u64) = of_nat (l - c + n)"
  by (simp add: of_nat_diff)

text \<open>Storing the value: the region after the key is overwritten up to its last byte, which becomes zero.\<close>

lemma cstr_slice: "cstr m 0 s \<Longrightarrow> slice m 0 (length s) = Some s"
proof -
  assume s: "cstr m 0 s"
  have "take (length s) m = s"
    by (rule nth_equalityI) (use cstr_length [OF s] cstr_nth [OF s] in auto)
  then show ?thesis using cstr_length [OF s] by (simp add: slice_def)
qed

lemma store_value_spec:
  assumes "cstr val 0 v" and "v \<noteq> []" and "length W = length v"
  shows "store_value (A @ W @ w # B) (length A) val (length v) = Some (A @ v @ 0 # B)"
proof -
  have "blit (A @ W @ w # B) (length A) v = Some ((A @ v) @ w # B)"
    using blit_mid [of v W A "w # B"] assms(3) by simp
  then show ?thesis
    using assms(2) wr_mid [of "A @ v" w B 0] by (simp add: store_value_def cstr_slice [OF assms(1)])
qed

text \<open>What an edit must have done to a record that holds \<open>es\<close>.\<close>

definition edit_ok :: "ts_record \<Rightarrow> u8 list list \<Rightarrow> u8 list list \<Rightarrow> edit \<Rightarrow> bool" where
  "edit_ok t es es' r =
     (case r of
        No_space \<Rightarrow> length (ts_data t) < length (flat es') + 1
      | Unchanged \<Rightarrow> es' = es
      | Edited t' \<Rightarrow> ts_repr t' es' \<and> length (ts_data t') = length (ts_data t) \<and>
          ts_magic t' = ts_magic t \<and> ts_version t' = ts_version t \<and> ts_crc t' = ts_crc t)"

lemma append_entry_spec:
  assumes "ts_repr t es" and "cstr key 0 k" and "cstr val 0 v" and "length k + length v < 2 ^ 32"
  shows "\<exists>r. append_entry t key (length k) val (length v) = Some r \<and>
    edit_ok t es (if v = [] then es else es @ [k @ 61 # v]) r"
proof (cases "v = []")
  case True
  then show ?thesis by (simp add: append_entry_def edit_ok_def)
next
  case v: False
  obtain R where R: "ts_data t = flat es @ 0 # R" "length (ts_data t) = length (flat es) + 1 + length R"
    using ts_repr_data [OF assms(1)] by blast
  let ?len = "length k + 1 + length v + 1" and ?l = "length (flat es) + 1"
  have l: "unat (ts_len t) = ?l" "length (ts_data t) < 2 ^ 32" "entries_ok es"
    using assms(1) by (auto simp: ts_repr_def)
  have space: "(of_nat (length (ts_data t)) < (ucast (ts_len t) + of_nat ?len :: u64)) \<longleftrightarrow>
      length (ts_data t) < ?l + ?len"
    using u64_less_iff [of "length (ts_data t)" "?l + ?len"] assms(4) l R(2)
    by (simp add: ucast_u64_of_nat)
  have len0: "ts_len t \<noteq> 0" using l(1) by auto
  show ?thesis
  proof (cases "length (ts_data t) < ?l + ?len")
    case True
    then show ?thesis using v space by (simp add: append_entry_def Let_def edit_ok_def)
  next
    case False
    define p where "p = length (flat es)"
    obtain K R1 where K: "0 # R = K @ R1" "length K = length k" 
      using split_at [of "length k" "0 # R"] False R(2) by auto
    obtain a R2 where a: "R1 = a # R2" using False R(2) K arg_cong [OF K(1), of length] by (cases R1) auto
    have R2: "length R2 = length R - length k" using arg_cong [OF K(1), of length] K(2) a by simp
    then have "length v \<le> length R2" using False R(2) by simp
    then obtain V R3 where V: "R2 = V @ R3" "length V = length v" by (rule split_at)
    obtain b c R4 where bc: "R3 = b # c # R4"
      using False R(2) R2 V by (cases R3; cases "tl R3") auto
    have d: "ts_data t = flat es @ K @ a # V @ b # c # R4" using R K a V bc by simp
    let ?A = "flat es @ k"
    have d1: "blit (ts_data t) p k = Some (?A @ a # V @ b # c # R4)"
      using blit_mid [of k K "flat es" "a # V @ b # c # R4"] K(2) by (simp add: d p_def)
    have d2: "wr (?A @ a # V @ b # c # R4) (p + length k) 61 = Some ((?A @ [61]) @ V @ b # c # R4)"
      using wr_mid [of ?A a "V @ b # c # R4" 61] by (simp add: p_def)
    have d3: "blit ((?A @ [61]) @ V @ b # c # R4) (p + length k + 1) v = Some ((?A @ 61 # v) @ b # c # R4)"
      using blit_mid [of v V "?A @ [61]" "b # c # R4"] V(2) by (simp add: p_def)
    have d4: "wr ((?A @ 61 # v) @ b # c # R4) (p + length k + 1 + length v) 0 = Some ((?A @ 61 # v @ [0]) @ c # R4)"
      using wr_mid [of "?A @ 61 # v" b "c # R4" 0] by (simp add: p_def add.assoc)
    have d5: "wr ((?A @ 61 # v @ [0]) @ c # R4) (p + length k + 1 + length v + 1) 0 = Some ((?A @ 61 # v @ [0]) @ 0 # R4)"
      using wr_mid [of "?A @ 61 # v @ [0]" c R4 0] by (simp add: p_def add.assoc)
    let ?t = "t\<lparr>ts_len := ts_len t + of_nat ?len, ts_data := (?A @ 61 # v @ [0]) @ 0 # R4\<rparr>"
    have "append_entry t key (length k) val (length v) = Some (Edited ?t)"
      using v space False len0 d1 d2 d3 d4 d5 cstr_slice [OF assms(2)] cstr_slice [OF assms(3)] l(1)
      by (simp add: append_entry_def Let_def flip: p_def)
    moreover have "unat (ts_len t + of_nat ?len) = ?l + ?len"
      using False l by (subst unat_add_small) (simp_all add: unat_u32_of_nat del: of_nat_add of_nat_Suc)
    then have "ts_repr ?t (es @ [k @ 61 # v])"
      using l d K V False cstr_nonzero [OF assms(2)] cstr_nonzero [OF assms(3)]
      by (intro ts_repr_intro [where R = R4]) auto
    ultimately show ?thesis using v K V d by (auto simp: edit_ok_def)
  qed
qed

text \<open>
  Moving the tail: \<open>D\<close> bytes after the prefix \<open>P\<close> are kept for the new value, the
  entries behind the old one follow.
\<close>

lemma replace_move:
  assumes "m = P @ rest" and "rest = O1 @ M @ T" and "D + length M \<le> length rest"
  obtains W Z where "memmove m (Some (length P + D)) (Some (length P + length O1)) (length M) =
      Some (P @ W @ M @ Z, Some (length P + D))" and "W = take D rest"
    and "length (P @ W @ M @ Z) = length m"
proof -
  have "D \<le> length rest" using assms(3) by simp
  then obtain W YZ where W: "rest = W @ YZ" "length W = D" by (rule split_at)
  then have "length M \<le> length YZ" using assms(3) by simp
  then obtain Y Z where Y: "YZ = Y @ Z" "length Y = length M" by (rule split_at)
  have "memmove m (Some (length P + D)) (Some (length P + length O1)) (length M) =
      Some ((P @ W) @ M @ Z, Some (length P + D))"
    by (rule memmove_mid [where Y = Y and S = "P @ O1" and T = T]) (use assms W Y in auto)
  moreover have "length (P @ W @ M @ Z) = length m" using assms(1) W Y by simp
  ultimately show ?thesis using that W by simp
qed

lemma unat_tail_length:
  assumes "unat (ts_len t) = a + b" shows "unat (ucast (ts_len t) - of_nat a :: u64) = b"
proof -
  have "a + b < 4294967296" using assms u32_bound [of "ts_len t"] by simp
  then show ?thesis
    using assms by (simp add: ucast_u64_of_nat unat_u64_of_nat)
qed

text \<open>The branch for an existing entry with its \<open>size_t\<close> arithmetic read as natural numbers.\<close>

definition kept :: "u8 list \<Rightarrow> u8 list \<Rightarrow> u8 list list \<Rightarrow> u8 list list \<Rightarrow> u8 list list" where
  "kept k v pre post = pre @ (if v = [] then post else (k @ 61 # v) # post)"

lemma replace_entry_eq:
  assumes "ts_repr t (pre @ e # post)" and "e = k @ 61 # w" and "length k + length v < 2 ^ 32"
    and "new = (if v = [] then 0 else length k + 1 + length v + 1)"
  shows "replace_entry t (length (flat pre)) (length k) val (length v) =
    (if length e + 1 \<noteq> new
     then if length (ts_data t) < length (flat (kept k v pre post)) + 1 then Some No_space
          else do { (d, _) \<leftarrow> memmove (ts_data t) (Some (length (flat pre) + new))
                      (Some (length (flat pre) + (length e + 1))) (length (flat post) + 1);
                    d' \<leftarrow> store_value d (length (flat pre) + length k + 1) val (length v);
                    Some (Edited (t\<lparr>ts_len := of_nat (length (flat (kept k v pre post)) + 1), ts_data := d'\<rparr>)) }
     else do { r \<leftarrow> strcmp (ts_data t) (length (flat pre) + length k + 1) val 0;
               if r = 0 then Some Unchanged
               else do { d' \<leftarrow> store_value (ts_data t) (length (flat pre) + length k + 1) val (length v);
                         Some (Edited (t\<lparr>ts_data := d'\<rparr>)) } })"
proof -
  obtain R where R: "ts_data t = flat (pre @ e # post) @ 0 # R"
      "length (ts_data t) = length (flat (pre @ e # post)) + 1 + length R"
    by (rule ts_repr_data [OF assms(1)])
  have l: "unat (ts_len t) = (length (flat pre) + (length e + 1)) + (length (flat post) + 1)"
      "length (ts_data t) < 2 ^ 32" "0 \<notin> set e"
    using assms(1) by (auto simp: ts_repr_def)
  have "strlen (ts_data t) (Some (length (flat pre))) = Some (length e)"
    using cstr_mid [OF l(3), of "flat pre" "flat post @ 0 # R"] by (simp add: R)
  moreover have total: "ucast (ts_len t) - of_nat (length e + 1) + of_nat new =
      (of_nat (length (flat (kept k v pre post)) + 1) :: u64)"
    using u64_sub_add [of "length e + 1" "unat (ts_len t)" new] l(1)
    by (auto simp: ucast_u64_of_nat assms(4) kept_def)
  moreover have "(of_nat (length (ts_data t)) < (of_nat (length (flat (kept k v pre post)) + 1) :: u64)) \<longleftrightarrow>
      length (ts_data t) < length (flat (kept k v pre post)) + 1"
    using l(2) assms(3) R(2) by (intro u64_less_iff) (auto simp: kept_def)
  moreover have "(if length v \<noteq> 0 then length k + 1 + length v + 1 else 0) = new"
    using assms(4) by simp
  ultimately show ?thesis
    unfolding replace_entry_def Let_def
    by (simp only: bind.simps unat_tail_length [OF l(1)] ucast_u32_of_nat)
qed

lemma replace_same_length:
  assumes "ts_repr t (pre @ e # post)" and "e = k @ 61 # w" and "cstr val 0 v" and "0 \<notin> set k"
    and "length k + length v < 2 ^ 32" and "v \<noteq> []" and "length w = length v"
  shows "\<exists>r. replace_entry t (length (flat pre)) (length k) val (length v) = Some r \<and>
    edit_ok t (pre @ e # post) (kept k v pre post) r"
proof -
  obtain R where R: "ts_data t = flat (pre @ e # post) @ 0 # R"
      "length (ts_data t) = length (flat (pre @ e # post)) + 1 + length R"
    by (rule ts_repr_data [OF assms(1)])
  let ?P = "flat pre @ k @ [61]" and ?Q = "flat post @ 0 # R"
  have d: "ts_data t = ?P @ w @ 0 # ?Q" using R assms(2) by simp
  have w: "0 \<notin> set w" "entries_ok pre" "entries_ok post" "length (ts_data t) < 2 ^ 32"
    using assms(1,2) by (auto simp: ts_repr_def)
  obtain r where r: "strcmp (ts_data t) (length ?P) val 0 = Some r" "r = 0 \<longleftrightarrow> w = v"
    using strcmp_cstr [OF cstr_mid [OF w(1)] assms(3), of ?P ?Q] unfolding d by auto
  have sv: "store_value (ts_data t) (length ?P) val (length v) = Some (?P @ v @ 0 # ?Q)"
    using store_value_spec [OF assms(3) assms(6,7), of ?P 0 ?Q] by (simp only: d)
  let ?t = "t\<lparr>ts_data := ?P @ v @ 0 # ?Q\<rparr>"
  have "ts_repr ?t (kept k v pre post)"
    using assms w d cstr_nonzero [OF assms(3)]
    by (intro ts_repr_intro [where R = R]) (auto simp: kept_def ts_repr_def)
  then have "edit_ok t (pre @ e # post) (kept k v pre post) (Edited ?t)"
    using d assms(7) by (simp add: edit_ok_def)
  moreover have "replace_entry t (length (flat pre)) (length k) val (length v) =
      Some (if w = v then Unchanged else Edited ?t)"
    using replace_entry_eq [OF assms(1,2,5) refl, of val] r sv assms(2,6,7) by simp
  ultimately show ?thesis using assms(2,6) by (auto simp: edit_ok_def kept_def)
qed

lemma replace_other_length:
  assumes "ts_repr t (pre @ e # post)" and "e = k @ 61 # w" and "cstr val 0 v" and "0 \<notin> set k"
    and "length k + length v < 2 ^ 32" and "v = [] \<or> length w \<noteq> length v"
  shows "\<exists>r. replace_entry t (length (flat pre)) (length k) val (length v) = Some r \<and>
    edit_ok t (pre @ e # post) (kept k v pre post) r"
proof -
  let ?es' = "kept k v pre post" and ?p = "length (flat pre)"
  define new where "new = (if v = [] then 0 else length k + 1 + length v + 1)"
  have ne: "length e + 1 \<noteq> new" using assms(2,6) by (auto simp: new_def)
  note eq = replace_entry_eq [OF assms(1,2,5) new_def, of val, unfolded if_P [OF ne]]
  obtain R where R: "ts_data t = flat (pre @ e # post) @ 0 # R"
      "length (ts_data t) = length (flat (pre @ e # post)) + 1 + length R"
    by (rule ts_repr_data [OF assms(1)])
  have ok: "entries_ok pre" "entries_ok post" "length (ts_data t) < 2 ^ 32"
    using assms(1) by (auto simp: ts_repr_def)
  show ?thesis
  proof (cases "length (ts_data t) < length (flat ?es') + 1")
    case True
    then show ?thesis by (simp add: eq edit_ok_def)
  next
    case fits: False
    let ?rest = "e @ 0 # flat post @ 0 # R"
    have "ts_data t = flat pre @ ?rest" "?rest = (e @ [0]) @ (flat post @ [0]) @ R"
      "new + length (flat post @ [0]) \<le> length ?rest"
      using fits R assms(2) by (auto simp: kept_def new_def)
    then obtain W Z where W0: "memmove (ts_data t) (Some (?p + new)) (Some (?p + length (e @ [0])))
        (length (flat post @ [0])) = Some (flat pre @ W @ (flat post @ [0]) @ Z, Some (?p + new))"
        "W = take new ?rest" "length (flat pre @ W @ (flat post @ [0]) @ Z) = length (ts_data t)"
      by (rule replace_move)
    then have W: "memmove (ts_data t) (Some (?p + new)) (Some (?p + (length e + 1)))
        (length (flat post) + 1) = Some (flat pre @ W @ flat post @ 0 # Z, Some (?p + new))"
        "W = take new ?rest" "length (flat pre @ W @ flat post @ 0 # Z) = length (ts_data t)"
      by simp_all
    have "\<exists>d'. store_value (flat pre @ W @ flat post @ 0 # Z) (?p + length k + 1) val (length v) = Some d' \<and>
        d' = flat ?es' @ 0 # Z \<and> length d' = length (ts_data t)"
    proof (cases "v = []")
      case False
      define W' where "W' = take (Suc (length v)) (w @ 0 # flat post @ 0 # R)"
      have WW: "W = k @ 61 # W'" using False assms(2) by (simp add: W(2) new_def W'_def)
      have "length W' = Suc (length v)"
        using fits R(2) assms(2) False by (auto simp: W'_def kept_def)
      then obtain V x where V: "W' = V @ [x]" "length V = length v" by (auto simp: length_Suc_conv_rev)
      show ?thesis
        using store_value_spec [OF assms(3) False V(2), of "flat pre @ k @ [61]" x "flat post @ 0 # Z"] False W(3)
        by (auto simp: WW V kept_def)
    qed (use W in \<open>auto simp: store_value_def kept_def new_def\<close>)
    then obtain d' where d': "store_value (flat pre @ W @ flat post @ 0 # Z) (?p + length k + 1) val (length v) = Some d'"
        "d' = flat ?es' @ 0 # Z" "length d' = length (ts_data t)" by blast
    let ?t = "t\<lparr>ts_len := of_nat (length (flat ?es') + 1), ts_data := d'\<rparr>"
    have "unat (of_nat (length (flat ?es') + 1) :: u32) = length (flat ?es') + 1"
      using fits ok by (intro unat_u32_of_nat) simp
    then have "ts_repr ?t ?es'"
      using d' ok assms(4) cstr_nonzero [OF assms(3)]
      by (intro ts_repr_intro [where R = Z]) (auto simp: kept_def)
    then show ?thesis using fits W(1) d' by (simp add: eq edit_ok_def)
  qed
qed

lemma key_search_repr:
  assumes "ts_repr t es" and "cstr key 0 k"
  shows "ram_ts_key_search (ts_data t) (Some 0) key (length k) =
    Some (if \<exists>e \<in> set es. is_entry k e
          then Some (length (flat (takeWhile (\<lambda>e. \<not> is_entry k e) es))) else None)"
proof -
  obtain R where "ts_data t = flat es @ 0 # R" by (rule ts_repr_data [OF assms(1)])
  then show ?thesis
    using key_search_loop_spec [of es key k "[]" R] assms by (simp add: ram_ts_key_search_def ts_repr_def)
qed

lemma takeWhile_first: "\<forall>x \<in> set pre. P x \<Longrightarrow> \<not> P e \<Longrightarrow> takeWhile P (pre @ e # post) = pre"
  by (induction pre) auto

lemma edit_entry_spec:
  assumes "ts_repr t es" and "cstr key 0 k" and "cstr val 0 v" and "length k + length v < 2 ^ 32"
  shows "\<exists>r. edit_entry t key (length k) val (length v) = Some r \<and> edit_ok t es (es_set k v es) r"
proof (cases es k rule: es_cases)
  case new
  then show ?thesis
    using append_entry_spec [OF assms] key_search_repr [OF assms(1,2)]
    by (auto simp: edit_entry_def es_set_new)
next
  case (found pre e post)
  obtain w where e: "e = k @ 61 # w" using is_entryD [OF found(3)] by blast
  have "ram_ts_key_search (ts_data t) (Some 0) key (length k) = Some (Some (length (flat pre)))"
    using key_search_repr [OF assms(1,2)] found takeWhile_first [of pre "\<lambda>e. \<not> is_entry k e" e post] by simp
  moreover have "\<exists>r. replace_entry t (length (flat pre)) (length k) val (length v) = Some r \<and>
      edit_ok t (pre @ e # post) (kept k v pre post) r"
    using assms found(1) e cstr_nonzero [OF assms(2)]
    by (cases "v = [] \<or> length w \<noteq> length v")
      (auto intro: replace_other_length replace_same_length)
  ultimately show ?thesis
    using found es_set_found [OF found(2,3)] by (simp add: edit_entry_def kept_def)
qed

lemma ts_repr_cong:
  "ts_len t' = ts_len t \<Longrightarrow> ts_data t' = ts_data t \<Longrightarrow> ts_repr t' es = ts_repr t es"
  by (simp add: ts_repr_def)

lemma ts_repr_crc: "ts_repr t es \<Longrightarrow> \<exists>c. ram_ts_crc t = Some c"
  by (auto simp: ram_ts_crc_def slice_def ts_repr_def ts_body_def)

lemma ram_ts_crc_cong [simp]:
  "ram_ts_crc (t\<lparr>ts_crc := c\<rparr>) = ram_ts_crc t" "ram_ts_crc (t\<lparr>ts_magic := c\<rparr>) = ram_ts_crc t"
  by (simp_all add: ram_ts_crc_def ts_body_def)

section \<open>The abstract store is a map\<close>

text \<open>For keys without an equals sign, and at most one entry per key, the entries are a finite map.\<close>

definition key_of :: "u8 list \<Rightarrow> u8 list" where
  "key_of e = takeWhile (\<lambda>c. c \<noteq> 61) e"

definition unique_keys :: "u8 list list \<Rightarrow> bool" where
  "unique_keys es \<longleftrightarrow> distinct (map key_of (filter (\<lambda>e. 61 \<in> set e) es))"

lemma is_entry_key_of:
  assumes "61 \<notin> set k"
  shows "is_entry k e \<longleftrightarrow> 61 \<in> set e \<and> key_of e = k"
proof
  have "key_of (k @ 61 # w) = k" for w using assms unfolding key_of_def by (induction k) auto
  then show "is_entry k e \<Longrightarrow> 61 \<in> set e \<and> key_of e = k" by (auto dest: is_entryD)
  assume e: "61 \<in> set e \<and> key_of e = k"
  then obtain a b where ab: "e = a @ 61 # b" "61 \<notin> set a" using split_list_first by metis
  then have "key_of e = a" unfolding key_of_def by (induction a arbitrary: e) auto
  then show "is_entry k e" using e ab by simp
qed

lemma es_set_keys:
  assumes "61 \<notin> set k"
  shows "set (map key_of (filter (\<lambda>e. 61 \<in> set e) (es_set k v es))) \<subseteq>
    insert k (set (map key_of (filter (\<lambda>e. 61 \<in> set e) es)))"
proof -
  have "key_of (k @ 61 # v) = k" using is_entry_key_of [OF assms, of "k @ 61 # v"] by simp
  then show ?thesis by (induction es) auto
qed

lemma unique_keys_set:
  assumes "61 \<notin> set k" and "unique_keys es"
  shows "unique_keys (es_set k v es)"
  using assms(2)
proof (induction es)
  case (Cons e es)
  have k: "key_of (k @ 61 # v) = k" using is_entry_key_of [OF assms(1), of "k @ 61 # v"] by simp
  have "key_of e \<notin> set (map key_of (filter (\<lambda>e. 61 \<in> set e) (es_set k v es)))"
    if "61 \<in> set e" "\<not> is_entry k e"
    using Cons.prems that es_set_keys [OF assms(1), of v es] is_entry_key_of [OF assms(1), of e]
    by (auto simp: unique_keys_def)
  moreover have "is_entry k e \<Longrightarrow> 61 \<in> set e \<and> key_of e = k"
    using is_entry_key_of [OF assms(1), of e] by simp
  ultimately show ?case using Cons k by (cases "is_entry k e"; cases "61 \<in> set e") (auto simp: unique_keys_def)
qed (simp add: unique_keys_def)

lemma es_get_removed:
  assumes "61 \<notin> set k" and "unique_keys es"
  shows "es_get k (es_set k [] es) = None"
  using assms(2)
proof (induction es)
  case (Cons e es)
  have "\<not> is_entry k x" if "is_entry k e" "x \<in> set es" for x
    using Cons.prems that is_entry_key_of [OF assms(1), of e] is_entry_key_of [OF assms(1), of x]
    by (auto simp: unique_keys_def image_iff)
  then have "find (is_entry k) es = None" if "is_entry k e" using that by (auto simp: find_None_iff)
  moreover have "unique_keys es" using Cons.prems by (auto simp: unique_keys_def split: if_splits)
  ultimately show ?case using Cons.IH by (simp add: es_get_def)
qed (simp add: es_get_def)

lemma es_set_map:
  assumes "61 \<notin> set k" and "61 \<notin> set k'" and "unique_keys es"
  shows "es_get k' (es_set k v es) = (if k' = k then (if v = [] then None else Some v) else es_get k' es)"
  using es_get_removed [OF assms(1,3)] es_get_set_same [of k v es] es_get_set_other [OF assms(1,2)] by auto

section \<open>The interface of a store\<close>

text \<open>
  The destination buffer after a lookup: \<open>*value = 0\<close> and, when the key is found,
  \<open>strncpy(value, p + klen + 1, size)\<close>.  The two objects are laid out one after the other
  for the call, and a size beyond the buffer is an overflow.
\<close>

definition copy_out :: "mem \<Rightarrow> mem \<Rightarrow> nat \<Rightarrow> nat \<Rightarrow> mem option" where
  "copy_out buf d src n =
     (if n \<le> length buf
      then do { (m, _) \<leftarrow> strncpy (buf @ d) (Some 0) (Some (length buf + src)) n;
                Some (take (length buf) m) }
      else None)"

definition get_result :: "mem \<Rightarrow> nat \<Rightarrow> u8 list option \<Rightarrow> mem" where
  "get_result buf n v =
     (case v of None \<Rightarrow> buf[0 := 0] | Some v \<Rightarrow> take n (v @ replicate n 0) @ drop n (buf[0 := 0]))"

lemma cstr_shift: "cstr d p s \<Longrightarrow> cstr (b @ d) (length b + p) s"
  by (induction s arbitrary: p) (auto simp: acc_simps nth_append simp flip: add_Suc_right)

lemma copy_out_spec:
  assumes "cstr d src v" and "n \<le> length buf"
  shows "copy_out buf d src n = Some (take n (v @ replicate n 0) @ drop n buf)"
proof -
  have "cstr (buf @ d) (length buf + src) v" by (rule cstr_shift [OF assms(1)])
  then obtain m' where m': "strncpy (buf @ d) (Some 0) (Some (length buf + src)) n = Some (m', Some 0)"
      "blit (buf @ d) 0 (take n (v @ replicate n 0)) = Some m'"
    using strncpy_blit [of "buf @ d" "length buf + src" v 0 n] assms(2) by auto
  moreover have "length (take n (v @ replicate n 0)) = n" by simp
  ultimately have "m' = take n (v @ replicate n 0) @ drop n buf @ d"
    using assms(2) unfolding blit_Some_iff by (simp only: take0 append_Nil drop_append add_0) simp
  then show ?thesis using m'(1) assms(2) by (simp add: copy_out_def)
qed

text \<open>A sequence of settings, continued whatever each of them returns.\<close>

fun run_sets :: "(mem \<Rightarrow> mem \<Rightarrow> 's \<Rightarrow> (int \<times> 's) option) \<Rightarrow> (mem \<times> mem) list \<Rightarrow> 's \<Rightarrow>
    (int list \<times> 's) option" where
  "run_sets set_op [] s = Some ([], s)"
| "run_sets set_op ((key, val) # ops) s =
     do { (r, s') \<leftarrow> set_op key val s; (rs, s'') \<leftarrow> run_sets set_op ops s'; Some (r # rs, s'') }"

text \<open>What the successful settings of a sequence leave under a key.\<close>

definition last_set :: "u8 list \<Rightarrow> u8 list option \<Rightarrow> (int \<times> u8 list \<times> u8 list) list \<Rightarrow> u8 list option" where
  "last_set k' = foldl (\<lambda>x (r, k, v). if r = 0 \<and> k = k' then (if v = [] then None else Some v) else x)"

text \<open>The strings in the argument buffers of a sequence.\<close>

definition set_args :: "(mem \<times> mem) list \<Rightarrow> (u8 list \<times> u8 list) list \<Rightarrow> bool" where
  "set_args = list_all2 (\<lambda>(key, val) (k, v). cstr key 0 k \<and> cstr val 0 v \<and> 61 \<notin> set k \<and>
     length k + length v < 2 ^ 32)"

locale env_store =
  fixes holds :: "'s \<Rightarrow> u8 list list \<Rightarrow> bool"
    and set_op :: "mem \<Rightarrow> mem \<Rightarrow> 's \<Rightarrow> (int \<times> 's) option"
    and get_op :: "mem \<Rightarrow> mem \<Rightarrow> nat \<Rightarrow> 's \<Rightarrow> mem option"
  assumes set_law: "holds s es \<Longrightarrow> cstr key 0 k \<Longrightarrow> cstr val 0 v \<Longrightarrow> length k + length v < 2 ^ 32 \<Longrightarrow>
      \<exists>r s'. set_op key val s = Some (r, s') \<and> holds s' (if r = 0 then es_set k v es else es)"
    and get_law: "holds s es \<Longrightarrow> cstr key 0 k \<Longrightarrow> n \<le> length buf \<Longrightarrow> buf \<noteq> [] \<Longrightarrow>
      get_op key buf n s = Some (get_result buf n (es_get k es))"
begin

lemma get_after_set:
  assumes "holds s es" and "cstr key 0 k" and "cstr val 0 v" and "length k + length v < 2 ^ 32"
    and "set_op key val s = Some (0, s')" and "v \<noteq> []" and "n \<le> length buf" and "buf \<noteq> []"
  shows "get_op key buf n s' = Some (get_result buf n (Some v))"
proof -
  have "holds s' (es_set k v es)" using set_law [OF assms(1-4)] assms(5) by auto
  then show ?thesis using get_law assms(2,6-8) es_get_set_same [of k v es] by auto
qed

lemma get_other_after_set:
  assumes "holds s es" and "cstr key 0 k" and "cstr val 0 v" and "length k + length v < 2 ^ 32"
    and "set_op key val s = Some (r, s')" and "cstr key' 0 k'" and "k' \<noteq> k"
    and "61 \<notin> set k" and "61 \<notin> set k'" and "n \<le> length buf" and "buf \<noteq> []"
  shows "get_op key' buf n s' = get_op key' buf n s"
proof -
  have "holds s' (if r = 0 then es_set k v es else es)" using set_law [OF assms(1-4)] assms(5) by auto
  then show ?thesis
    using get_law [OF _ assms(6,10,11)] assms(1) es_get_set_other [OF assms(8,9)] assms(7) by auto
qed

lemma run_sets_map:
  assumes "holds s es" and "unique_keys es" and "61 \<notin> set k'"
    and "set_args ops kvs"
  shows "\<exists>rs s' es'. run_sets set_op ops s = Some (rs, s') \<and> length rs = length kvs \<and> holds s' es' \<and>
    unique_keys es' \<and>
    es_get k' es' = last_set k' (es_get k' es) (zip rs kvs)"
  using assms(4) [unfolded set_args_def] assms(1,2)
proof (induction ops kvs arbitrary: s es rule: list_all2_induct)
  case (Cons op ops kv kvs)
  obtain key val k v where op: "op = (key, val)" "kv = (k, v)" by (cases op; cases kv)
  have c: "cstr key 0 k" "cstr val 0 v" "61 \<notin> set k" "length k + length v < 2 ^ 32"
    using Cons.hyps(1) op by auto
  obtain r s1 where r: "set_op key val s = Some (r, s1)" "holds s1 (if r = 0 then es_set k v es else es)"
    using set_law [OF Cons.prems(1) c(1,2,4)] by blast
  have "unique_keys (if r = 0 then es_set k v es else es)"
    using unique_keys_set [OF c(3) Cons.prems(2)] Cons.prems(2) by simp
  from Cons.IH [OF r(2) this] obtain rs s' es' where IH: "run_sets set_op ops s1 = Some (rs, s')"
    "length rs = length kvs" "holds s' es'" "unique_keys es'"
    "es_get k' es' = last_set k' (es_get k' (if r = 0 then es_set k v es else es)) (zip rs kvs)" by blast
  moreover have "es_get k' (if r = 0 then es_set k v es else es) =
      (if r = 0 \<and> k = k' then (if v = [] then None else Some v) else es_get k' es)"
    using es_set_map [OF c(3) assms(3) Cons.prems(2), of v] by auto
  ultimately show ?case using op r(1) by (intro exI [of _ "r # rs"] exI [of _ s'] exI [of _ es']) (auto simp: last_set_def)
qed (auto simp: last_set_def)

end

end
