(* ===== verification/Ram_Ts.thy ===== *)
theory Ram_Ts
  imports Ts_Store Ctype
begin

text \<open>
  The key/value store that survives a warm reboot in a fixed RAM area,
  \<^verbatim>\<open>src/boot/common/driver/ram_ts/ram_ts.c\<close>.  The state is the pointer \<open>__ts\<close>:
  \<^term>\<open>None\<close> before \<open>ram_ts_init\<close>, then the record in the area.  The result \<^term>\<open>None\<close> of
  an operation is an access outside an object.  The build modelled is the boot loader's
  (\<open>SOC_RAM_TS_ENABLE\<close>), where integers are parsed by \<open>str2ul\<close>.
\<close>

section \<open>The operations\<close>

definition RAM_TS_MAGIC :: u32 where "RAM_TS_MAGIC = 0x53544D52"

definition RAM_TS_MAX_DATA_SIZE :: nat where "RAM_TS_MAX_DATA_SIZE = 0x200 - 4 * 4"

definition RAM_EINVAL :: int where "RAM_EINVAL = 1"

definition RAM_ENOSPC :: int where "RAM_ENOSPC = 2"

type_synonym ram_state = "ts_record option"

text \<open>\<open>__ram_ts_get\<close>: the record, or NULL when it is missing or its checksum is wrong.\<close>

definition ram_ts_get_locked :: "ram_state \<Rightarrow> ts_record option option" where
  "ram_ts_get_locked st =
     (case st of None \<Rightarrow> Some None
      | Some ts \<Rightarrow> do { c \<leftarrow> ram_ts_crc ts; Some (if ts_crc ts \<noteq> c then None else Some ts) })"

definition ram_ts_set :: "mem \<Rightarrow> mem \<Rightarrow> ram_state \<Rightarrow> (int \<times> ram_state) option" where
  "ram_ts_set key val st =
     do { klen \<leftarrow> strlen key (Some 0);
          vlen \<leftarrow> strlen val (Some 0);
          ts \<leftarrow> ram_ts_get_locked st;
          case ts of None \<Rightarrow> Some (- RAM_EINVAL, st)
          | Some t \<Rightarrow>
              do { r \<leftarrow> edit_entry t key klen val vlen;
                   case r of No_space \<Rightarrow> Some (- RAM_ENOSPC, st)
                   | Unchanged \<Rightarrow> Some (0, st)
                   | Edited t' \<Rightarrow>
                       do { c \<leftarrow> ram_ts_crc t'; Some (0, Some (t'\<lparr>ts_crc := c\<rparr>)) } } }"

definition ram_ts_get :: "mem \<Rightarrow> mem \<Rightarrow> nat \<Rightarrow> ram_state \<Rightarrow> mem option" where
  "ram_ts_get key val n st =
     do { klen \<leftarrow> strlen key (Some 0);
          val1 \<leftarrow> wr val 0 0;
          ts \<leftarrow> ram_ts_get_locked st;
          case ts of None \<Rightarrow> Some val1
          | Some t \<Rightarrow>
              do { p \<leftarrow> ram_ts_key_search (ts_data t) (Some 0) key klen;
                   case p of None \<Rightarrow> Some val1
                   | Some p \<Rightarrow> copy_out val1 (ts_data t) (p + klen + 1) n } }"

text \<open>\<open>stack\<close> is what the 16-byte buffer on the stack holds before the call.\<close>

definition ram_ts_get_int :: "mem \<Rightarrow> int \<Rightarrow> mem \<Rightarrow> ram_state \<Rightarrow> int option" where
  "ram_ts_get_int key default_value stack st =
     do { val \<leftarrow> ram_ts_get key stack 16 st;
          c \<leftarrow> rd val 0;
          if c = 0 then Some default_value
          else do { (n, _) \<leftarrow> str2ul val 0 0; Some (sint (ucast n :: u32)) } }"

text \<open>\<open>ram_ts_init\<close> takes over the area as the previous boot left it, or formats it.\<close>

definition ram_ts_init :: "ts_record \<Rightarrow> (int \<times> ram_state) option" where
  "ram_ts_init area =
     do { bad \<leftarrow> (if ts_magic area \<noteq> RAM_TS_MAGIC then Some True
                 else map_option (\<lambda>c. ts_crc area \<noteq> c) (ram_ts_crc area));
          if bad
          then do { let t = \<lparr>ts_magic = RAM_TS_MAGIC, ts_crc = 0, ts_len = 1, ts_version = 1,
                             ts_data = (replicate RAM_TS_MAX_DATA_SIZE 0)[0 := 0]\<rparr>;
                    c \<leftarrow> ram_ts_crc t;
                    Some (0, Some (t\<lparr>ts_crc := c\<rparr>)) }
          else Some (0, Some area) }"

section \<open>The store implements the interface\<close>

definition ram_holds :: "ram_state \<Rightarrow> u8 list list \<Rightarrow> bool" where
  "ram_holds st es \<longleftrightarrow>
     (case st of None \<Rightarrow> False
      | Some t \<Rightarrow> ts_repr t es \<and> ram_ts_crc t = Some (ts_crc t) \<and>
          length (ts_data t) = RAM_TS_MAX_DATA_SIZE)"

lemma ram_holdsE:
  assumes "ram_holds st es"
  obtains t where "st = Some t" "ts_repr t es" "ram_ts_crc t = Some (ts_crc t)"
    "length (ts_data t) = RAM_TS_MAX_DATA_SIZE" "ram_ts_get_locked st = Some (Some t)"
  using assms by (auto simp: ram_holds_def ram_ts_get_locked_def split: option.splits)

lemma ram_ts_set_spec:
  assumes "ram_holds st es" and "cstr key 0 k" and "cstr val 0 v" and "length k + length v < 2 ^ 32"
  shows "\<exists>r st'. ram_ts_set key val st = Some (r, st') \<and>
    (if length (flat (es_set k v es)) + 1 \<le> RAM_TS_MAX_DATA_SIZE
     then r = 0 \<and> ram_holds st' (es_set k v es) else r = - RAM_ENOSPC \<and> st' = st)"
proof -
  obtain t where t: "st = Some t" "ts_repr t es" "ram_ts_crc t = Some (ts_crc t)"
    "length (ts_data t) = RAM_TS_MAX_DATA_SIZE" "ram_ts_get_locked st = Some (Some t)"
    by (rule ram_holdsE [OF assms(1)])
  obtain e where e: "edit_entry t key (length k) val (length v) = Some e" "edit_ok t es (es_set k v es) e"
    using edit_entry_spec [OF t(2) assms(2-4)] by blast
  show ?thesis
  proof (cases e)
    case (Edited t')
    then have t': "ts_repr t' (es_set k v es)" "length (ts_data t') = RAM_TS_MAX_DATA_SIZE"
      using e(2) t(4) by (auto simp: edit_ok_def)
    obtain c where "ram_ts_crc t' = Some c" using ts_repr_crc [OF t'(1)] by blast
    moreover have "ts_repr (t'\<lparr>ts_crc := c\<rparr>) (es_set k v es)" for c
      using t'(1) ts_repr_cong [of "t'\<lparr>ts_crc := c\<rparr>" t'] by simp
    ultimately show ?thesis
      using t e Edited t' assms(2,3) by (auto simp: ram_ts_set_def ram_holds_def ts_repr_def)
  qed (use t e assms in \<open>auto simp: ram_ts_set_def edit_ok_def ts_repr_def\<close>)
qed

lemma found_value_cstr:
  assumes "ts_repr t es" and "es_get k es = Some v"
  shows "\<exists>p. (\<exists>e \<in> set es. is_entry k e) \<and> p = length (flat (takeWhile (\<lambda>e. \<not> is_entry k e) es)) \<and>
    cstr (ts_data t) (p + length k + 1) v"
proof (cases es k rule: es_cases)
  case new
  then show ?thesis using assms(2) by (auto simp: es_get_def find_Some_iff)
next
  case (found pre e post)
  obtain w where w: "e = k @ 61 # w" using is_entryD [OF found(3)] by blast
  have "find (is_entry k) es = Some e" unfolding found(1) using found(2,3) by (induction pre) auto
  then have v: "v = w" using assms(2) w by (simp add: es_get_def)
  obtain R where R: "ts_data t = flat es @ 0 # R" by (rule ts_repr_data [OF assms(1)])
  have "0 \<notin> set w" using assms(1) found(1) w by (auto simp: ts_repr_def)
  then have "cstr (ts_data t) (length (flat pre @ k @ [61])) v"
    using cstr_mid [of w "flat pre @ k @ [61]" "flat post @ 0 # R"] by (simp add: R found(1) w v)
  then show ?thesis
    using found takeWhile_first [of pre "\<lambda>e. \<not> is_entry k e" e post] by (auto simp: add.assoc)
qed

lemma ram_ts_get_repr:
  assumes "ram_ts_get_locked st = Some (Some t)" and "ts_repr t es" and "cstr key 0 k"
    and "n \<le> length buf" and "buf \<noteq> []"
  shows "ram_ts_get key buf n st = Some (get_result buf n (es_get k es))"
proof -
  note search = key_search_repr [OF assms(2,3)]
  show ?thesis
  proof (cases "es_get k es")
    case None
    then have "\<not> (\<exists>e \<in> set es. is_entry k e)" by (auto simp: es_get_def find_None_iff)
    then show ?thesis using search assms None by (simp add: ram_ts_get_def get_result_def)
  next
    case (Some v)
    obtain p where p: "ram_ts_key_search (ts_data t) (Some 0) key (length k) = Some (Some p)"
      "cstr (ts_data t) (p + length k + 1) v"
      using found_value_cstr [OF assms(2) Some] search by auto
    have "copy_out (buf[0 := 0]) (ts_data t) (p + length k + 1) n =
        Some (take n (v @ replicate n 0) @ drop n (buf[0 := 0]))"
      by (rule copy_out_spec) (use p assms in auto)
    then show ?thesis
      using p assms Some by (auto simp: ram_ts_get_def get_result_def)
  qed
qed

lemma ram_ts_get_spec:
  assumes "ram_holds st es" and "cstr key 0 k" and "n \<le> length buf" and "buf \<noteq> []"
  shows "ram_ts_get key buf n st = Some (get_result buf n (es_get k es))"
  using ram_holdsE [OF assms(1)] ram_ts_get_repr [OF _ _ assms(2-4)] by metis

text \<open>The store provides the interface, so the facts about settings and lookups hold for it.\<close>

interpretation ram: env_store ram_holds ram_ts_set ram_ts_get
proof
  fix s es key k val v
  assume "ram_holds s es" "cstr key 0 k" "cstr val 0 v" "length k + length v < 2 ^ 32"
  from ram_ts_set_spec [OF this] this(1)
  show "\<exists>r s'. ram_ts_set key val s = Some (r, s') \<and> ram_holds s' (if r = 0 then es_set k v es else es)"
    by (cases "length (flat (es_set k v es)) + 1 \<le> RAM_TS_MAX_DATA_SIZE") (auto simp: RAM_ENOSPC_def)
qed (rule ram_ts_get_spec)

text \<open>
  C33: on a consistent store, setting a key always returns: when the edited data fits, the
  result is 0 and the store holds exactly the entries with the first entry of the key
  replaced, removed (empty value) or appended; when it does not fit, the result is
  \<open>-ENOSPC\<close> and nothing changes.  No access leaves the record.
\<close>

theorem ram_ts_set_refines:
  assumes "ram_holds st es" and "cstr key 0 k" and "cstr val 0 v" and "length k + length v < 2 ^ 32"
  shows "\<exists>r st'. ram_ts_set key val st = Some (r, st') \<and>
    (if length (flat (es_set k v es)) + 1 \<le> RAM_TS_MAX_DATA_SIZE
     then r = 0 \<and> ram_holds st' (es_set k v es) else r = - RAM_ENOSPC \<and> st' = st)"
  by (rule ram_ts_set_spec [OF assms])

definition ram_example :: ts_record where
  "ram_example = \<lparr>ts_magic = RAM_TS_MAGIC, ts_crc = 0xd5e4c20c, ts_len = 1, ts_version = 1,
     ts_data = replicate RAM_TS_MAX_DATA_SIZE 0\<rparr>"

lemma crc_serial_bits:
  "crc_serial c b = crc_bit (crc_bit (crc_bit (crc_bit (crc_bit (crc_bit (crc_bit (crc_bit (c XOR ucast b))))))))"
  by (simp add: crc_serial_def numeral_eq_Suc)

lemma ram_example_holds: "ram_holds (Some ram_example) []"
proof -
  have "ts_repr ram_example []" "length (ts_data ram_example) = RAM_TS_MAX_DATA_SIZE"
    by (simp_all add: ts_repr_def ram_example_def RAM_TS_MAX_DATA_SIZE_def)
  moreover have "ram_ts_crc ram_example = Some (ts_crc ram_example)"
    by (simp add: ram_ts_crc_def slice_def ts_body_def le32_def ram_example_def RAM_TS_MAX_DATA_SIZE_def
        crc_serial_bits crc_bit_def)
  ultimately show ?thesis by (simp add: ram_holds_def)
qed

theorem ram_ts_set_refines_witness:
  "\<exists>r st'. ram_ts_set [107, 0] [118, 0] (Some ram_example) = Some (r, st') \<and> r = 0 \<and>
     ram_holds st' [[107, 61, 118]]"
proof -
  have "cstr [107, 0] 0 [107]" "cstr [118, 0] 0 [118]" by code_simp+
  from ram_ts_set_refines [OF ram_example_holds this] show ?thesis
    by (simp add: RAM_TS_MAX_DATA_SIZE_def)
qed

text \<open>
  C32: the store is a map.  After any sequence of settings of keys without an equals sign,
  a lookup of such a key copies out the value of the last setting of it that returned 0
  (nothing after a removal), padded with zeros or cut at the buffer size.
\<close>

theorem ram_ts_last_set_wins:
  assumes "ram_holds st es" and "unique_keys es" and "set_args ops kvs"
    and "cstr key 0 k" and "61 \<notin> set k" and "n \<le> length buf" and "buf \<noteq> []"
  shows "\<exists>rs st'. run_sets ram_ts_set ops st = Some (rs, st') \<and> length rs = length kvs \<and>
    ram_ts_get key buf n st' = Some (get_result buf n (last_set k (es_get k es) (zip rs kvs)))"
  using ram.run_sets_map [OF assms(1,2,5,3)] ram.get_law [OF _ assms(4,6,7)] by metis

theorem ram_ts_last_set_wins_witness:
  "\<exists>rs st'. run_sets ram_ts_set [([97, 0], [49, 0]), ([98, 0], [50, 0])] (Some ram_example) = Some (rs, st') \<and>
     length rs = Suc (Suc 0) \<and>
     ram_ts_get [97, 0] [9, 9, 9] 3 st' =
       Some (get_result [9, 9, 9] 3 (last_set [97] None (zip rs [([97], [49]), ([98], [50])])))"
proof -
  have "unique_keys []" "set_args [([97, 0], [49, 0]), ([98, 0], [50, 0])] [([97], [49]), ([98], [50])]"
    "cstr [97, 0] 0 [97]" "(61 :: u8) \<notin> set [97]" "3 \<le> length [9, 9, 9 :: u8]" "[9, 9, 9 :: u8] \<noteq> []"
    by (simp_all add: unique_keys_def set_args_def rd_def)
  from ram_ts_last_set_wins [OF ram_example_holds this] show ?thesis
    by (simp add: es_get_def)
qed

text \<open>
  C34: let the length field found in the area not exceed the data array.  Then initialisation keeps
  a record whose magic number and checksum match, and otherwise leaves a formatted, empty and
  consistent store.
\<close>

theorem ram_ts_init_keeps_or_formats:
  assumes "unat (ts_len area) \<le> length (ts_data area)"
  shows "\<exists>st. ram_ts_init area = Some (0, st) \<and>
    (if ts_magic area = RAM_TS_MAGIC \<and> ram_ts_crc area = Some (ts_crc area)
     then st = Some area else ram_holds st [])"
proof -
  obtain c where c: "ram_ts_crc area = Some c"
    using assms by (auto simp: ram_ts_crc_def slice_def ts_body_def)
  let ?t = "\<lparr>ts_magic = RAM_TS_MAGIC, ts_crc = 0, ts_len = 1, ts_version = 1,
    ts_data = (replicate RAM_TS_MAX_DATA_SIZE 0)[0 := 0]\<rparr> :: ts_record"
  have "(replicate RAM_TS_MAX_DATA_SIZE 0)[0 := 0] = replicate RAM_TS_MAX_DATA_SIZE (0 :: u8)"
    by (rule nth_equalityI) (auto simp: nth_list_update)
  then have t: "ts_repr ?t []" by (simp add: ts_repr_def RAM_TS_MAX_DATA_SIZE_def)
  then obtain d where "ram_ts_crc ?t = Some d" using ts_repr_crc by blast
  moreover have "ram_holds (Some (?t\<lparr>ts_crc := d\<rparr>)) []" if "ram_ts_crc ?t = Some d" for d
    using t that ts_repr_cong [of "?t\<lparr>ts_crc := d\<rparr>" ?t] ram_ts_crc_cong(1) [where t = ?t and c = d]
    by (simp add: ram_holds_def del: ram_ts_crc_cong)
  ultimately show ?thesis using c by (auto simp: ram_ts_init_def)
qed

theorem ram_ts_init_keeps_or_formats_witness:
  "\<exists>st. ram_ts_init ram_example = Some (0, st) \<and> st = Some ram_example"
proof -
  have "ts_magic ram_example = RAM_TS_MAGIC" "ram_ts_crc ram_example = Some (ts_crc ram_example)"
    using ram_example_holds by (simp_all add: ram_holds_def ram_example_def)
  then show ?thesis
    using ram_ts_init_keeps_or_formats [of ram_example] by (simp add: ram_example_def RAM_TS_MAX_DATA_SIZE_def)
qed

text \<open>
  C39: the length field is used before it is checked: when a wrong length larger than the
  data array meets a right magic number, the checksum loop of the initialisation reads
  outside the record.
\<close>

theorem ram_ts_init_unchecked_length:
  assumes "ts_magic area = RAM_TS_MAGIC" and "length (ts_data area) < unat (ts_len area)"
  shows "ram_ts_init area = None"
  using assms by (simp add: ram_ts_init_def ram_ts_crc_def slice_def ts_body_def)

theorem ram_ts_init_unchecked_length_witness:
  "ram_ts_init (ram_example\<lparr>ts_len := 0xffffffff\<rparr>) = None"
  by (rule ram_ts_init_unchecked_length) (simp_all add: ram_example_def RAM_TS_MAX_DATA_SIZE_def)

text \<open>
  an integer setting is read back as the number: a decimal value of fewer than 16
  digits without leading zero gives that number (as a 32-bit \<open>int\<close>).
\<close>

lemma ram_ts_get_int_decimal:
  assumes "ram_holds st es" and "cstr key 0 k" and "es_get k es = Some (map xchar (d # ds))"
    and "\<forall>x \<in> set (d # ds). x < 10" and "d \<noteq> 0" and "length (d # ds) < 16" and "length stack = 16"
  shows "ram_ts_get_int key def stack st = Some (sint (of_nat (digits_value 10 (d # ds)) :: u32))"
proof -
  let ?v = "map xchar (d # ds)"
  define val where "val = take 16 (?v @ replicate 16 0) @ drop 16 (stack[0 := 0])"
  have g: "ram_ts_get key stack 16 st = Some val"
    using ram.get_law [OF assms(1,2), of 16 stack] assms(3,7) by (cases stack) (auto simp: get_result_def val_def)
  have "0 \<notin> set ?v"
    using assms(4) xchar_nonzero by fastforce
  moreover have "val = [] @ ?v @ 0 # replicate (15 - length ?v) 0"
    using assms(6,7) by (simp add: val_def flip: replicate_Suc)
  ultimately have v: "cstr val 0 ?v" using cstr_mid [of ?v "[]"] by simp
  then have "str2ul val 0 0 = Some (of_nat (digits_value 10 (d # ds)), length (d # ds))"
    using str2ul_dec [OF v assms(4,5)] by simp
  moreover have "rd val 0 = Some (xchar d)" "xchar d \<noteq> 0" using v by auto
  ultimately show ?thesis using g by (simp add: ram_ts_get_int_def ucast_u32_of_nat del: of_nat_add of_nat_mult)
qed

lemma str2ul_loop_runs_off:
  assumes "\<forall>c \<in> set (drop p m). isxdigit_ct c \<and> xdigit_value c < ucast base"
  shows "str2ul_loop m p base ret = None"
  using assms
proof (induction m p base ret rule: str2ul_loop.induct)
  case (1 m p base ret)
  show ?case
  proof (cases "p < length m")
    case True
    then have d: "drop p m = m ! p # drop (Suc p) m" by (simp add: Cons_nth_drop_Suc)
    then show ?thesis using 1 True by (subst str2ul_loop.simps) simp
  qed (subst str2ul_loop.simps, simp add: rd_def)
qed

text \<open>
  C40: the 16-byte buffer of the integer lookup is filled without a terminator when the value
  has 16 characters or more, and for such a decimal value the parser runs past the end of
  the buffer.
\<close>

theorem ram_ts_get_int_overrun:
  assumes "ram_holds st es" and "cstr key 0 k" and "es_get k es = Some (map xchar (d # ds))"
    and "\<forall>x \<in> set (d # ds). x < 10" and "d \<noteq> 0" and "16 \<le> length (d # ds)" and "length stack = 16"
  shows "ram_ts_get_int key def stack st = None"
proof -
  let ?v = "map xchar (d # ds)"
  have g: "ram_ts_get key stack 16 st = Some (take 16 ?v)"
    using ram.get_law [OF assms(1,2), of 16 stack] assms(3,6,7) by (cases stack) (auto simp: get_result_def)
  have "xdigit_value (xchar x) < ucast (10 :: u32)" if "x \<in> set (d # ds)" for x
  proof -
    have "xdigit_value (xchar x) = of_nat x" "x < 10" using xchar_digit(2) [of x] assms(4) that by auto
    then show ?thesis by (simp add: word_less_nat_alt unsigned_of_nat take_bit_nat_eq_self)
  qed
  moreover have "isxdigit_ct (xchar x)" if "x \<in> set (d # ds)" for x
    using xchar_digit(1) [of x] assms(4) that by auto
  ultimately have "str2ul_loop (take 16 ?v) 0 10 0 = None"
    by (intro str2ul_loop_runs_off) (auto dest!: in_set_takeD)
  moreover have "xchar d \<noteq> 48" "xchar d \<noteq> 0" using xchar_digit(3) [of d] xchar_nonzero [of d] assms(4,5) by auto
  ultimately show ?thesis using g by (simp add: ram_ts_get_int_def str2ul_def rd_def)
qed

theorem ram_ts_get_int_overrun_witness:
  "\<exists>st. ram_ts_set [97, 0] (replicate 16 49 @ [0]) (Some ram_example) = Some (0, st) \<and>
     ram_ts_get_int [97, 0] 7 (replicate 16 9) st = None"
proof -
  have c: "cstr [97, 0] 0 [97]" "cstr (replicate 16 49 @ [0]) 0 (replicate 16 49)" by code_simp+
  obtain st where st: "ram_ts_set [97, 0] (replicate 16 49 @ [0]) (Some ram_example) = Some (0, st)"
    "ram_holds st [97 # 61 # replicate 16 49]"
    using ram_ts_set_spec [OF ram_example_holds c] by (auto simp: RAM_TS_MAX_DATA_SIZE_def)
  have "es_get [97] [97 # 61 # replicate 16 49] = Some (map xchar (1 # replicate 15 1))" by code_simp
  from ram_ts_get_int_overrun [OF st(2) c(1) this, of "replicate 16 9" 7] st(1) show ?thesis by simp
qed

end
