(* ===== verification/Flash_Ts.thy ===== *)
theory Flash_Ts
  imports Ram_Ts
begin

text \<open>
  The transactional key/value store on eMMC, \<^verbatim>\<open>src/boot/common/driver/flash_ts/flash_ts.c\<close>
  over the page layer \<^verbatim>\<open>emmc_drv.c\<close>.  Every committed change is a new record, written at
  the next chunk of a partition and verified by reading it back; at start the partition
  is scanned for the record with the highest version.

  The eMMC controller driver (\<open>do_emmcread\<close>, \<open>do_emmcwrite\<close>, \<open>do_emmcerase\<close>) and the
  geometry functions \<open>get_page_size\<close>, \<open>get_block_size\<close> are a parameter, the record
  \<open>emmc_ops\<close> over an arbitrary device state.  Offsets (\<open>loff_t\<close>) and sizes are integers: the
  partitions are far smaller than the range of the C types.  A result \<^term>\<open>None\<close> is an
  access outside an object or a division by zero.
\<close>

section \<open>The page layer\<close>

record 'd emmc_ops =
  do_emmcread :: "int \<Rightarrow> nat \<Rightarrow> 'd \<Rightarrow> int \<times> mem"
  do_emmcwrite :: "int \<Rightarrow> nat \<Rightarrow> mem \<Rightarrow> 'd \<Rightarrow> int \<times> 'd"
  do_emmcerase :: "int \<Rightarrow> int \<Rightarrow> 'd \<Rightarrow> int \<times> 'd"
  get_page_size :: nat
  get_block_size :: nat

text \<open>The device with the static page buffer of \<open>nand_write_page\<close>.\<close>

record 'd nand =
  nd_dev :: 'd
  nd_temp :: mem

definition NFlash_PageRead :: "'d emmc_ops \<Rightarrow> int \<Rightarrow> 'd \<Rightarrow> int \<times> mem" where
  "NFlash_PageRead ops addr d = do_emmcread ops addr (get_page_size ops div 512) d"

definition NFlash_PageWrite :: "'d emmc_ops \<Rightarrow> int \<Rightarrow> mem \<Rightarrow> 'd \<Rightarrow> int \<times> 'd" where
  "NFlash_PageWrite ops ofs buf d = do_emmcwrite ops ofs (get_page_size ops div 512) buf d"

definition NFlash_Erase :: "'d emmc_ops \<Rightarrow> int \<Rightarrow> 'd \<Rightarrow> int \<times> 'd" where
  "NFlash_Erase ops ofs d = do_emmcerase ops ofs (int (get_block_size ops)) d"

definition is_block_bad :: "int \<Rightarrow> bool" where
  "is_block_bad addr \<longleftrightarrow> False"

text \<open>\<open>is_blank\<close> compares all 32-bit words with the first, which must be all zeros or all ones.\<close>

definition word_at :: "mem \<Rightarrow> nat \<Rightarrow> u32 option" where
  "word_at buf i = map_option of_le32 (slice buf (4 * i) 4)"

fun blank_loop :: "mem \<Rightarrow> u32 \<Rightarrow> nat \<Rightarrow> nat \<Rightarrow> bool option" where
  "blank_loop buf w i 0 = Some True"
| "blank_loop buf w i (Suc n) =
     do { x \<leftarrow> word_at buf i; if x \<noteq> w then Some False else blank_loop buf w (Suc i) n }"

definition is_blank :: "mem \<Rightarrow> nat \<Rightarrow> bool option" where
  "is_blank buf count =
     do { w \<leftarrow> word_at buf 0;
          if w \<noteq> 0 \<and> w \<noteq> 0xffffffff then Some False else blank_loop buf w 0 (count div 4) }"

text \<open>
  \<open>nand_read_page\<close>: a failing page read yields erased bytes and success; the result is the
  status and the bytes stored in the buffer.
\<close>

definition nand_read_page :: "'d emmc_ops \<Rightarrow> int \<Rightarrow> nat \<Rightarrow> 'd \<Rightarrow> (int \<times> mem) option" where
  "nand_read_page ops page n d =
     (let offset = page * int (get_page_size ops) in
      if get_page_size ops < n then Some (-1, [])
      else let (r, page_buff) = NFlash_PageRead ops offset d in
           if r \<noteq> 0 then Some (0, replicate n 0xff)
           else do { b \<leftarrow> slice page_buff 0 n; Some (0, b) })"

text \<open>
  \<open>nand_write_page\<close> fills the first \<open>n\<close> bytes of the static buffer and writes a whole page
  of it.
\<close>

definition nand_write_page :: "'d emmc_ops \<Rightarrow> int \<Rightarrow> mem \<Rightarrow> nat \<Rightarrow> 'd nand \<Rightarrow> (int \<times> 'd nand) option" where
  "nand_write_page ops page buf n nd =
     (let offset = page * int (get_page_size ops) in
      if get_page_size ops < n then Some (-1, nd)
      else do { t1 \<leftarrow> blit (nd_temp nd) 0 (replicate n 0xff);
                b \<leftarrow> slice buf 0 n;
                t2 \<leftarrow> blit t1 0 b;
                p \<leftarrow> slice t2 0 (get_page_size ops);
                let (r, d) = NFlash_PageWrite ops offset p (nd_dev nd);
                Some (if r \<noteq> 0 then -1 else 0, \<lparr>nd_dev = d, nd_temp = t2\<rparr>) })"

section \<open>Records on flash\<close>

definition FLASH_TS_MAX_DATA_SIZE :: nat where "FLASH_TS_MAX_DATA_SIZE = 16 * 1024 - 4 * 4"

definition FLASH_TS_MAGIC :: u32 where "FLASH_TS_MAGIC = 0x53542a46"

definition FTS_EIO :: int where "FTS_EIO = 1"

definition FTS_EINVAL :: int where "FTS_EINVAL = 2"

definition FTS_ENOSPC :: int where "FTS_ENOSPC = 3"

definition FTS_ENODEV :: int where "FTS_ENODEV = 4"

text \<open>
  \<open>struct flash_ts\<close> has the fields of the RAM record and a larger array.  Its bytes, and
  the record that given bytes are.
\<close>

definition ts_bytes :: "ts_record \<Rightarrow> mem" where
  "ts_bytes t = le32 (ts_magic t) @ le32 (ts_crc t) @ ts_body t"

definition ts_of_bytes :: "mem \<Rightarrow> ts_record" where
  "ts_of_bytes b = \<lparr>ts_magic = of_le32 (take 4 b), ts_crc = of_le32 (take 4 (drop 4 b)),
     ts_len = of_le32 (take 4 (drop 8 b)), ts_version = of_le32 (take 4 (drop 12 b)), ts_data = drop 16 b\<rparr>"

definition is_power_of_2 :: "u32 \<Rightarrow> bool" where
  "is_power_of_2 n \<longleftrightarrow> 0 < n \<and> n AND (n - 1) = 0"

record flash_ts_priv =
  fp_chunk :: int
  fp_offset :: int
  fp_base :: int
  fp_size :: int
  fp_erasesize :: int
  fp_writesize :: int
  fp_cache :: ts_record

text \<open>The static structure, the pointer \<open>__ts\<close> that enables it, and the device.\<close>

record 'd flash_state =
  fs_priv :: flash_ts_priv
  fs_enabled :: bool
  fs_nand :: "'d nand"

definition flash_block_isbad :: "flash_ts_priv \<Rightarrow> int \<Rightarrow> bool" where
  "flash_block_isbad ts off = is_block_bad (fp_base ts + off)"

definition flash_erase :: "'d emmc_ops \<Rightarrow> flash_ts_priv \<Rightarrow> int \<Rightarrow> 'd nand \<Rightarrow> int \<times> 'd nand" where
  "flash_erase ops ts off nd =
     (let (res, d) = NFlash_Erase ops (fp_base ts + off) (nd_dev nd) in (res, nd\<lparr>nd_dev := d\<rparr>))"

function flash_write_loop :: "'d emmc_ops \<Rightarrow> nat \<Rightarrow> int \<Rightarrow> mem \<Rightarrow> nat \<Rightarrow> 'd nand \<Rightarrow> (int \<times> 'd nand) option" where
  "flash_write_loop ops writesize page buf n nd =
     (if n = 0 then Some (0, nd)
      else if writesize = 0 then None
      else let chunk = min n writesize in
           case nand_write_page ops page buf chunk nd of None \<Rightarrow> None
           | Some (res, nd') \<Rightarrow>
               if res = 0 then flash_write_loop ops writesize (page + 1) (drop chunk buf) (n - chunk) nd'
               else Some (res, nd'))"
  by pat_completeness auto
termination
  by (relation "measure (\<lambda>(ops, writesize, page, buf, n, nd). n)") auto

declare flash_write_loop.simps [simp del]

definition flash_write :: "'d emmc_ops \<Rightarrow> flash_ts_priv \<Rightarrow> int \<Rightarrow> mem \<Rightarrow> nat \<Rightarrow> 'd nand \<Rightarrow> (int \<times> 'd nand) option" where
  "flash_write ops ts off buf n nd =
     (if fp_writesize ts = 0 then None
      else flash_write_loop ops (nat (fp_writesize ts)) ((fp_base ts + off) div fp_writesize ts) buf n nd)"

function flash_read_loop :: "'d emmc_ops \<Rightarrow> nat \<Rightarrow> int \<Rightarrow> nat \<Rightarrow> mem \<Rightarrow> 'd \<Rightarrow> (int \<times> mem) option" where
  "flash_read_loop ops writesize page n acc d =
     (if n = 0 then Some (0, acc)
      else if writesize = 0 then None
      else let chunk = min n writesize in
           case nand_read_page ops page chunk d of None \<Rightarrow> None
           | Some (res, b) \<Rightarrow>
               if res = 0 then flash_read_loop ops writesize (page + 1) (n - chunk) (acc @ b) d
               else Some (res, acc))"
  by pat_completeness auto
termination
  by (relation "measure (\<lambda>(ops, writesize, page, n, acc, d). n)") auto

declare flash_read_loop.simps [simp del]

definition flash_read :: "'d emmc_ops \<Rightarrow> flash_ts_priv \<Rightarrow> int \<Rightarrow> nat \<Rightarrow> 'd \<Rightarrow> (int \<times> mem) option" where
  "flash_read ops ts off n d =
     (if fp_writesize ts = 0 then None
      else flash_read_loop ops (nat (fp_writesize ts)) ((fp_base ts + off) div fp_writesize ts) n [] d)"

section \<open>The store\<close>

text \<open>The search, the checksum and the edits are the statements of \<^verbatim>\<open>ram_ts.c\<close> again.\<close>

definition flash_ts_key_search :: "mem \<Rightarrow> ptr \<Rightarrow> mem \<Rightarrow> nat \<Rightarrow> ptr option" where
  "flash_ts_key_search d p key len = ram_ts_key_search d p key len"

definition flash_ts_crc :: "ts_record \<Rightarrow> u32 option" where
  "flash_ts_crc t = ram_ts_crc t"

text \<open>\<open>__flash_ts_get\<close>.\<close>

definition flash_ts_get_locked :: "'d flash_state \<Rightarrow> flash_ts_priv option option" where
  "flash_ts_get_locked s =
     (if fs_enabled s
      then do { c \<leftarrow> flash_ts_crc (fp_cache (fs_priv s));
                Some (if ts_crc (fp_cache (fs_priv s)) \<noteq> c then None else Some (fs_priv s)) }
      else Some None)"

text \<open>One record is written at \<open>off\<close> and compared with what is read back.\<close>

definition write_verify :: "'d emmc_ops \<Rightarrow> flash_ts_priv \<Rightarrow> int \<Rightarrow> nat \<Rightarrow> 'd nand \<Rightarrow> (bool \<times> 'd nand) option" where
  "write_verify ops ts off count nd =
     do { (w, nd1) \<leftarrow> flash_write ops ts off (ts_bytes (fp_cache ts)) count nd;
          if w \<noteq> 0 then Some (False, nd1)
          else do { (r, b) \<leftarrow> flash_read ops ts off count (nd_dev nd1);
                    if r \<noteq> 0 then Some (False, nd1)
                    else do { c \<leftarrow> memcmp (ts_bytes (fp_cache ts)) (Some 0) b (Some 0) count;
                              Some (c = 0, nd1) } } }"

text \<open>The loop of \<open>flash_ts_commit\<close>; its argument \<open>k\<close> is \<open>max_iterations\<close>.\<close>

fun commit_loop :: "'d emmc_ops \<Rightarrow> flash_ts_priv \<Rightarrow> nat \<Rightarrow> int \<Rightarrow> nat \<Rightarrow> 'd nand \<Rightarrow>
    (int \<times> flash_ts_priv \<times> 'd nand) option" where
  "commit_loop ops ts count off 0 nd = Some (- FTS_EIO, ts, nd)"
| "commit_loop ops ts count off (Suc k) nd =
     (let off = (if fp_size ts \<le> off then 0 else off);
          er = fp_erasesize ts;
          new_block = (off AND (er - 1) = 0) in
      if new_block \<and> flash_block_isbad ts off then commit_loop ops ts count (off + er) k nd
      else let (e, nd1) = (if new_block then flash_erase ops ts off nd else (0, nd)) in
           if e \<noteq> 0 then commit_loop ops ts count (off + er) k nd1
           else do { (ok, nd2) \<leftarrow> write_verify ops ts off count nd1;
                     if \<not> ok then commit_loop ops ts count ((off + er) AND NOT (er - 1)) k nd2
                     else let pre = fp_offset ts AND NOT (er - 1);
                              cur = off AND NOT (er - 1);
                              nd3 = (if new_block \<and> cur \<noteq> pre then snd (flash_erase ops ts pre nd2) else nd2)
                          in Some (0, ts\<lparr>fp_offset := off\<rparr>, nd3) })"

definition flash_ts_commit :: "'d emmc_ops \<Rightarrow> flash_ts_priv \<Rightarrow> 'd nand \<Rightarrow> (int \<times> flash_ts_priv \<times> 'd nand) option" where
  "flash_ts_commit ops ts nd =
     do { let t = fp_cache ts;
          let len = unat (ts_len t);
          let iters = nat (fp_size ts div fp_erasesize ts * 2);
          let count = nat ((16 + int len + fp_chunk ts - 1) AND NOT (fp_chunk ts - 1));
          if fp_erasesize ts = 0 \<or> length (ts_data t) < len then None
          else do { d \<leftarrow> blit (ts_data t) len (replicate (length (ts_data t) - len) 0xff);
                    commit_loop ops (ts\<lparr>fp_cache := t\<lparr>ts_data := d\<rparr>\<rparr>) count
                      (fp_offset ts + fp_chunk ts) iters nd } }"

definition flash_ts_set :: "'d emmc_ops \<Rightarrow> mem \<Rightarrow> mem \<Rightarrow> 'd flash_state \<Rightarrow> (int \<times> 'd flash_state) option" where
  "flash_ts_set ops key val s =
     do { klen \<leftarrow> strlen key (Some 0);
          vlen \<leftarrow> strlen val (Some 0);
          g \<leftarrow> flash_ts_get_locked s;
          case g of None \<Rightarrow> Some (- FTS_EINVAL, s)
          | Some ts \<Rightarrow>
              do { let backup = fp_cache ts;
                   r \<leftarrow> edit_entry (fp_cache ts) key klen val vlen;
                   case r of No_space \<Rightarrow> Some (- FTS_ENOSPC, s)
                   | Unchanged \<Rightarrow> Some (0, s)
                   | Edited t \<Rightarrow>
                       do { let t1 = t\<lparr>ts_version := ts_version t + 1\<rparr>;
                            c \<leftarrow> flash_ts_crc t1;
                            (res, ts', nd) \<leftarrow> flash_ts_commit ops (ts\<lparr>fp_cache := t1\<lparr>ts_crc := c\<rparr>\<rparr>) (fs_nand s);
                            Some (res, s\<lparr>fs_priv := (if res \<noteq> 0 then ts'\<lparr>fp_cache := backup\<rparr> else ts'),
                                         fs_nand := nd\<rparr>) } } }"

definition flash_ts_get :: "mem \<Rightarrow> mem \<Rightarrow> nat \<Rightarrow> 'd flash_state \<Rightarrow> mem option" where
  "flash_ts_get key val n s =
     do { klen \<leftarrow> strlen key (Some 0);
          val1 \<leftarrow> wr val 0 0;
          g \<leftarrow> flash_ts_get_locked s;
          case g of None \<Rightarrow> Some val1
          | Some ts \<Rightarrow>
              do { p \<leftarrow> flash_ts_key_search (ts_data (fp_cache ts)) (Some 0) key klen;
                   case p of None \<Rightarrow> Some val1
                   | Some p \<Rightarrow> copy_out val1 (ts_data (fp_cache ts)) (p + klen + 1) n } }"

definition flash_ts_get_int :: "mem \<Rightarrow> int \<Rightarrow> mem \<Rightarrow> 'd flash_state \<Rightarrow> int option" where
  "flash_ts_get_int key default_value stack s =
     do { val \<leftarrow> flash_ts_get key stack 16 s;
          c \<leftarrow> rd val 0;
          if c = 0 then Some default_value
          else do { (n, _) \<leftarrow> str2ul val 0 0; Some (sint (ucast n :: u32)) } }"

text \<open>\<open>flash_ts_check_header\<close>: the version of a valid record, 0 for anything else.\<close>

definition flash_ts_check_header :: "ts_record \<Rightarrow> u32 option" where
  "flash_ts_check_header t =
     (let len = unat (ts_len t) in
      if ts_magic t = FLASH_TS_MAGIC \<and> ts_version t \<noteq> 0 \<and> len \<noteq> 0 \<and> len \<le> length (ts_data t)
      then do { c \<leftarrow> flash_ts_crc t;
                if ts_crc t \<noteq> c then Some 0
                else do { z1 \<leftarrow> rd (ts_data t) (len - 1);
                          z2 \<leftarrow> (if len = 1 then Some 0 else rd (ts_data t) (len - 2));
                          Some (if z1 = 0 \<and> z2 = 0 then ts_version t else 0) } }
      else Some 0)"

text \<open>
  The scan reads a whole record at every chunk and keeps the newest valid one; a blank
  chunk ends its block.  The first argument bounds the iterations.
\<close>

fun scan_loop :: "nat \<Rightarrow> 'd emmc_ops \<Rightarrow> int \<Rightarrow> flash_ts_priv \<Rightarrow> nat \<Rightarrow> 'd \<Rightarrow> (flash_ts_priv \<times> nat) option" where
  "scan_loop 0 ops off ts good d = None"
| "scan_loop (Suc fuel) ops off ts good d =
     (let er = fp_erasesize ts;
          new_block = (off AND (er - 1) = 0);
          continue = (\<lambda>off ts good. if off < fp_size ts then scan_loop fuel ops off ts good d
                                    else Some (ts, good)) in
      if new_block \<and> flash_block_isbad ts off then continue (off + er) ts good
      else do { let good' = (if new_block then good + 1 else good);
                (res, b) \<leftarrow> flash_read ops ts off (16 + FLASH_TS_MAX_DATA_SIZE) d;
                if res = 0
                then do { version \<leftarrow> flash_ts_check_header (ts_of_bytes b);
                          let ts' = (if ts_version (fp_cache ts) < version
                                     then ts\<lparr>fp_cache := ts_of_bytes b, fp_offset := off\<rparr> else ts);
                          blank \<leftarrow> (if version = 0 then is_blank b (16 + FLASH_TS_MAX_DATA_SIZE) else Some False);
                          continue (if blank then (off + er) AND NOT (er - 1) else off + fp_chunk ts) ts' good' }
                else continue (off + fp_chunk ts) ts good' })"

definition flash_ts_scan :: "'d emmc_ops \<Rightarrow> flash_ts_priv \<Rightarrow> 'd \<Rightarrow> (int \<times> flash_ts_priv) option" where
  "flash_ts_scan ops ts d =
     do { (ts', good_blocks) \<leftarrow> scan_loop (nat (fp_size ts) + 1) ops 0 ts 0 d;
          Some (if good_blocks = 0 then - FTS_ENODEV else 0, ts') }"

definition clp2 :: "u32 \<Rightarrow> u32" where
  "clp2 x = (let x = x - 1; x = x OR drop_bit 1 x; x = x OR drop_bit 2 x; x = x OR drop_bit 4 x;
                 x = x OR drop_bit 8 x; x = x OR drop_bit 16 x in x + 1)"

definition flash_ts_init :: "'d emmc_ops \<Rightarrow> int \<Rightarrow> int \<Rightarrow> 'd flash_state \<Rightarrow> (int \<times> 'd flash_state) option" where
  "flash_ts_init ops start_block blocks s =
     (let writesize = of_nat (get_page_size ops) :: u32;
          erasesize = of_nat (get_block_size ops) :: u32;
          er = uint erasesize;
          chunk = clp2 ((16 + of_nat FLASH_TS_MAX_DATA_SIZE + writesize - 1) AND NOT (writesize - 1));
          ts = fs_priv s in
      if \<not> is_power_of_2 writesize \<or> \<not> is_power_of_2 erasesize then Some (- FTS_ENODEV, s)
      else let ts1 = ts\<lparr>fp_chunk := uint chunk\<rparr> in
           if erasesize < chunk then Some (- FTS_ENODEV, s\<lparr>fs_priv := ts1\<rparr>)
           else do { d0 \<leftarrow> wr (ts_data (fp_cache ts)) 0 0;
                     let t = (fp_cache ts)\<lparr>ts_magic := FLASH_TS_MAGIC, ts_version := 0, ts_len := 1, ts_data := d0\<rparr>;
                     c \<leftarrow> flash_ts_crc t;
                     let ts2 = ts1\<lparr>fp_size := blocks * er, fp_base := start_block * er, fp_erasesize := er,
                                   fp_writesize := uint writesize, fp_offset := blocks * er - uint chunk,
                                   fp_cache := t\<lparr>ts_crc := c\<rparr>\<rparr>;
                     (res, ts3) \<leftarrow> flash_ts_scan ops ts2 (nd_dev (fs_nand s));
                     Some (res, s\<lparr>fs_priv := ts3, fs_enabled := (if res \<noteq> 0 then fs_enabled s else True)\<rparr>) })"

section \<open>Rounding up to a power of two\<close>

definition smear :: "u32 \<Rightarrow> nat \<Rightarrow> u32" where
  "smear x k = x OR drop_bit k x"

lemma bit_smear:
  assumes "\<And>n. bit x n \<longleftrightarrow> (\<exists>j. n \<le> j \<and> j < n + k \<and> bit y j)" and "0 < k"
  shows "bit (smear x k) n \<longleftrightarrow> (\<exists>j. n \<le> j \<and> j < n + (k + k) \<and> bit y j)"
proof -
  have "bit (smear x k) n \<longleftrightarrow> (\<exists>j. n \<le> j \<and> j < n + k \<and> bit y j) \<or> (\<exists>j. k + n \<le> j \<and> j < k + n + k \<and> bit y j)"
    by (simp add: smear_def bit_or_iff bit_drop_bit_eq assms(1))
  also have "\<dots> \<longleftrightarrow> (\<exists>j. n \<le> j \<and> j < n + (k + k) \<and> bit y j)"
  proof -
    have "n \<le> j \<and> j < n + (k + k) \<longleftrightarrow> (n \<le> j \<and> j < n + k) \<or> (k + n \<le> j \<and> j < k + n + k)" for j
      by arith
    then show ?thesis by blast
  qed
  finally show ?thesis .
qed

lemma clp2_smear: "clp2 x = smear (smear (smear (smear (smear (x - 1) 1) 2) 4) 8) 16 + 1"
  by (simp add: clp2_def smear_def Let_def)

lemma bit_smear_all: "bit (smear (smear (smear (smear (smear y 1) 2) 4) 8) 16) n \<longleftrightarrow> (\<exists>j \<ge> n. bit y j)"
proof -
  have s0: "bit y n \<longleftrightarrow> (\<exists>j. n \<le> j \<and> j < n + 1 \<and> bit y j)" for n
    by (auto simp: less_Suc_eq_le dest: antisym)
  have s1: "bit (smear y 1) n \<longleftrightarrow> (\<exists>j. n \<le> j \<and> j < n + 2 \<and> bit y j)" for n
    by (subst bit_smear [OF s0]) simp_all
  have s2: "bit (smear (smear y 1) 2) n \<longleftrightarrow> (\<exists>j. n \<le> j \<and> j < n + 4 \<and> bit y j)" for n
    by (subst bit_smear [OF s1]) simp_all
  have s3: "bit (smear (smear (smear y 1) 2) 4) n \<longleftrightarrow> (\<exists>j. n \<le> j \<and> j < n + 8 \<and> bit y j)" for n
    by (subst bit_smear [OF s2]) simp_all
  have s4: "bit (smear (smear (smear (smear y 1) 2) 4) 8) n \<longleftrightarrow> (\<exists>j. n \<le> j \<and> j < n + 16 \<and> bit y j)" for n
    by (subst bit_smear [OF s3]) simp_all
  have s5: "bit (smear (smear (smear (smear (smear y 1) 2) 4) 8) 16) n \<longleftrightarrow> (\<exists>j. n \<le> j \<and> j < n + 32 \<and> bit y j)" for n
    by (subst bit_smear [OF s4]) simp_all
  have "bit (smear (smear (smear (smear (smear y 1) 2) 4) 8) 16) n \<longleftrightarrow> (\<exists>j. n \<le> j \<and> j < n + 32 \<and> bit y j)"
    by (rule s5)
  also have "\<dots> \<longleftrightarrow> (\<exists>j \<ge> n. bit y j)"
  proof -
    have "bit y j \<Longrightarrow> j < n + 32" for j using bit_imp_le_length [of y j] by auto
    then show ?thesis by blast
  qed
  finally show ?thesis .
qed

lemma smear_mask:
  assumes "unat y < 2 ^ k" and "k = 0 \<or> 2 ^ (k - 1) \<le> unat y"
  shows "smear (smear (smear (smear (smear y 1) 2) 4) 8) 16 = mask k"
proof (rule bit_word_eqI)
  fix n assume n: "n < LENGTH(32)"
  have hi: "\<not> bit y j" if "k \<le> j" for j
  proof -
    have "unat y < 2 ^ j" using assms(1) that by (meson one_le_numeral order_less_le_trans power_increasing)
    then have "\<not> bit (unat y) j" by (simp add: bit_iff_odd)
    then show ?thesis by (simp add: bit_unsigned_iff)
  qed
  have "bit y (k - 1)" if "0 < k"
  proof -
    have "2 ^ (k - 1) \<le> unat y" "unat y < 2 * 2 ^ (k - 1)" using assms that by (simp_all flip: power_Suc)
    then have "unat y div 2 ^ (k - 1) = 1" by (simp add: div_nat_eqI)
    then have "bit (unat y) (k - 1)" by (simp add: bit_iff_odd)
    then show ?thesis by (simp add: bit_unsigned_iff)
  qed
  then have "(\<exists>j \<ge> n. bit y j) \<longleftrightarrow> n < k"
    using hi by (cases "n < k") (auto intro: exI [of _ "k - 1"])
  then show "bit (smear (smear (smear (smear (smear y 1) 2) 4) 8) 16) n = bit (mask k :: u32) n"
    using n unfolding bit_smear_all by (simp add: bit_mask_iff)
qed

text \<open>
  C7: \<open>clp2\<close> rounds up to a power of two: for every value from 1 to \<open>2 ^ 31\<close> the result is the
  least power of two that is not smaller.
\<close>

theorem clp2_least_power:
  assumes "0 < unat x" and "unat x \<le> 2 ^ 31"
  shows "\<exists>k. unat (clp2 x) = 2 ^ k \<and> unat x \<le> 2 ^ k \<and> (\<forall>j. unat x \<le> 2 ^ j \<longrightarrow> k \<le> j)"
proof -
  define k where "k = (LEAST k. unat x \<le> 2 ^ k)"
  have k: "unat x \<le> 2 ^ k" unfolding k_def using assms(2) by (rule LeastI)
  have least: "k \<le> j" if "unat x \<le> 2 ^ j" for j unfolding k_def using that by (rule Least_le)
  have k31: "k \<le> 31" using least assms(2) by blast
  have y: "unat (x - 1) = unat x - 1" using assms(1) by (subst unat_sub_small) auto
  have "2 ^ (k - 1) \<le> unat (x - 1)" if "k \<noteq> 0"
    using least [of "k - 1"] that y by (cases "unat x \<le> 2 ^ (k - 1)") auto
  then have "clp2 x = mask k + 1"
    unfolding clp2_smear by (subst smear_mask [of _ k]) (use y k assms(1) in auto)
  then have "clp2 x = of_nat (2 ^ k)" by (simp add: mask_eq_exp_minus_1)
  moreover have "(2 :: nat) ^ k < 2 ^ 32" using k31 by (intro power_strict_increasing) auto
  ultimately have "unat (clp2 x) = 2 ^ k" by (simp only: unat_u32_of_nat)
  then show ?thesis using k least by blast
qed

theorem clp2_least_power_witness:
  "\<exists>k. unat (clp2 16385) = 2 ^ k \<and> 16385 \<le> (2 :: nat) ^ k \<and> (\<forall>j. 16385 \<le> (2 :: nat) ^ j \<longrightarrow> k \<le> j)"
  using clp2_least_power [of 16385] by simp

end
