(* ===== verification/Flash_Commit.thy ===== *)
theory Flash_Commit
  imports Flash_Ts
begin

text \<open>
  Committing a record of the flash store: the page loops return on every device, a commit
  that reports success has been verified, a setting keeps the cache consistent whatever
  the device does, and on a working device the commit succeeds and the record can be read
  back.  The store provides the interface \<open>env_store\<close>.
\<close>

section \<open>The page loops\<close>

text \<open>
  What the code relies on of the controller driver: a read fills the blocks it is asked
  for.  The geometry: pages of whole 512-byte blocks, one page of static buffer.
\<close>

definition reads_fill :: "'d emmc_ops \<Rightarrow> bool" where
  "reads_fill ops \<longleftrightarrow> (\<forall>addr n d. length (snd (do_emmcread ops addr n d)) = 512 * n) \<and>
     get_page_size ops mod 512 = 0 \<and> 0 < get_page_size ops"

lemma reads_fill_page:
  "reads_fill ops \<Longrightarrow> length (snd (NFlash_PageRead ops addr d)) = get_page_size ops"
  by (auto simp: reads_fill_def NFlash_PageRead_def mod_eq_0_iff_dvd)

lemma nand_read_page_total:
  assumes "reads_fill ops" and "n \<le> get_page_size ops"
  shows "\<exists>b. nand_read_page ops page n d = Some (0, b) \<and> length b = n"
proof (cases "NFlash_PageRead ops (page * int (get_page_size ops)) d")
  case (Pair r pb)
  then have "length pb = get_page_size ops" using reads_fill_page [OF assms(1)] by (metis snd_conv)
  then show ?thesis using Pair assms(2) by (auto simp: nand_read_page_def slice_def)
qed

lemma nand_write_page_total:
  assumes "n \<le> get_page_size ops" and "n \<le> length buf" and "get_page_size ops \<le> length (nd_temp nd)"
  shows "\<exists>r nd'. nand_write_page ops page buf n nd = Some (r, nd') \<and> length (nd_temp nd') = length (nd_temp nd)"
  using assms by (auto simp: nand_write_page_def slice_def blit_def Let_def split: prod.split)

lemma flash_read_loop_total:
  assumes "reads_fill ops" and "0 < ws" and "ws \<le> get_page_size ops"
  shows "\<exists>b. flash_read_loop ops ws page n acc d = Some (0, acc @ b) \<and> length b = n"
proof (induction n arbitrary: page acc rule: less_induct)
  case (less n)
  show ?case
  proof (cases "n = 0")
    case True
    then show ?thesis by (subst flash_read_loop.simps) simp
  next
    case False
    let ?c = "min n ws"
    obtain b where b: "nand_read_page ops page ?c d = Some (0, b)" "length b = ?c"
      using nand_read_page_total [OF assms(1), of ?c page d] assms(3) by (auto simp: min.coboundedI2)
    obtain b' where "flash_read_loop ops ws (page + 1) (n - ?c) (acc @ b) d = Some (0, (acc @ b) @ b')"
      "length b' = n - ?c"
      using less [of "n - ?c" "page + 1" "acc @ b"] False assms(2) by auto
    then show ?thesis using b False assms(2) by (subst flash_read_loop.simps) (auto simp: Let_def)
  qed
qed

lemma flash_write_loop_total:
  assumes "0 < ws" and "ws \<le> get_page_size ops"
    and "n \<le> length buf" and "get_page_size ops \<le> length (nd_temp nd)"
  shows "\<exists>r nd'. flash_write_loop ops ws page buf n nd = Some (r, nd') \<and>
    length (nd_temp nd') = length (nd_temp nd)"
  using assms(3,4)
proof (induction n arbitrary: page buf nd rule: less_induct)
  case (less n)
  show ?case
  proof (cases "n = 0")
    case True
    then show ?thesis by (subst flash_write_loop.simps) simp
  next
    case False
    let ?c = "min n ws"
    obtain r nd1 where w: "nand_write_page ops page buf ?c nd = Some (r, nd1)"
      "length (nd_temp nd1) = length (nd_temp nd)"
      using nand_write_page_total [of ?c ops buf nd page] less.prems assms(2)
      by (auto simp: min.coboundedI1 min.coboundedI2)
    have "\<exists>r nd'. flash_write_loop ops ws (page + 1) (drop ?c buf) (n - ?c) nd1 = Some (r, nd') \<and>
        length (nd_temp nd') = length (nd_temp nd1)"
      using less.prems False assms(1) w(2) by (intro less.IH) auto
    then show ?thesis
      using w False assms(1) by (subst flash_write_loop.simps) (auto simp: Let_def)
  qed
qed

text \<open>The geometry that \<open>flash_ts_init\<close> establishes for pages of at most 16 KiB.\<close>

definition geometry_ok :: "'d emmc_ops \<Rightarrow> flash_ts_priv \<Rightarrow> 'd nand \<Rightarrow> bool" where
  "geometry_ok ops ts nd \<longleftrightarrow> reads_fill ops \<and> fp_chunk ts = 16384 \<and>
     fp_writesize ts = int (get_page_size ops) \<and> fp_erasesize ts \<noteq> 0 \<and>
     length (ts_data (fp_cache ts)) = FLASH_TS_MAX_DATA_SIZE \<and> get_page_size ops \<le> length (nd_temp nd)"

lemma length_ts_bytes [simp]: "length (ts_bytes t) = 16 + length (ts_data t)"
  by (simp add: ts_bytes_def ts_body_def)

lemma write_verify_total:
  assumes "geometry_ok ops ts nd" and "0 < count" and "count \<le> 16 + FLASH_TS_MAX_DATA_SIZE"
  shows "\<exists>ok nd'. write_verify ops ts off count nd = Some (ok, nd') \<and> geometry_ok ops ts nd' \<and>
    (ok \<longrightarrow> flash_read ops ts off count (nd_dev nd') = Some (0, take count (ts_bytes (fp_cache ts))))"
proof -
  note g = assms(1) [unfolded geometry_ok_def]
  have ws: "0 < nat (fp_writesize ts)" "fp_writesize ts \<noteq> 0" "nat (fp_writesize ts) = get_page_size ops"
    using g by (auto simp: reads_fill_def)
  let ?b = "ts_bytes (fp_cache ts)" and ?page = "(fp_base ts + off) div fp_writesize ts"
  have len: "length ?b = 16 + FLASH_TS_MAX_DATA_SIZE" using g by simp
  obtain w nd1 where w: "flash_write ops ts off ?b count nd = Some (w, nd1)"
    "length (nd_temp nd1) = length (nd_temp nd)"
    using flash_write_loop_total [of "nat (fp_writesize ts)" ops count ?b nd ?page] ws g assms(3) len
    by (auto simp: flash_write_def)
  have g1: "geometry_ok ops ts nd1" using g w(2) by (simp add: geometry_ok_def)
  obtain b where b: "flash_read ops ts off count (nd_dev nd1) = Some (0, b)" "length b = count"
    using flash_read_loop_total [of ops "nat (fp_writesize ts)" ?page count "[]" "nd_dev nd1"] ws g
    by (auto simp: flash_read_def)
  obtain c where c: "memcmp ?b (Some 0) b (Some 0) count = Some c" "c = 0 \<longleftrightarrow> take count ?b = take count b"
    using memcmp_slices [of 0 count ?b 0 b] len b(2) assms by auto
  show ?thesis
  proof (cases "w = 0")
    case True
    then have "write_verify ops ts off count nd = Some (c = 0, nd1)" using w b c by (simp add: write_verify_def)
    then show ?thesis using b c g1 by auto
  qed (use w g1 in \<open>auto simp: write_verify_def\<close>)
qed

section \<open>Committing a record\<close>

text \<open>
  What a commit that returns 0 has done: the record was read back at the new offset, and
  afterwards at most the block of the previous record was erased.
\<close>

definition committed :: "'d emmc_ops \<Rightarrow> flash_ts_priv \<Rightarrow> nat \<Rightarrow> flash_ts_priv \<Rightarrow> 'd nand \<Rightarrow> bool" where
  "committed ops ts count ts' nd' \<longleftrightarrow>
     (\<exists>nd2. flash_read ops ts (fp_offset ts') count (nd_dev nd2) = Some (0, take count (ts_bytes (fp_cache ts))) \<and>
       (nd' = nd2 \<or>
        (let pre = fp_offset ts AND NOT (fp_erasesize ts - 1) in
         fp_offset ts' AND (fp_erasesize ts - 1) = 0 \<and>
         fp_offset ts' AND NOT (fp_erasesize ts - 1) \<noteq> pre \<and> nd' = snd (flash_erase ops ts pre nd2))))"

lemma geometry_erase: "geometry_ok ops ts nd \<Longrightarrow> geometry_ok ops ts (snd (flash_erase ops ts off nd))"
  by (auto simp: geometry_ok_def flash_erase_def split: prod.split)

lemma commit_loop_spec:
  assumes "geometry_ok ops ts nd" and "0 < count" and "count \<le> 16 + FLASH_TS_MAX_DATA_SIZE"
  shows "\<exists>res ts' nd'. commit_loop ops ts count off k nd = Some (res, ts', nd') \<and> geometry_ok ops ts nd' \<and>
    (if res = 0 then (\<exists>o'. ts' = ts\<lparr>fp_offset := o'\<rparr>) \<and> committed ops ts count ts' nd'
     else res = - FTS_EIO \<and> ts' = ts)"
  using assms(1)
proof (induction k arbitrary: off nd)
  case 0
  then show ?case by (simp add: FTS_EIO_def)
next
  case (Suc k)
  define o1 where "o1 = (if fp_size ts \<le> off then 0 else off)"
  let ?er = "fp_erasesize ts"
  let ?new = "o1 AND (?er - 1) = 0"
  obtain e nd1 where e: "(if ?new then flash_erase ops ts o1 nd else (0, nd)) = (e, nd1)" by fastforce
  have g1: "geometry_ok ops ts nd1"
    using e Suc.prems geometry_erase [of ops ts nd o1] by (auto split: if_splits)
  obtain ok nd2 where w: "write_verify ops ts o1 count nd1 = Some (ok, nd2)" "geometry_ok ops ts nd2"
    "ok \<longrightarrow> flash_read ops ts o1 count (nd_dev nd2) = Some (0, take count (ts_bytes (fp_cache ts)))"
    using write_verify_total [OF g1 assms(2,3)] by blast
  have step: "commit_loop ops ts count off (Suc k) nd =
    (if e \<noteq> 0 then commit_loop ops ts count (o1 + ?er) k nd1
     else if \<not> ok then commit_loop ops ts count ((o1 + ?er) AND NOT (?er - 1)) k nd2
     else let pre = fp_offset ts AND NOT (?er - 1); cur = o1 AND NOT (?er - 1);
              nd3 = (if ?new \<and> cur \<noteq> pre then snd (flash_erase ops ts pre nd2) else nd2)
          in Some (0, ts\<lparr>fp_offset := o1\<rparr>, nd3))"
    by (simp only: commit_loop.simps Let_def flash_block_isbad_def is_block_bad_def o1_def [symmetric] e
        simp_thms if_False prod.case w(1) bind.simps)
  show ?case
  proof (cases "e = 0 \<and> ok")
    case True
    have g3: "geometry_ok ops ts (if b then snd (flash_erase ops ts pre nd2) else nd2)" for b pre
      using w(2) geometry_erase by auto
    show ?thesis using step True w(3) g3 by (auto simp: Let_def committed_def)
  next
    case False
    then show ?thesis using step Suc.IH [OF g1] Suc.IH [OF w(2)] by auto
  qed
qed

text \<open>Padding the unused part of the array changes neither the entries nor the checksum.\<close>

definition pad :: "ts_record \<Rightarrow> ts_record" where
  "pad t = t\<lparr>ts_data := take (unat (ts_len t)) (ts_data t) @
     replicate (length (ts_data t) - unat (ts_len t)) 0xff\<rparr>"

lemma pad_repr: "ts_repr t es \<Longrightarrow> ts_repr (pad t) es"
  by (auto simp: ts_repr_def pad_def)

lemma pad_crc: "unat (ts_len t) \<le> length (ts_data t) \<Longrightarrow> ram_ts_crc (pad t) = ram_ts_crc t"
  by (simp add: ram_ts_crc_def slice_def ts_body_def pad_def)

lemma pad_simps [simp]:
  "ts_crc (pad t) = ts_crc t" "ts_version (pad t) = ts_version t" "ts_magic (pad t) = ts_magic t"
  "ts_len (pad t) = ts_len t"
  "unat (ts_len t) \<le> length (ts_data t) \<Longrightarrow> length (ts_data (pad t)) = length (ts_data t)"
  by (simp_all add: pad_def)

text \<open>The number of bytes written: the record rounded up to the chunk, here always one chunk.\<close>

lemma one_chunk:
  assumes "n \<le> 16368"
  shows "nat ((16 + int n + 16384 - 1) AND NOT (16384 - 1)) = 16384"
proof -
  have "(16384 - 1 :: int) = mask 14" by (simp add: mask_eq_exp_minus_1)
  then have "(16 + int n + 16384 - 1) AND NOT (16384 - 1) = (16 + int n + 16384 - 1) div 2 ^ 14 * 2 ^ 14"
    by (simp only: int_and_not_mask)
  also have "(16 + int n + 16384 - 1) div 2 ^ 14 = 1"
    using assms by (intro int_div_pos_eq [where r = "15 + int n"]) auto
  finally show ?thesis by simp
qed

lemma flash_ts_commit_eq:
  assumes "geometry_ok ops ts nd" and "0 < unat (ts_len (fp_cache ts))"
    and "unat (ts_len (fp_cache ts)) \<le> FLASH_TS_MAX_DATA_SIZE"
  shows "flash_ts_commit ops ts nd =
    commit_loop ops (ts\<lparr>fp_cache := pad (fp_cache ts)\<rparr>) 16384 (fp_offset ts + fp_chunk ts)
      (nat (fp_size ts div fp_erasesize ts * 2)) nd"
proof -
  let ?t = "fp_cache ts"
  have len: "length (ts_data ?t) = FLASH_TS_MAX_DATA_SIZE" "fp_chunk ts = 16384" "fp_erasesize ts \<noteq> 0"
    using assms(1) by (auto simp: geometry_ok_def)
  have "nat ((16 + int (unat (ts_len ?t)) + fp_chunk ts - 1) AND NOT (fp_chunk ts - 1)) = 16384"
    unfolding len(2) using assms(3) by (intro one_chunk) (simp add: FLASH_TS_MAX_DATA_SIZE_def)
  moreover have "blit (ts_data ?t) (unat (ts_len ?t)) (replicate (length (ts_data ?t) - unat (ts_len ?t)) 0xff) =
      Some (ts_data (pad ?t))"
    using assms(3) len by (simp add: blit_def pad_def)
  moreover have pe: "?t\<lparr>ts_data := ts_data (pad ?t)\<rparr> = pad ?t" by (simp add: pad_def)
  ultimately show ?thesis using len assms(3) by (simp add: flash_ts_commit_def Let_def pe)
qed

definition flash_holds :: "'d emmc_ops \<Rightarrow> 'd flash_state \<Rightarrow> u8 list list \<Rightarrow> bool" where
  "flash_holds ops s es \<longleftrightarrow> fs_enabled s \<and> geometry_ok ops (fs_priv s) (fs_nand s) \<and>
     ts_repr (fp_cache (fs_priv s)) es \<and>
     ram_ts_crc (fp_cache (fs_priv s)) = Some (ts_crc (fp_cache (fs_priv s)))"

text \<open>
  A setting on a consistent store: no space, nothing to do, a failed commit with the cache
  restored, or a committed new version.
\<close>

lemma flash_ts_set_spec:
  assumes "flash_holds ops s es" and "cstr key 0 k" and "cstr val 0 v" and "length k + length v < 2 ^ 32"
  shows "\<exists>r s'. flash_ts_set ops key val s = Some (r, s') \<and>
    (if r = 0 then flash_holds ops s' (es_set k v es)
     else flash_holds ops s' es \<and> fs_priv s' = fs_priv s \<and>
       (r = - FTS_EIO \<or> r = - FTS_ENOSPC \<and> s' = s \<and> FLASH_TS_MAX_DATA_SIZE < length (flat (es_set k v es)) + 1))"
proof -
  let ?ts = "fs_priv s" and ?es = "es_set k v es"
  have h: "fs_enabled s" "geometry_ok ops ?ts (fs_nand s)" "ts_repr (fp_cache ?ts) es"
    "ram_ts_crc (fp_cache ?ts) = Some (ts_crc (fp_cache ?ts))" "length (ts_data (fp_cache ?ts)) = FLASH_TS_MAX_DATA_SIZE"
    using assms(1) by (auto simp: flash_holds_def geometry_ok_def)
  have get: "flash_ts_get_locked s = Some (Some ?ts)" using h by (simp add: flash_ts_get_locked_def flash_ts_crc_def)
  obtain e where e: "edit_entry (fp_cache ?ts) key (length k) val (length v) = Some e" "edit_ok (fp_cache ?ts) es ?es e"
    using edit_entry_spec [OF h(3) assms(2-4)] by blast
  show ?thesis
  proof (cases e)
    case (Edited t)
    have t: "ts_repr t ?es" "length (ts_data t) = FLASH_TS_MAX_DATA_SIZE"
      using e(2) Edited h(5) by (auto simp: edit_ok_def)
    let ?v = "t\<lparr>ts_version := ts_version t + 1\<rparr>"
    have v: "ts_repr ?v ?es" using t(1) ts_repr_cong [of ?v t] by simp
    obtain c where c: "ram_ts_crc ?v = Some c" using ts_repr_crc [OF v] by blast
    define t1 where "t1 = ?v\<lparr>ts_crc := c\<rparr>"
    have t1: "ts_repr t1 ?es" "ram_ts_crc t1 = Some (ts_crc t1)" "length (ts_data t1) = FLASH_TS_MAX_DATA_SIZE"
      using v c t(2) ts_repr_cong [of t1 ?v] by (simp_all add: t1_def)
    have l1: "0 < unat (ts_len t1)" "unat (ts_len t1) \<le> length (ts_data t1)" using t1(1) by (auto simp: ts_repr_def)
    let ?ts1 = "?ts\<lparr>fp_cache := t1\<rparr>" and ?tp = "?ts\<lparr>fp_cache := pad t1\<rparr>"
    have g: "geometry_ok ops ?ts1 (fs_nand s)" "geometry_ok ops ?tp (fs_nand s)"
      using h(2) t1(3) l1(2) by (auto simp: geometry_ok_def)
    have eq: "flash_ts_commit ops ?ts1 (fs_nand s) =
        commit_loop ops ?tp 16384 (fp_offset ?ts + fp_chunk ?ts) (nat (fp_size ?ts div fp_erasesize ?ts * 2)) (fs_nand s)"
      using flash_ts_commit_eq [OF g(1)] l1 t1(3) by simp
    obtain res ts' nd' where r: "flash_ts_commit ops ?ts1 (fs_nand s) = Some (res, ts', nd')"
      "geometry_ok ops ?tp nd'" "res = 0 \<Longrightarrow> \<exists>o'. ts' = ?tp\<lparr>fp_offset := o'\<rparr>"
      "res \<noteq> 0 \<Longrightarrow> res = - FTS_EIO \<and> ts' = ?tp"
      using commit_loop_spec [OF g(2), of 16384 "fp_offset ?ts + fp_chunk ?ts"
          "nat (fp_size ?ts div fp_erasesize ?ts * 2)"]
      unfolding eq by (auto simp: FLASH_TS_MAX_DATA_SIZE_def split: if_splits)
    let ?s' = "s\<lparr>fs_priv := (if res \<noteq> 0 then ts'\<lparr>fp_cache := fp_cache ?ts\<rparr> else ts'), fs_nand := nd'\<rparr>"
    have "flash_ts_set ops key val s = Some (res, ?s')"
      using get e Edited c r(1) assms(2,3) by (simp add: flash_ts_set_def flash_ts_crc_def t1_def)
    moreover have "flash_holds ops ?s' ?es" if z: "res = 0"
    proof -
      obtain o' where o': "ts' = ?tp\<lparr>fp_offset := o'\<rparr>" using r(3) z by blast
      then have "geometry_ok ops ts' nd'" "fp_cache ts' = pad t1" using r(2) by (simp_all add: geometry_ok_def)
      then show ?thesis using z h(1) t1 pad_repr [OF t1(1)] pad_crc [OF l1(2)] by (simp add: flash_holds_def)
    qed
    moreover have "flash_holds ops ?s' es \<and> fs_priv ?s' = ?ts" if "res \<noteq> 0"
      using that r(2,4) h by (auto simp: flash_holds_def geometry_ok_def)
    ultimately show ?thesis using r(4) by auto
  qed (use get e assms h in \<open>auto simp: flash_ts_set_def edit_ok_def ts_repr_def FTS_ENOSPC_def\<close>)
qed

text \<open>A lookup is the lookup of the RAM store on the cache.\<close>

lemma flash_ts_get_ram:
  "flash_ts_get key buf n s = ram_ts_get key buf n (if fs_enabled s then Some (fp_cache (fs_priv s)) else None)"
proof -
  have "ram_ts_get_locked (if fs_enabled s then Some (fp_cache (fs_priv s)) else None) =
      map_option (map_option fp_cache) (flash_ts_get_locked s)"
    by (cases "ram_ts_crc (fp_cache (fs_priv s))")
      (auto simp: ram_ts_get_locked_def flash_ts_get_locked_def flash_ts_crc_def)
  then show ?thesis
    unfolding flash_ts_get_def ram_ts_get_def flash_ts_key_search_def
    by (cases "strlen key (Some 0)"; cases "wr buf 0 0"; cases "flash_ts_get_locked s")
      (auto split: option.split)
qed

lemma flash_ts_get_spec:
  assumes "flash_holds ops s es" and "cstr key 0 k" and "n \<le> length buf" and "buf \<noteq> []"
  shows "flash_ts_get key buf n s = Some (get_result buf n (es_get k es))"
  unfolding flash_ts_get_ram
  by (rule ram_ts_get_repr [where t = "fp_cache (fs_priv s)"])
    (use assms in \<open>auto simp: flash_holds_def ram_ts_get_locked_def\<close>)

interpretation flash: env_store "flash_holds ops" "flash_ts_set ops" flash_ts_get
  for ops :: "'d emmc_ops"
proof
  fix s :: "'d flash_state" and es key k val v
  assume "flash_holds ops s es" "cstr key 0 k" "cstr val 0 v" "length k + length v < 2 ^ 32"
  from flash_ts_set_spec [OF this]
  show "\<exists>r s'. flash_ts_set ops key val s = Some (r, s') \<and> flash_holds ops s' (if r = 0 then es_set k v es else es)"
    by (metis (full_types))
qed (rule flash_ts_get_spec)

section \<open>Commits on a working device\<close>

text \<open>
  A controller that works: writes and erasures succeed, a read returns what was written,
  and neither touches the bytes outside its range.
\<close>

definition apart :: "int \<Rightarrow> int \<Rightarrow> int \<Rightarrow> int \<Rightarrow> bool" where
  "apart a m b n \<longleftrightarrow> a + m \<le> b \<or> b + n \<le> a"

definition block_device :: "'d emmc_ops \<Rightarrow> bool" where
  "block_device ops \<longleftrightarrow> reads_fill ops \<and>
     (\<forall>a n b d r d'. length b = 512 * n \<longrightarrow> do_emmcwrite ops a n b d = (r, d') \<longrightarrow>
        r = 0 \<and> do_emmcread ops a n d' = (0, b) \<and>
        (\<forall>a' n'. apart a (int (512 * n)) a' (int (512 * n')) \<longrightarrow>
           do_emmcread ops a' n' d' = do_emmcread ops a' n' d)) \<and>
     (\<forall>a len d r d'. do_emmcerase ops a len d = (r, d') \<longrightarrow>
        r = 0 \<and> (\<forall>a' n'. apart a len a' (int (512 * n')) \<longrightarrow>
           do_emmcread ops a' n' d' = do_emmcread ops a' n' d))"

lemma block_device_write:
  assumes "block_device ops" and "length b = 512 * n" and "do_emmcwrite ops a n b d = (r, d')"
  shows "r = 0" and "do_emmcread ops a n d' = (0, b)"
    and "apart a (int (512 * n)) a' (int (512 * n')) \<Longrightarrow> do_emmcread ops a' n' d' = do_emmcread ops a' n' d"
  using assms unfolding block_device_def by blast+

lemma block_device_erase:
  assumes "block_device ops" and "do_emmcerase ops a len d = (r, d')"
  shows "r = 0" and "apart a len a' (int (512 * n')) \<Longrightarrow> do_emmcread ops a' n' d' = do_emmcread ops a' n' d"
  using assms unfolding block_device_def by blast+

definition page_holds :: "'d emmc_ops \<Rightarrow> int \<Rightarrow> mem \<Rightarrow> 'd \<Rightarrow> bool" where
  "page_holds ops page b d \<longleftrightarrow>
     do_emmcread ops (page * int (get_page_size ops)) (get_page_size ops div 512) d = (0, b)"

lemma page_bytes: "reads_fill ops \<Longrightarrow> 512 * (get_page_size ops div 512) = get_page_size ops"
  by (auto simp: reads_fill_def)

lemma nand_write_page_works:
  assumes "block_device ops" and "get_page_size ops \<le> length buf" and "get_page_size ops \<le> length (nd_temp nd)"
  shows "\<exists>nd'. nand_write_page ops page buf (get_page_size ops) nd = Some (0, nd') \<and>
    length (nd_temp nd') = length (nd_temp nd) \<and> page_holds ops page (take (get_page_size ops) buf) (nd_dev nd') \<and>
    (\<forall>p b. p \<noteq> page \<longrightarrow> page_holds ops p b (nd_dev nd') = page_holds ops p b (nd_dev nd))"
proof -
  let ?ps = "get_page_size ops" and ?n = "get_page_size ops div 512"
  let ?b = "take ?ps buf"
  have n: "512 * ?n = ?ps" using assms(1) page_bytes by (auto simp: block_device_def)
  obtain r d' where w: "do_emmcwrite ops (page * int ?ps) ?n ?b (nd_dev nd) = (r, d')" by fastforce
  have "length ?b = 512 * ?n" using assms(2) n by simp
  note d' = block_device_write [OF assms(1) this w]
  have "apart (page * int ?ps) (int (512 * ?n)) (p * int ?ps) (int (512 * ?n))" if "p \<noteq> page" for p
  proof -
    have "page + 1 \<le> p \<or> p + 1 \<le> page" using that by arith
    then have "(page + 1) * int ?ps \<le> p * int ?ps \<or> (p + 1) * int ?ps \<le> page * int ?ps"
      by (auto intro: mult_right_mono)
    then show ?thesis by (simp add: apart_def n algebra_simps)
  qed
  then have "\<forall>p b. p \<noteq> page \<longrightarrow> page_holds ops p b d' = page_holds ops p b (nd_dev nd)"
    using d'(3) by (simp add: page_holds_def)
  moreover have "nand_write_page ops page buf ?ps nd =
      Some (0, \<lparr>nd_dev = d', nd_temp = ?b @ drop ?ps (nd_temp nd)\<rparr>)"
    using assms(2,3) w d'(1) by (simp add: nand_write_page_def slice_def blit_def NFlash_PageWrite_def)
  ultimately show ?thesis using d'(2) assms(2,3) by (auto simp: page_holds_def)
qed

lemma flash_write_loop_works:
  assumes "block_device ops" and "m * get_page_size ops \<le> length buf" and "get_page_size ops \<le> length (nd_temp nd)"
  shows "\<exists>nd'. flash_write_loop ops (get_page_size ops) page buf (m * get_page_size ops) nd = Some (0, nd') \<and>
    length (nd_temp nd') = length (nd_temp nd) \<and>
    (\<forall>i < m. page_holds ops (page + int i) (take (get_page_size ops) (drop (i * get_page_size ops) buf)) (nd_dev nd')) \<and>
    (\<forall>p b. (p < page \<or> page + int m \<le> p) \<longrightarrow> page_holds ops p b (nd_dev nd') = page_holds ops p b (nd_dev nd))"
  using assms(2,3)
proof (induction m arbitrary: page buf nd)
  case 0
  then show ?case by (subst flash_write_loop.simps) simp
next
  case (Suc m)
  let ?ps = "get_page_size ops"
  have ps: "0 < ?ps" using assms(1) by (auto simp: block_device_def reads_fill_def)
  obtain nd1 where nd1: "nand_write_page ops page buf ?ps nd = Some (0, nd1)"
    "length (nd_temp nd1) = length (nd_temp nd)" "page_holds ops page (take ?ps buf) (nd_dev nd1)"
    "\<forall>p b. p \<noteq> page \<longrightarrow> page_holds ops p b (nd_dev nd1) = page_holds ops p b (nd_dev nd)"
    using nand_write_page_works [OF assms(1), of buf nd page] Suc.prems by auto
  have "m * ?ps \<le> length (drop ?ps buf)" "?ps \<le> length (nd_temp nd1)" using Suc.prems nd1(2) by auto
  from Suc.IH [OF this, of "page + 1"]
  obtain nd2 where nd2: "flash_write_loop ops ?ps (page + 1) (drop ?ps buf) (m * ?ps) nd1 = Some (0, nd2)"
    "length (nd_temp nd2) = length (nd_temp nd1)"
    "\<forall>i < m. page_holds ops (page + 1 + int i) (take ?ps (drop (i * ?ps) (drop ?ps buf))) (nd_dev nd2)"
    "\<forall>p b. (p < page + 1 \<or> page + 1 + int m \<le> p) \<longrightarrow> page_holds ops p b (nd_dev nd2) = page_holds ops p b (nd_dev nd1)"
    by blast
  have "flash_write_loop ops ?ps page buf (Suc m * ?ps) nd = Some (0, nd2)"
    using nd1(1) nd2(1) ps by (subst flash_write_loop.simps) (simp add: Let_def)
  moreover have "page_holds ops (page + int i) (take ?ps (drop (i * ?ps) buf)) (nd_dev nd2)" if "i < Suc m" for i
  proof (cases i)
    case 0
    then show ?thesis using nd1(3) nd2(4) by simp
  next
    case (Suc j)
    then show ?thesis using nd2(3) that by (simp add: algebra_simps)
  qed
  moreover have "page_holds ops p b (nd_dev nd2) = page_holds ops p b (nd_dev nd)"
    if "p < page \<or> page + int (Suc m) \<le> p" for p b
    using that nd1(4) nd2(4) by auto
  ultimately show ?case using nd1(2) nd2(2) by (intro exI [of _ nd2]) auto
qed

lemma flash_read_loop_pages:
  assumes "reads_fill ops" and "m * get_page_size ops \<le> length buf"
    and "\<forall>i < m. page_holds ops (page + int i) (take (get_page_size ops) (drop (i * get_page_size ops) buf)) d"
  shows "flash_read_loop ops (get_page_size ops) page (m * get_page_size ops) acc d =
    Some (0, acc @ take (m * get_page_size ops) buf)"
  using assms(2,3)
proof (induction m arbitrary: page buf acc)
  case 0
  then show ?case by (subst flash_read_loop.simps) simp
next
  case (Suc m)
  let ?ps = "get_page_size ops"
  have ps: "0 < ?ps" using assms(1) by (auto simp: reads_fill_def)
  have "page_holds ops page (take ?ps buf) d" using Suc.prems(2) by auto
  then have "nand_read_page ops page ?ps d = Some (0, take ?ps buf)"
    using Suc.prems(1) by (simp add: page_holds_def nand_read_page_def NFlash_PageRead_def slice_def)
  moreover have "flash_read_loop ops ?ps (page + 1) (m * ?ps) (acc @ take ?ps buf) d =
      Some (0, (acc @ take ?ps buf) @ take (m * ?ps) (drop ?ps buf))"
  proof (rule Suc.IH)
    show "\<forall>i < m. page_holds ops (page + 1 + int i) (take ?ps (drop (i * ?ps) (drop ?ps buf))) d"
    proof (intro allI impI)
      fix i assume "i < m"
      then show "page_holds ops (page + 1 + int i) (take ?ps (drop (i * ?ps) (drop ?ps buf))) d"
        using Suc.prems(2) [rule_format, of "Suc i"] by (simp add: algebra_simps)
    qed
  qed (use Suc.prems in simp)
  ultimately show ?case
    using ps by (subst flash_read_loop.simps) (simp add: Let_def take_add)
qed

text \<open>The partition: power-of-two blocks of at least one chunk, block-aligned, with whole pages per chunk.\<close>

definition layout_ok :: "'d emmc_ops \<Rightarrow> flash_ts_priv \<Rightarrow> bool" where
  "layout_ok ops ts \<longleftrightarrow>
     (\<exists>e. 14 \<le> e \<and> fp_erasesize ts = 2 ^ e \<and> int (get_block_size ops) = 2 ^ e \<and>
       get_page_size ops dvd 16384 \<and> 2 ^ e dvd fp_base ts \<and> 2 ^ e \<le> fp_size ts)"

lemma write_verify_works:
  assumes "block_device ops" and "geometry_ok ops ts nd" and "get_page_size ops dvd 16384"
  shows "\<exists>nd'. write_verify ops ts off 16384 nd = Some (True, nd') \<and> geometry_ok ops ts nd' \<and>
    (\<forall>i < 16384 div get_page_size ops. page_holds ops ((fp_base ts + off) div fp_writesize ts + int i)
       (take (get_page_size ops) (drop (i * get_page_size ops) (ts_bytes (fp_cache ts)))) (nd_dev nd'))"
proof -
  note g = assms(2) [unfolded geometry_ok_def]
  let ?ps = "get_page_size ops" and ?b = "ts_bytes (fp_cache ts)"
  let ?page = "(fp_base ts + off) div fp_writesize ts" and ?m = "16384 div get_page_size ops"
  have m: "?m * ?ps = 16384" using assms(3) by simp
  have ps: "0 < ?ps" "fp_writesize ts = int ?ps" using g by (auto simp: reads_fill_def)
  have len: "length ?b = 16384" using g by (simp add: FLASH_TS_MAX_DATA_SIZE_def)
  have pre: "?m * ?ps \<le> length ?b" "?ps \<le> length (nd_temp nd)" using m len g by auto
  from flash_write_loop_works [OF assms(1) pre, of ?page]
  obtain nd1 where nd1: "flash_write ops ts off ?b 16384 nd = Some (0, nd1)"
    "length (nd_temp nd1) = length (nd_temp nd)"
    "\<forall>i < ?m. page_holds ops (?page + int i) (take ?ps (drop (i * ?ps) ?b)) (nd_dev nd1)"
    using m ps by (auto simp: flash_write_def)
  have "flash_read ops ts off 16384 (nd_dev nd1) = Some (0, take 16384 ?b)"
    using flash_read_loop_pages [OF _ pre(1) nd1(3), of "[]"] g m ps by (simp add: flash_read_def)
  moreover obtain c where "memcmp ?b (Some 0) ?b (Some 0) 16384 = Some c" "c = 0"
    using memcmp_slices [of 0 16384 ?b 0 ?b] len by auto
  ultimately have "write_verify ops ts off 16384 nd = Some (True, nd1)"
    using nd1(1) len by (simp add: write_verify_def)
  then show ?thesis using nd1 g by (auto simp: geometry_ok_def)
qed

lemma page_holds_erase:
  assumes "block_device ops" and "apart (fp_base ts + pre) (int (get_block_size ops)) (p * int (get_page_size ops)) (int (get_page_size ops))"
  shows "page_holds ops p b (nd_dev (snd (flash_erase ops ts pre nd))) = page_holds ops p b (nd_dev nd)"
proof -
  obtain r d' where e: "do_emmcerase ops (fp_base ts + pre) (int (get_block_size ops)) (nd_dev nd) = (r, d')"
    by fastforce
  have "512 * (get_page_size ops div 512) = get_page_size ops"
    using assms(1) page_bytes by (auto simp: block_device_def)
  then show ?thesis
    using block_device_erase(2) [OF assms(1) e, of "p * int (get_page_size ops)" "get_page_size ops div 512"] assms(2) e
    by (simp add: page_holds_def flash_erase_def NFlash_Erase_def)
qed

text \<open>A record at the start of a block does not overlap another block.\<close>

lemma block_apart:
  assumes "off AND (2 ^ e - 1) = (0 :: int)" and "off AND NOT (2 ^ e - 1) \<noteq> pre" and "pre = x AND NOT (2 ^ e - 1)"
    and "0 \<le> a" and "a + n \<le> 2 ^ e" and "0 \<le> n"
  shows "apart (base + pre) (2 ^ e) (base + off + a) n"
proof -
  have m: "(2 :: int) ^ e - 1 = mask e" by (simp add: mask_eq_exp_minus_1)
  have "off mod 2 ^ e = 0" using assms(1) by (simp add: m flip: take_bit_eq_mask take_bit_eq_mod)
  then obtain q where q: "off = q * 2 ^ e" by (auto simp: mod_eq_0_iff_dvd mult.commute elim: dvdE)
  obtain r where r: "pre = r * 2 ^ e" using assms(3) by (simp add: m int_and_not_mask)
  have "q \<noteq> r" using assms(2) q r by (simp add: m int_and_not_mask)
  then have "r + 1 \<le> q \<or> q + 1 \<le> r" by arith
  then have "(r + 1) * 2 ^ e \<le> q * 2 ^ e \<or> (q + 1) * 2 ^ e \<le> r * 2 ^ e"
    by (auto intro: mult_right_mono)
  then show ?thesis using assms(4,5,6) by (auto simp: apart_def q r algebra_simps)
qed

lemma ts_of_bytes_bytes: "ts_of_bytes (ts_bytes t) = t"
proof -
  have "le32 a @ b = le32 a @ b \<Longrightarrow> take 4 (le32 a @ b) = le32 a \<and> drop 4 (le32 a @ b) = b" for a b by simp
  then show ?thesis by (simp add: ts_of_bytes_def ts_bytes_def ts_body_def flip: drop_drop)
qed

text \<open>A consistent record passes the header check.\<close>

lemma flat_last: "es \<noteq> [] \<Longrightarrow> \<exists>x. flat es = x @ [0]"
  by (induction es rule: rev_induct) auto

lemma check_header_consistent:
  assumes "ts_repr t es" and "ram_ts_crc t = Some (ts_crc t)" and "ts_magic t = FLASH_TS_MAGIC" and "ts_version t \<noteq> 0"
  shows "flash_ts_check_header t = Some (ts_version t)"
proof -
  obtain R where R: "ts_data t = flat es @ 0 # R" by (rule ts_repr_data [OF assms(1)])
  have l: "unat (ts_len t) = length (flat es) + 1" using assms(1) by (simp add: ts_repr_def)
  have "rd (ts_data t) (unat (ts_len t) - 1) = Some 0" by (simp add: R l rd_def nth_append)
  moreover have "rd (ts_data t) (unat (ts_len t) - 2) = Some 0" if n: "unat (ts_len t) \<noteq> 1"
  proof -
    obtain x where "flat es = x @ [0]" using flat_last [of es] n l by (cases "es = []") auto
    then show ?thesis by (simp add: R l rd_def nth_append)
  qed
  ultimately show ?thesis
    using assms l by (simp add: flash_ts_check_header_def Let_def flash_ts_crc_def ts_repr_def)
qed

lemma record_page_apart:
  assumes "off AND (2 ^ e - 1) = (0 :: int)" and "off AND NOT (2 ^ e - 1) \<noteq> pre" and "pre = x AND NOT (2 ^ e - 1)"
    and "2 ^ e dvd base" and "ps dvd 16384" and "14 \<le> e" and "i < 16384 div ps"
  shows "apart (base + pre) (2 ^ e) (((base + off) div int ps + int i) * int ps) (int ps)"
proof -
  have "2 ^ e dvd off"
    using assms(1) by (simp add: mask_eq_exp_minus_1 [symmetric] dvd_eq_mod_eq_0 flip: take_bit_eq_mask take_bit_eq_mod)
  moreover have "int ps dvd 2 ^ e"
  proof -
    have "int ps dvd int 16384" using assms(5) by (simp only: of_nat_dvd_iff)
    also have "int 16384 dvd 2 ^ e" using assms(6) le_imp_power_dvd [of 14 e "2 :: int"] by simp
    finally show ?thesis .
  qed
  ultimately have "int ps dvd base + off" using assms(4) by (meson dvd_add dvd_trans)
  then have p: "((base + off) div int ps + int i) * int ps = base + off + int (i * ps)"
    by (simp add: distrib_right)
  have "(i + 1) * ps \<le> 16384 div ps * ps" using assms(7) by (intro mult_le_mono1) simp
  then have "int (i * ps) + int ps \<le> 2 ^ 14" using assms(5) by (simp add: algebra_simps flip: of_nat_add of_nat_mult)
  also have "(2 :: int) ^ 14 \<le> 2 ^ e" using assms(6) by (intro power_increasing) auto
  finally show ?thesis unfolding p using assms(1-3) by (intro block_apart [where x = x]) auto
qed

lemma commit_loop_works:
  assumes "block_device ops" and "geometry_ok ops ts nd" and "layout_ok ops ts"
  shows "\<exists>o' nd'. commit_loop ops ts 16384 off (Suc k) nd = Some (0, ts\<lparr>fp_offset := o'\<rparr>, nd') \<and>
    o' = (if fp_size ts \<le> off then 0 else off) \<and> geometry_ok ops ts nd' \<and> flash_read ops ts o' 16384 (nd_dev nd') = Some (0, ts_bytes (fp_cache ts))"
proof -
  obtain e where e: "14 \<le> e" "fp_erasesize ts = 2 ^ e" "int (get_block_size ops) = 2 ^ e"
    "get_page_size ops dvd 16384" "2 ^ e dvd fp_base ts"
    using assms(3) unfolding layout_ok_def by blast
  define o1 where "o1 = (if fp_size ts \<le> off then 0 else off)"
  let ?er = "fp_erasesize ts" and ?ps = "get_page_size ops" and ?b = "ts_bytes (fp_cache ts)"
  let ?new = "o1 AND (?er - 1) = 0" and ?m = "16384 div get_page_size ops"
  obtain r nd1 where r: "(if ?new then flash_erase ops ts o1 nd else (0, nd)) = (r, nd1)" by fastforce
  have "fst (flash_erase ops ts o1 nd) = 0"
    using block_device_erase(1) [OF assms(1)] by (auto simp: flash_erase_def NFlash_Erase_def split: prod.split)
  then have r0: "r = 0" using r by (metis fst_conv)
  have g1: "geometry_ok ops ts nd1" using r assms(2) geometry_erase [of ops ts nd o1] by (auto split: if_splits)
  obtain nd2 where nd2: "write_verify ops ts o1 16384 nd1 = Some (True, nd2)" "geometry_ok ops ts nd2"
    "\<forall>i < ?m. page_holds ops ((fp_base ts + o1) div fp_writesize ts + int i) (take ?ps (drop (i * ?ps) ?b)) (nd_dev nd2)"
    using write_verify_works [OF assms(1) g1 e(4)] by blast
  define pre where "pre = fp_offset ts AND NOT (?er - 1)"
  define nd3 where "nd3 = (if ?new \<and> o1 AND NOT (?er - 1) \<noteq> pre then snd (flash_erase ops ts pre nd2) else nd2)"
  have loop: "commit_loop ops ts 16384 off (Suc k) nd = Some (0, ts\<lparr>fp_offset := o1\<rparr>, nd3)"
    by (simp only: commit_loop.simps Let_def flash_block_isbad_def is_block_bad_def o1_def [symmetric] r
        simp_thms if_False if_True prod.case nd2(1) bind.simps r0 nd3_def pre_def)
  have g: "reads_fill ops" "fp_writesize ts = int ?ps" "0 < ?ps" "length ?b = 16384"
    using assms(2) by (auto simp: geometry_ok_def reads_fill_def FLASH_TS_MAX_DATA_SIZE_def)
  have m: "?m * ?ps = 16384" using e(4) by simp
  have "page_holds ops ((fp_base ts + o1) div fp_writesize ts + int i) (take ?ps (drop (i * ?ps) ?b)) (nd_dev nd3)"
    if i: "i < ?m" for i
  proof (cases "?new \<and> o1 AND NOT (?er - 1) \<noteq> pre")
    case True
    then have "apart (fp_base ts + pre) (2 ^ e) (((fp_base ts + o1) div int ?ps + int i) * int ?ps) (int ?ps)"
      using e i by (intro record_page_apart [where x = "fp_offset ts"]) (auto simp: pre_def)
    then show ?thesis
      using True nd2(3) i page_holds_erase [OF assms(1), of ts pre "(fp_base ts + o1) div int ?ps + int i"] e(3)
      by (simp add: nd3_def g(2))
  qed (use nd2(3) i in \<open>auto simp: nd3_def\<close>)
  then have "flash_read ops ts o1 16384 (nd_dev nd3) = Some (0, take 16384 ?b)"
    using flash_read_loop_pages [OF g(1), of ?m ?b _ "nd_dev nd3" "[]"] g m by (simp add: flash_read_def)
  moreover have "geometry_ok ops ts nd3" using nd2(2) geometry_erase by (auto simp: nd3_def)
  ultimately show ?thesis using loop g(4) o1_def by auto
qed

end
