(* ===== verification/Flash_Recovery.thy ===== *)
theory Flash_Recovery
  imports Flash_Commit
begin

text \<open>
  The scan that loads the newest record at start, and the promises of the flash store:
  atomic settings, durable commits, recovery after a restart.
\<close>

section \<open>The scan at start\<close>

text \<open>The offset after \<open>off\<close>, which does not depend on what has been found.\<close>

definition scan_next :: "'d emmc_ops \<Rightarrow> flash_ts_priv \<Rightarrow> 'd \<Rightarrow> int \<Rightarrow> int" where
  "scan_next ops ts d off =
     (case flash_read ops ts off 16384 d of
        Some (r, b) \<Rightarrow>
          if r = 0 \<and> flash_ts_check_header (ts_of_bytes b) = Some 0 \<and> is_blank b 16384 = Some True
          then (off + fp_erasesize ts) AND NOT (fp_erasesize ts - 1) else off + fp_chunk ts
      | None \<Rightarrow> off + fp_chunk ts)"

text \<open>The offsets the scan looks at, starting with \<open>off\<close>.\<close>

inductive scanned :: "'d emmc_ops \<Rightarrow> flash_ts_priv \<Rightarrow> 'd \<Rightarrow> int \<Rightarrow> int \<Rightarrow> bool"
  for ops ts d where
  here: "scanned ops ts d off off"
| further: "scan_next ops ts d off < fp_size ts \<Longrightarrow> scanned ops ts d (scan_next ops ts d off) o' \<Longrightarrow>
    scanned ops ts d off o'"

inductive_simps scanned_iff: "scanned ops ts d off o'"

definition record_at :: "'d emmc_ops \<Rightarrow> flash_ts_priv \<Rightarrow> 'd \<Rightarrow> int \<Rightarrow> ts_record \<Rightarrow> u32 \<Rightarrow> bool" where
  "record_at ops ts d off t v \<longleftrightarrow>
     (\<exists>b. flash_read ops ts off 16384 d = Some (0, b) \<and> t = ts_of_bytes b \<and> flash_ts_check_header t = Some v)"

lemma check_header_total:
  assumes "length (ts_data t) = FLASH_TS_MAX_DATA_SIZE"
  shows "\<exists>v. flash_ts_check_header t = Some v"
  using assms by (auto simp: flash_ts_check_header_def Let_def flash_ts_crc_def ram_ts_crc_def slice_def ts_body_def)

lemma check_header_version: "flash_ts_check_header t = Some v \<Longrightarrow> v = 0 \<or> v = ts_version t"
  by (auto simp: flash_ts_check_header_def Let_def split: if_splits option.splits bind_splits)

lemma blank_loop_total: "4 * (i + n) \<le> length b \<Longrightarrow> \<exists>r. blank_loop b w i n = Some r"
  by (induction n arbitrary: i) (auto simp: word_at_def slice_def)

lemma is_blank_total: "length b = 16384 \<Longrightarrow> \<exists>r. is_blank b 16384 = Some r"
  using blank_loop_total [of 0 "16384 div 4" b] by (auto simp: is_blank_def word_at_def slice_def)

lemma flash_read_total:
  assumes "geometry_ok ops ts nd"
  shows "\<exists>b. flash_read ops ts off n d = Some (0, b) \<and> length b = n"
  using flash_read_loop_total [of ops "get_page_size ops" "(fp_base ts + off) div fp_writesize ts" n "[]" d] assms
  by (auto simp: flash_read_def geometry_ok_def reads_fill_def)

lemma scan_step:
  assumes "geometry_ok ops ts nd"
  shows "\<exists>t v good'. record_at ops ts d off t v \<and> good \<le> good' \<and> (off AND (fp_erasesize ts - 1) = 0 \<longrightarrow> good' = good + 1) \<and>
    scan_loop (Suc fuel) ops off ts good d =
      (let ts' = (if ts_version (fp_cache ts) < v then ts\<lparr>fp_cache := t, fp_offset := off\<rparr> else ts);
           off' = scan_next ops ts d off in
       if off' < fp_size ts then scan_loop fuel ops off' ts' good' d else Some (ts', good'))"
proof -
  obtain b where b: "flash_read ops ts off 16384 d = Some (0, b)" "length b = 16384"
    using flash_read_total [OF assms] by blast
  let ?t = "ts_of_bytes b"
  have "length (ts_data ?t) = FLASH_TS_MAX_DATA_SIZE" using b by (simp add: ts_of_bytes_def FLASH_TS_MAX_DATA_SIZE_def)
  then obtain v where v: "flash_ts_check_header ?t = Some v" using check_header_total by blast
  obtain bl where bl: "is_blank b 16384 = Some bl" using is_blank_total [OF b(2)] by blast
  have sz: "16 + FLASH_TS_MAX_DATA_SIZE = 16384" by (simp add: FLASH_TS_MAX_DATA_SIZE_def)
  define good' where "good' = (if off AND (fp_erasesize ts - 1) = 0 then good + 1 else good)"
  define ts' where "ts' = (if ts_version (fp_cache ts) < v then ts\<lparr>fp_cache := ?t, fp_offset := off\<rparr> else ts)"
  have f: "fp_size ts' = fp_size ts" by (simp add: ts'_def)
  have "scan_loop (Suc fuel) ops off ts good d =
      (if scan_next ops ts d off < fp_size ts then scan_loop fuel ops (scan_next ops ts d off) ts' good' d
       else Some (ts', good'))"
    using b v bl f
    by (simp add: Let_def flash_block_isbad_def is_block_bad_def sz scan_next_def flip: good'_def ts'_def)
  moreover have "record_at ops ts d off ?t v" using b v by (auto simp: record_at_def)
  ultimately show ?thesis by (auto simp: Let_def good'_def ts'_def intro!: exI)
qed

text \<open>Finding a record changes nothing that the rest of the scan depends on.\<close>

lemma scan_same [simp]:
  "flash_read ops (ts\<lparr>fp_cache := t, fp_offset := a\<rparr>) off n d = flash_read ops ts off n d"
  "scan_next ops (ts\<lparr>fp_cache := t, fp_offset := a\<rparr>) d off = scan_next ops ts d off"
  "record_at ops (ts\<lparr>fp_cache := t, fp_offset := a\<rparr>) d off t' v = record_at ops ts d off t' v"
  by (simp_all add: flash_read_def scan_next_def record_at_def split: option.split)

lemma scanned_same [simp]:
  "scanned ops (ts\<lparr>fp_cache := t, fp_offset := a\<rparr>) d off o' = scanned ops ts d off o'" (is "?l = ?r")
proof
  show "?l \<Longrightarrow> ?r" by (induction rule: scanned.induct) (auto intro: scanned.intros)
  show "?r \<Longrightarrow> ?l" by (induction rule: scanned.induct) (auto intro: scanned.intros)
qed

lemma scan_next_progress:
  assumes "fp_erasesize ts = 2 ^ e" and "fp_chunk ts = 16384"
  shows "off < scan_next ops ts d off"
proof -
  have m: "(2 :: int) ^ e - 1 = mask e" by (simp add: mask_eq_exp_minus_1)
  have "off < off div 2 ^ e * 2 ^ e + 2 ^ e"
  proof -
    have "off mod 2 ^ e < 2 ^ e" by simp
    then show ?thesis using div_mult_mod_eq [of off "2 ^ e"] by linarith
  qed
  then have "off < (off + 2 ^ e) AND NOT (2 ^ e - 1)" by (simp add: m int_and_not_mask div_add_self2 algebra_simps)
  then show ?thesis using assms by (auto simp: scan_next_def split: option.split)
qed

text \<open>The outcome of a scan from \<open>off\<close>: nothing newer, or a record at a scanned offset.\<close>

definition scan_result :: "'d emmc_ops \<Rightarrow> flash_ts_priv \<Rightarrow> 'd \<Rightarrow> int \<Rightarrow> flash_ts_priv \<Rightarrow> bool" where
  "scan_result ops ts d off ts' \<longleftrightarrow>
     (ts' = ts \<or> (\<exists>o' t. scanned ops ts d off o' \<and> record_at ops ts d o' t (ts_version t) \<and>
        ts_version (fp_cache ts) < ts_version t \<and> ts' = ts\<lparr>fp_cache := t, fp_offset := o'\<rparr>)) \<and>
     (\<forall>o' t v. scanned ops ts d off o' \<longrightarrow> record_at ops ts d o' t v \<longrightarrow> v \<le> ts_version (fp_cache ts'))"

lemma record_at_unique: "record_at ops ts d off t v \<Longrightarrow> record_at ops ts d off t' v' \<Longrightarrow> t' = t \<and> v' = v"
  by (auto simp: record_at_def)

lemma scan_result_mono: "scan_result ops ts d off ts' \<Longrightarrow> ts_version (fp_cache ts) \<le> ts_version (fp_cache ts')"
  by (auto simp: scan_result_def)

lemma scan_result_step:
  assumes "record_at ops ts d off t v"
    and "ts1 = (if ts_version (fp_cache ts) < v then ts\<lparr>fp_cache := t, fp_offset := off\<rparr> else ts)"
    and "if scan_next ops ts d off < fp_size ts then scan_result ops ts1 d (scan_next ops ts d off) ts' else ts' = ts1"
  shows "scan_result ops ts d off ts'"
proof -
  let ?n = "scan_next ops ts d off" and ?V = "\<lambda>ts. ts_version (fp_cache ts)"
  have v: "?V ts < v \<Longrightarrow> v = ts_version t"
    using assms(1) check_header_version [of t v] by (auto simp: record_at_def)
  have same: "scanned ops ts1 d a b = scanned ops ts d a b" "record_at ops ts1 d a t' v' = record_at ops ts d a t' v'"
    for a b t' v' by (simp_all add: assms(2))
  have mono: "?V ts1 \<le> ?V ts'" using assms(3) scan_result_mono by (auto split: if_splits)
  moreover have "v \<le> ?V ts1" "?V ts \<le> ?V ts1" using v assms(2) by auto
  ultimately have ge: "v \<le> ?V ts'" "?V ts \<le> ?V ts'" by auto
  have max: "v' \<le> ?V ts'" if "scanned ops ts d off o'" "record_at ops ts d o' t' v'" for o' t' v'
    using that(1) [unfolded scanned_iff [of ops ts d off]]
  proof (elim disjE conjE)
    assume "o' = off" then show ?thesis using record_at_unique [OF assms(1)] that(2) ge by auto
  next
    assume "?n < fp_size ts" "scanned ops ts d ?n o'"
    then show ?thesis using assms(3) that(2) by (simp add: scan_result_def same)
  qed
  have first: "ts1 = ts \<or> scanned ops ts d off off \<and> record_at ops ts d off t (ts_version t) \<and>
      ?V ts < ts_version t \<and> ts1 = ts\<lparr>fp_cache := t, fp_offset := off\<rparr>"
    using v assms(1,2) by (auto intro: scanned.here)
  have "ts' = ts1 \<or> (\<exists>o' t'. scanned ops ts d off o' \<and> record_at ops ts d o' t' (ts_version t') \<and>
      ?V ts1 < ts_version t' \<and> ts' = ts1\<lparr>fp_cache := t', fp_offset := o'\<rparr>)"
  proof (cases "?n < fp_size ts")
    case True
    then show ?thesis
      using assms(3) scanned.further [OF True] unfolding scan_result_def same by fastforce
  qed (use assms(3) in auto)
  then have "ts' = ts \<or> (\<exists>o' t'. scanned ops ts d off o' \<and> record_at ops ts d o' t' (ts_version t') \<and>
      ?V ts < ts_version t' \<and> ts' = ts\<lparr>fp_cache := t', fp_offset := o'\<rparr>)"
  proof (elim disjE exE conjE)
    assume "ts' = ts1" then show ?thesis using first by blast
  next
    fix o' t' assume "scanned ops ts d off o'" "record_at ops ts d o' t' (ts_version t')"
      "?V ts1 < ts_version t'" "ts' = ts1\<lparr>fp_cache := t', fp_offset := o'\<rparr>"
    moreover have "ts1\<lparr>fp_cache := t', fp_offset := o'\<rparr> = ts\<lparr>fp_cache := t', fp_offset := o'\<rparr>"
      by (simp add: assms(2))
    ultimately show ?thesis using \<open>?V ts \<le> ?V ts1\<close> by (metis order.strict_trans1)
  qed
  then show ?thesis using max unfolding scan_result_def by blast
qed

lemma scan_loop_spec:
  assumes "geometry_ok ops ts nd" and "fp_erasesize ts = 2 ^ e" and "nat (fp_size ts - off) < fuel"
  shows "\<exists>ts' g. scan_loop fuel ops off ts good d = Some (ts', g) \<and> scan_result ops ts d off ts' \<and>
    good \<le> g \<and> (off AND (fp_erasesize ts - 1) = 0 \<longrightarrow> good < g)"
  using assms
proof (induction fuel arbitrary: off ts good)
  case (Suc fuel)
  obtain t v good' where s: "record_at ops ts d off t v" "good \<le> good'"
    "off AND (fp_erasesize ts - 1) = 0 \<longrightarrow> good' = good + 1"
    "scan_loop (Suc fuel) ops off ts good d =
      (let ts' = (if ts_version (fp_cache ts) < v then ts\<lparr>fp_cache := t, fp_offset := off\<rparr> else ts);
           off' = scan_next ops ts d off in
       if off' < fp_size ts then scan_loop fuel ops off' ts' good' d else Some (ts', good'))"
    using scan_step [OF Suc.prems(1)] by blast
  define ts1 where "ts1 = (if ts_version (fp_cache ts) < v then ts\<lparr>fp_cache := t, fp_offset := off\<rparr> else ts)"
  let ?n = "scan_next ops ts d off"
  have "length (ts_data t) = FLASH_TS_MAX_DATA_SIZE"
    using s(1) flash_read_total [OF Suc.prems(1), of off 16384 d]
    by (auto simp: record_at_def ts_of_bytes_def FLASH_TS_MAX_DATA_SIZE_def)
  then have g1: "geometry_ok ops ts1 nd" "fp_erasesize ts1 = 2 ^ e" "fp_size ts1 = fp_size ts"
    using Suc.prems(1,2) by (auto simp: ts1_def geometry_ok_def)
  have "off < ?n" using scan_next_progress Suc.prems(1,2) by (auto simp: geometry_ok_def)
  show ?case
  proof (cases "?n < fp_size ts")
    case True
    then have "nat (fp_size ts1 - ?n) < fuel" using Suc.prems(3) \<open>off < ?n\<close> g1(3) by simp
    then obtain ts' g where IH: "scan_loop fuel ops ?n ts1 good' d = Some (ts', g)"
      "scan_result ops ts1 d ?n ts'" "good' \<le> g"
      using Suc.IH [OF g1(1,2)] by blast
    then have "scan_result ops ts d off ts'"
      using True by (intro scan_result_step [OF s(1) ts1_def]) simp
    then show ?thesis using s(2-4) IH True by (auto simp: Let_def simp flip: ts1_def)
  next
    case False
    then have "scan_result ops ts d off ts1" by (intro scan_result_step [OF s(1) ts1_def]) simp
    then show ?thesis using s(2-4) False by (auto simp: Let_def simp flip: ts1_def)
  qed
qed simp

text \<open>
  C4: the scan of a partition with at least one block always ends with success and leaves
  the newest valid record it passed: the cache is that record (or the initial one when
  nothing newer exists), its offset is recorded, and no scanned record has a higher version.
\<close>

theorem flash_ts_scan_newest:
  assumes "geometry_ok ops ts nd" and "fp_erasesize ts = 2 ^ e"
  shows "\<exists>ts'. flash_ts_scan ops ts d = Some (0, ts') \<and> scan_result ops ts d 0 ts'"
proof -
  have "nat (fp_size ts - 0) < nat (fp_size ts) + 1" by simp
  from scan_loop_spec [OF assms this, where good = 0 and d = d]
  obtain ts' g where "scan_loop (nat (fp_size ts) + 1) ops 0 ts 0 d = Some (ts', g)"
    "scan_result ops ts d 0 ts'" "0 AND (fp_erasesize ts - 1) = 0 \<longrightarrow> 0 < g" by blast
  then show ?thesis by (simp add: flash_ts_scan_def del: scan_loop.simps)
qed

section \<open>A device for the examples\<close>

text \<open>A memory that always works, with 8 KiB pages and blocks of one chunk, and a store in it.\<close>

definition ram_disk :: "(int \<Rightarrow> u8) emmc_ops" where
  "ram_disk = \<lparr>do_emmcread = (\<lambda>a n d. (0, map (\<lambda>i. d (a + int i)) [0..<512 * n])),
     do_emmcwrite = (\<lambda>a n b d. (0, \<lambda>x. if a \<le> x \<and> x < a + int (512 * n) then b ! nat (x - a) else d x)),
     do_emmcerase = (\<lambda>a len d. (0, \<lambda>x. if a \<le> x \<and> x < a + len then 0xff else d x)),
     get_page_size = 8192, get_block_size = 16384\<rparr>"

definition fts_example :: flash_ts_priv where
  "fts_example = \<lparr>fp_chunk = 16384, fp_offset = 0, fp_base = 0, fp_size = 16384, fp_erasesize = 16384,
     fp_writesize = 8192,
     fp_cache = \<lparr>ts_magic = FLASH_TS_MAGIC, ts_crc = 0xd5e4c20c, ts_len = 1, ts_version = 1,
       ts_data = replicate FLASH_TS_MAX_DATA_SIZE 0\<rparr>\<rparr>"

definition disk_example :: "(int \<Rightarrow> u8) nand" where
  "disk_example = \<lparr>nd_dev = (\<lambda>_. 0xff), nd_temp = replicate 8704 0\<rparr>"

lemma ram_disk_works: "block_device ram_disk"
proof -
  have read: "length b = 512 * n \<Longrightarrow> map (\<lambda>i. (if a \<le> a + int i \<and> a + int i < a + int (512 * n)
      then b ! nat (a + int i - a) else d (a + int i))) [0..<512 * n] = b" for a n d and b :: mem
    by (rule nth_equalityI) auto
  show ?thesis
    unfolding block_device_def reads_fill_def ram_disk_def
    by (auto simp: apart_def read [simplified])
qed

lemma fts_example_ok: "geometry_ok ram_disk fts_example disk_example" "layout_ok ram_disk fts_example"
  using ram_disk_works
  by (auto simp: geometry_ok_def block_device_def fts_example_def disk_example_def ram_disk_def layout_ok_def
      intro!: exI [of _ 14])

lemma fts_example_repr:
  "ts_repr (fp_cache fts_example) []" "ram_ts_crc (fp_cache fts_example) = Some (ts_crc (fp_cache fts_example))"
proof -
  show "ts_repr (fp_cache fts_example) []" by (simp add: ts_repr_def fts_example_def FLASH_TS_MAX_DATA_SIZE_def)
  show "ram_ts_crc (fp_cache fts_example) = Some (ts_crc (fp_cache fts_example))"
    by (simp add: ram_ts_crc_def slice_def ts_body_def le32_def fts_example_def FLASH_TS_MAX_DATA_SIZE_def
        crc_serial_bits crc_bit_def)
qed

lemma flash_example_holds:
  "flash_holds ram_disk \<lparr>fs_priv = fts_example, fs_enabled = True, fs_nand = disk_example\<rparr> []"
  using fts_example_ok fts_example_repr by (simp add: flash_holds_def)

section \<open>What the store promises\<close>

theorem flash_ts_scan_newest_witness:
  "\<exists>ts'. flash_ts_scan ram_disk fts_example (\<lambda>_. 0) = Some (0, ts') \<and>
     scan_result ram_disk fts_example (\<lambda>_. 0) 0 ts'"
  using flash_ts_scan_newest [OF fts_example_ok(1), of 14] by (simp add: fts_example_def)

text \<open>
  C3: a setting is atomic in memory.  Whatever the device does, \<open>flash_ts_set\<close> returns; with
  result 0 the store holds exactly the updated entries, and with an error (no space, or no
  block could be written and verified) it still holds the old ones, at the old offset.
\<close>

theorem flash_ts_set_atomic:
  assumes "flash_holds ops s es" and "cstr key 0 k" and "cstr val 0 v" and "length k + length v < 2 ^ 32"
  shows "\<exists>r s'. flash_ts_set ops key val s = Some (r, s') \<and>
    (if r = 0 then flash_holds ops s' (es_set k v es)
     else flash_holds ops s' es \<and> fs_priv s' = fs_priv s \<and>
       (r = - FTS_EIO \<or> r = - FTS_ENOSPC \<and> s' = s \<and> FLASH_TS_MAX_DATA_SIZE < length (flat (es_set k v es)) + 1))"
  by (rule flash_ts_set_spec [OF assms])

theorem flash_ts_set_atomic_witness:
  "\<exists>r s'. flash_ts_set ram_disk [107, 0] [118, 0]
       \<lparr>fs_priv = fts_example, fs_enabled = True, fs_nand = disk_example\<rparr> = Some (r, s') \<and>
     flash_holds ram_disk s' (if r = 0 then [[107, 61, 118]] else [])"
proof -
  have "cstr [107, 0] 0 [107]" "cstr [118, 0] 0 [118]" by code_simp+
  from flash_ts_set_atomic [OF flash_example_holds this] show ?thesis
    by (auto split: if_splits)
qed

text \<open>
  C6: for keys without an equals sign the flash store is a map: after any sequence of settings of
  such keys, some of which may fail, a lookup of such a key yields the value of the last setting
  of the key that returned 0, or what the store held before.
\<close>

theorem flash_ts_last_set_wins:
  assumes "flash_holds ops s es" and "unique_keys es" and "set_args args kvs"
    and "cstr key 0 k" and "61 \<notin> set k" and "n \<le> length buf" and "buf \<noteq> []"
  shows "\<exists>rs s'. run_sets (flash_ts_set ops) args s = Some (rs, s') \<and> length rs = length kvs \<and>
    flash_ts_get key buf n s' = Some (get_result buf n (last_set k (es_get k es) (zip rs kvs)))"
  using flash.run_sets_map [OF assms(1,2,5,3)] flash.get_law [OF _ assms(4,6,7)] by metis

theorem flash_ts_last_set_wins_witness:
  "\<exists>rs s'. run_sets (flash_ts_set ram_disk) [([97, 0], [49, 0])]
       \<lparr>fs_priv = fts_example, fs_enabled = True, fs_nand = disk_example\<rparr> = Some (rs, s') \<and> length rs = Suc 0 \<and>
     flash_ts_get [97, 0] [9, 9, 9] 3 s' =
       Some (get_result [9, 9, 9] 3 (last_set [97] None (zip rs [([97], [49])])))"
proof -
  have "unique_keys []" "set_args [([97, 0], [49, 0])] [([97], [49])]"
    "cstr [97, 0] 0 [97]" "(61 :: u8) \<notin> set [97]" "3 \<le> length [9, 9, 9 :: u8]" "[9, 9, 9 :: u8] \<noteq> []"
    by (simp_all add: unique_keys_def set_args_def rd_def)
  from flash_ts_last_set_wins [OF flash_example_holds this] show ?thesis by (simp add: es_get_def)
qed

declare commit_loop.simps [simp del] scan_loop.simps [simp del]

lemma flash_ts_commit_works:
  assumes "block_device ops" and "geometry_ok ops ts nd" and "layout_ok ops ts"
    and "ts_repr (fp_cache ts) es"
  shows "\<exists>o' nd'. flash_ts_commit ops ts nd = Some (0, ts\<lparr>fp_cache := pad (fp_cache ts), fp_offset := o'\<rparr>, nd') \<and>
    o' = (if fp_size ts \<le> fp_offset ts + fp_chunk ts then 0 else fp_offset ts + fp_chunk ts) \<and>
    flash_read ops ts o' 16384 (nd_dev nd') = Some (0, ts_bytes (pad (fp_cache ts)))"
proof -
  let ?t = "fp_cache ts" and ?tp = "ts\<lparr>fp_cache := pad (fp_cache ts)\<rparr>"
  have l: "0 < unat (ts_len ?t)" "unat (ts_len ?t) \<le> length (ts_data ?t)" "length (ts_data ?t) = FLASH_TS_MAX_DATA_SIZE"
    using assms(2,4) by (auto simp: ts_repr_def geometry_ok_def)
  have g: "geometry_ok ops ?tp nd" "layout_ok ops ?tp"
    using assms(2,3) l by (auto simp: geometry_ok_def layout_ok_def)
  obtain e where e: "fp_erasesize ts = 2 ^ e" "2 ^ e \<le> fp_size ts" using assms(3) by (auto simp: layout_ok_def)
  then have "1 \<le> fp_size ts div fp_erasesize ts" by (simp add: pos_imp_zdiv_pos_iff int_one_le_iff_zero_less)
  then obtain k where k: "nat (fp_size ts div fp_erasesize ts * 2) = Suc k"
    by (cases "nat (fp_size ts div fp_erasesize ts * 2)") auto
  have same: "flash_read ops ?tp o' n d = flash_read ops ts o' n d" for o' n d by (simp add: flash_read_def)
  show ?thesis
    using flash_ts_commit_eq [OF assms(2)] l k
      commit_loop_works [OF assms(1) g, of "fp_offset ts + fp_chunk ts" k] by (auto simp: same)
qed

text \<open>
  C2: on a working device a commit succeeds, and the record it leaves survives a restart:
  read from the device at the offset it reports, after the erasure of the previous block,
  it is the cached record and passes the header check with its version.
\<close>

theorem flash_ts_commit_durable:
  assumes "block_device ops" and "geometry_ok ops ts nd" and "layout_ok ops ts"
    and "ts_repr (fp_cache ts) es" and "ram_ts_crc (fp_cache ts) = Some (ts_crc (fp_cache ts))"
    and "ts_magic (fp_cache ts) = FLASH_TS_MAGIC" and "ts_version (fp_cache ts) \<noteq> 0"
  shows "\<exists>ts' nd'. flash_ts_commit ops ts nd = Some (0, ts', nd') \<and> ts_repr (fp_cache ts') es \<and>
    record_at ops ts' (nd_dev nd') (fp_offset ts') (fp_cache ts') (ts_version (fp_cache ts))"
proof -
  obtain o' nd' where c: "flash_ts_commit ops ts nd = Some (0, ts\<lparr>fp_cache := pad (fp_cache ts), fp_offset := o'\<rparr>, nd')"
    "flash_read ops ts o' 16384 (nd_dev nd') = Some (0, ts_bytes (pad (fp_cache ts)))"
    using flash_ts_commit_works [OF assms(1-4)] by blast
  have l: "unat (ts_len (fp_cache ts)) \<le> length (ts_data (fp_cache ts))" using assms(4) by (simp add: ts_repr_def)
  have "flash_ts_check_header (pad (fp_cache ts)) = Some (ts_version (pad (fp_cache ts)))"
    using assms(5-7) pad_crc [OF l] by (intro check_header_consistent [OF pad_repr [OF assms(4)]]) auto
  then show ?thesis using c pad_repr [OF assms(4)] by (simp add: record_at_def ts_of_bytes_bytes)
qed

theorem flash_ts_commit_durable_witness:
  "\<exists>ts' nd'. flash_ts_commit ram_disk fts_example disk_example = Some (0, ts', nd') \<and> ts_repr (fp_cache ts') [] \<and>
     record_at ram_disk ts' (nd_dev nd') (fp_offset ts') (fp_cache ts') 1"
  using flash_ts_commit_durable [OF ram_disk_works fts_example_ok fts_example_repr]
  by (simp add: fts_example_def)

text \<open>
  C1: crash recovery.  When a committed record is the newest one on the partition and the
  scan passes its offset, a restart (a scan from the empty cache with version 0) loads
  exactly that record and continues at its offset.
\<close>

theorem flash_ts_recovers:
  assumes "geometry_ok ops ts nd" and "fp_erasesize ts = 2 ^ e" and "ts_version (fp_cache ts) = 0"
    and "record_at ops ts d off t v" and "v \<noteq> 0" and "scanned ops ts d 0 off"
    and "\<forall>o' t' v'. scanned ops ts d 0 o' \<longrightarrow> o' \<noteq> off \<longrightarrow> record_at ops ts d o' t' v' \<longrightarrow> v' < v"
  shows "flash_ts_scan ops ts d = Some (0, ts\<lparr>fp_cache := t, fp_offset := off\<rparr>)"
proof -
  have "nat (fp_size ts - 0) < nat (fp_size ts) + 1" by simp
  from scan_loop_spec [OF assms(1,2) this, where good = 0 and d = d]
  obtain ts' g where s: "scan_loop (nat (fp_size ts) + 1) ops 0 ts 0 d = Some (ts', g)"
    "scan_result ops ts d 0 ts'" "0 < g" by auto
  have v: "v \<le> ts_version (fp_cache ts')" using s(2) assms(4,6) unfolding scan_result_def by blast
  then have "ts' \<noteq> ts" using assms(3,5) by auto
  then obtain o' t' where o': "scanned ops ts d 0 o'" "record_at ops ts d o' t' (ts_version t')"
    "ts' = ts\<lparr>fp_cache := t', fp_offset := o'\<rparr>" using s(2) unfolding scan_result_def by blast
  have "o' = off" using assms(7) o' v by fastforce
  then have "t' = t" using record_at_unique [OF assms(4)] o'(2) by blast
  then show ?thesis using s \<open>o' = off\<close> o'(3) by (simp add: flash_ts_scan_def)
qed

theorem flash_ts_recovers_witness:
  "\<exists>ts' nd'. flash_ts_commit ram_disk fts_example disk_example = Some (0, ts', nd') \<and>
     flash_ts_scan ram_disk (fts_example\<lparr>fp_cache := (fp_cache fts_example)\<lparr>ts_version := 0\<rparr>\<rparr>) (nd_dev nd') =
       Some (0, ts')"
proof -
  let ?ts0 = "fts_example\<lparr>fp_cache := (fp_cache fts_example)\<lparr>ts_version := 0\<rparr>\<rparr>" and ?p = "pad (fp_cache fts_example)"
  obtain nd' where c: "flash_ts_commit ram_disk fts_example disk_example =
      Some (0, fts_example\<lparr>fp_cache := ?p, fp_offset := 0\<rparr>, nd')"
    "flash_read ram_disk fts_example 0 16384 (nd_dev nd') = Some (0, ts_bytes ?p)"
    using flash_ts_commit_works [OF ram_disk_works fts_example_ok fts_example_repr(1)] by (auto simp: fts_example_def)
  have l: "unat (ts_len (fp_cache fts_example)) \<le> length (ts_data (fp_cache fts_example))"
    using fts_example_repr(1) by (simp add: ts_repr_def)
  have "flash_ts_check_header ?p = Some 1"
    using check_header_consistent [OF pad_repr [OF fts_example_repr(1)]] pad_crc [OF l] fts_example_repr(2)
    by (simp add: fts_example_def)
  moreover have "flash_read ram_disk ?ts0 0 16384 (nd_dev nd') = Some (0, ts_bytes ?p)"
    using c(2) by (simp add: flash_read_def split: if_splits)
  ultimately have r: "record_at ram_disk ?ts0 (nd_dev nd') 0 ?p 1" by (simp add: record_at_def ts_of_bytes_bytes)
  have g: "geometry_ok ram_disk ?ts0 disk_example" "fp_erasesize ?ts0 = 2 ^ 14" "ts_version (fp_cache ?ts0) = 0"
    using fts_example_ok(1) by (simp_all add: geometry_ok_def fts_example_def)
  have only: "scanned ram_disk ?ts0 d 0 o' \<Longrightarrow> o' = 0" for d o'
  proof -
    have "\<not> scan_next ram_disk ?ts0 d 0 < fp_size ?ts0"
      by (auto simp: scan_next_def fts_example_def split: option.split)
    then show "scanned ram_disk ?ts0 d 0 o' \<Longrightarrow> o' = 0" by (auto simp: scanned_iff [of _ _ _ 0])
  qed
  have "flash_ts_scan ram_disk ?ts0 (nd_dev nd') = Some (0, ?ts0\<lparr>fp_cache := ?p, fp_offset := 0\<rparr>)"
    using only by (intro flash_ts_recovers [OF g r _ scanned.here]) auto
  then show ?thesis using c(1) by simp
qed

section \<open>Initialisation\<close>

lemma power_of_2_ok:
  assumes "k < 32" shows "is_power_of_2 (of_nat (2 ^ k))" and "uint (of_nat (2 ^ k) :: u32) = 2 ^ k"
proof -
  have lt: "(2 :: nat) ^ k < 2 ^ 32" using assms by (intro power_strict_increasing) auto
  have u: "unat (of_nat (2 ^ k) :: u32) = 2 ^ k" using lt by (rule unat_u32_of_nat)
  then have "int (unat (of_nat (2 ^ k) :: u32)) = 2 ^ k" by simp
  then show "uint (of_nat (2 ^ k) :: u32) = 2 ^ k" by (simp only: uint_nat)
  have "bit ((of_nat (2 ^ k) :: u32) AND (of_nat (2 ^ k) - 1)) n = False" for n
    by (auto simp: bit_and_iff bit_exp_iff bit_mask_iff simp flip: mask_eq_exp_minus_1)
  then have "(of_nat (2 ^ k) :: u32) AND (of_nat (2 ^ k) - 1) = 0" by (intro bit_word_eqI) auto
  moreover have "(0 :: u32) < of_nat (2 ^ k)" using u by (simp add: word_less_nat_alt)
  ultimately show "is_power_of_2 (of_nat (2 ^ k))" unfolding is_power_of_2_def by blast
qed

lemma chunk_16384:
  assumes "9 \<le> p" and "p \<le> 14"
  shows "clp2 ((16 + of_nat FLASH_TS_MAX_DATA_SIZE + of_nat (2 ^ p) - 1) AND NOT (of_nat (2 ^ p) - 1)) = 16384"
proof -
  have "p = 9 \<or> p = 10 \<or> p = 11 \<or> p = 12 \<or> p = 13 \<or> p = 14" using assms by arith
  then show ?thesis by (elim disjE) (simp_all add: FLASH_TS_MAX_DATA_SIZE_def clp2_def Let_def)
qed

lemma record_crc: "record_at ops ts d off t v \<Longrightarrow> v \<noteq> 0 \<Longrightarrow> ram_ts_crc t = Some (ts_crc t)"
  by (auto simp: record_at_def flash_ts_check_header_def Let_def flash_ts_crc_def split: if_splits bind_splits)

text \<open>
  C5: initialisation establishes what the other operations need: for pages of 512 bytes to
  16 KiB and power-of-two blocks of at least 16 KiB it returns 0, enables the store, fixes a
  chunk of 16 KiB, and leaves a cache with a matching checksum.
\<close>

theorem flash_ts_init_establishes:
  assumes "reads_fill ops" and "get_page_size ops = 2 ^ p" and "9 \<le> p" and "p \<le> 14"
    and "get_block_size ops = 2 ^ e" and "14 \<le> e" and "e < 32" and "0 < blocks"
    and "length (ts_data (fp_cache (fs_priv s))) = FLASH_TS_MAX_DATA_SIZE"
    and "get_page_size ops \<le> length (nd_temp (fs_nand s))"
  shows "\<exists>s'. flash_ts_init ops start_block blocks s = Some (0, s') \<and> fs_enabled s' \<and>
    geometry_ok ops (fs_priv s') (fs_nand s') \<and> layout_ok ops (fs_priv s') \<and>
    ram_ts_crc (fp_cache (fs_priv s')) = Some (ts_crc (fp_cache (fs_priv s')))"
proof -
  let ?c = "fp_cache (fs_priv s)"
  have p: "is_power_of_2 (of_nat (get_page_size ops))" "uint (of_nat (get_page_size ops) :: u32) = 2 ^ p"
    using power_of_2_ok [of p] assms(2,4) by simp_all
  have e: "is_power_of_2 (of_nat (get_block_size ops))" "uint (of_nat (get_block_size ops) :: u32) = 2 ^ e"
    using power_of_2_ok [of e] assms(5,7) by simp_all
  have e14: "(2 :: int) ^ 14 \<le> 2 ^ e" using assms(6) by (intro power_increasing) auto
  have ch: "\<not> (of_nat (get_block_size ops) :: u32) < 16384"
    using e(2) e14 by (simp add: word_less_def)
  let ?t = "?c\<lparr>ts_magic := FLASH_TS_MAGIC, ts_version := 0, ts_len := 1, ts_data := (ts_data ?c)[0 := 0]\<rparr>"
  obtain c where c: "ram_ts_crc ?t = Some c"
    using assms(9) by (auto simp: ram_ts_crc_def slice_def ts_body_def FLASH_TS_MAX_DATA_SIZE_def)
  define ts where "ts = (fs_priv s)\<lparr>fp_chunk := 16384, fp_size := blocks * 2 ^ e, fp_base := start_block * 2 ^ e,
    fp_erasesize := 2 ^ e, fp_writesize := 2 ^ p, fp_offset := blocks * 2 ^ e - 16384, fp_cache := ?t\<lparr>ts_crc := c\<rparr>\<rparr>"
  have g: "geometry_ok ops ts (fs_nand s)" "fp_erasesize ts = 2 ^ e"
    using assms(1,2,9,10) by (simp_all add: geometry_ok_def ts_def)
  have "nat (fp_size ts - 0) < nat (fp_size ts) + 1" by simp
  from scan_loop_spec [OF g this, where good = 0 and d = "nd_dev (fs_nand s)"]
  obtain ts' n where s: "flash_ts_scan ops ts (nd_dev (fs_nand s)) = Some (0, ts')"
    "scan_result ops ts (nd_dev (fs_nand s)) 0 ts'" by (auto simp: flash_ts_scan_def)
  have l: "layout_ok ops ts"
    using assms e14 by (auto simp: layout_ok_def ts_def intro!: exI [of _ e] le_imp_power_dvd [of p 14 2, simplified])
  have crc: "ram_ts_crc (fp_cache ts) = Some (ts_crc (fp_cache ts))" using c by (simp add: ts_def)
  have ts': "geometry_ok ops ts' (fs_nand s) \<and> layout_ok ops ts' \<and> ram_ts_crc (fp_cache ts') = Some (ts_crc (fp_cache ts'))"
  proof (cases "ts' = ts")
    case False
    then obtain o' t where r: "record_at ops ts (nd_dev (fs_nand s)) o' t (ts_version t)"
      "ts_version (fp_cache ts) < ts_version t" "ts' = ts\<lparr>fp_cache := t, fp_offset := o'\<rparr>"
      using s(2) unfolding scan_result_def by blast
    have "length (ts_data t) = FLASH_TS_MAX_DATA_SIZE"
      using r(1) flash_read_total [OF g(1), of o' 16384 "nd_dev (fs_nand s)"]
      by (auto simp: record_at_def ts_of_bytes_def FLASH_TS_MAX_DATA_SIZE_def)
    moreover have "ts_version t \<noteq> 0" using r(2) by auto
    ultimately show ?thesis using g(1) l record_crc [OF r(1)] r(3) by (simp add: geometry_ok_def layout_ok_def)
  qed (use g l crc in simp)
  have "flash_ts_init ops start_block blocks s = Some (0, s\<lparr>fs_priv := ts', fs_enabled := True\<rparr>)"
    using p e ch c s(1) assms(9) chunk_16384 [OF assms(3,4)] assms(2)
    by (simp add: flash_ts_init_def Let_def flash_ts_crc_def FLASH_TS_MAX_DATA_SIZE_def flip: ts_def)
  then show ?thesis using ts' by simp
qed

theorem flash_ts_init_establishes_witness:
  "\<exists>s'. flash_ts_init ram_disk 0 4 \<lparr>fs_priv = fts_example, fs_enabled = False, fs_nand = disk_example\<rparr> = Some (0, s') \<and>
     fs_enabled s'"
proof -
  have "reads_fill ram_disk" using ram_disk_works by (simp add: block_device_def)
  moreover have "get_page_size ram_disk = 2 ^ 13" "get_block_size ram_disk = 2 ^ 14" by (simp_all add: ram_disk_def)
  ultimately show ?thesis
    using flash_ts_init_establishes [of ram_disk 13 14 4 "\<lparr>fs_priv = fts_example, fs_enabled = False, fs_nand = disk_example\<rparr>" 0]
    by (auto simp: fts_example_def disk_example_def)
qed

end
