(* ===== verification/Fifo.thy ===== *)
theory Fifo
  imports Boot_Prelude
begin

text \<open>
  The interface of a bounded first-in first-out queue with one producer and one consumer,
  and what every queue with this interface guarantees for an arbitrary interleaving of
  the two.  The first argument of the invariant is the number of further insertions for
  which the queue's counters are known not to overflow.
\<close>

datatype 'm fifo_op = Put 'm | Get

text \<open>Run a sequence of operations; collect the accepted and the delivered messages.\<close>

fun fifo_run :: "('m \<Rightarrow> 'q \<Rightarrow> (bool \<times> 'q) option) \<Rightarrow> ('q \<Rightarrow> ('m option \<times> 'q) option) \<Rightarrow>
    'm fifo_op list \<Rightarrow> 'q \<Rightarrow> ('m list \<times> 'm list \<times> 'q) option" where
  "fifo_run put get [] q = Some ([], [], q)"
| "fifo_run put get (Put m # ops) q =
     do { (ok, q1) \<leftarrow> put m q;
          (acc, del, q2) \<leftarrow> fifo_run put get ops q1;
          Some (if ok then m # acc else acc, del, q2) }"
| "fifo_run put get (Get # ops) q =
     do { (r, q1) \<leftarrow> get q;
          (acc, del, q2) \<leftarrow> fifo_run put get ops q1;
          Some (acc, case r of None \<Rightarrow> del | Some m \<Rightarrow> m # del, q2) }"

fun puts :: "'m fifo_op list \<Rightarrow> 'm list" where
  "puts [] = []"
| "puts (Put m # ops) = m # puts ops"
| "puts (Get # ops) = puts ops"

text \<open>
  The reference: a list of at most \<open>cap\<close> waiting messages.  An insertion is refused exactly when
  \<open>cap\<close> messages wait, a removal gives nothing exactly when none waits.
\<close>

fun queue_run :: "nat \<Rightarrow> 'm fifo_op list \<Rightarrow> 'm list \<Rightarrow> 'm list \<times> 'm list \<times> 'm list" where
  "queue_run cap [] c = ([], [], c)"
| "queue_run cap (Put m # ops) c =
     (if length c < cap
      then (case queue_run cap ops (c @ [m]) of (acc, del, c') \<Rightarrow> (m # acc, del, c'))
      else queue_run cap ops c)"
| "queue_run cap (Get # ops) c =
     (case c of [] \<Rightarrow> queue_run cap ops []
      | m # ms \<Rightarrow> (case queue_run cap ops ms of (acc, del, c') \<Rightarrow> (acc, m # del, c')))"

lemma queue_run_order:
  "queue_run cap ops c = (acc, del, c') \<Longrightarrow> del @ c' = c @ acc"
  by (induction cap ops c arbitrary: acc del rule: queue_run.induct)
    (auto split: prod.splits list.splits if_splits)

locale fifo =
  fixes inv :: "nat \<Rightarrow> 'q \<Rightarrow> bool"
    and content :: "'q \<Rightarrow> 'm list"
    and cap :: nat
    and valid :: "'m \<Rightarrow> bool"
    and put :: "'m \<Rightarrow> 'q \<Rightarrow> (bool \<times> 'q) option"
    and get :: "'q \<Rightarrow> ('m option \<times> 'q) option"
  assumes put_law: "inv (Suc b) q \<Longrightarrow> valid m \<Longrightarrow>
      \<exists>ok q'. put m q = Some (ok, q') \<and> inv b q' \<and> ok = (length (content q) < cap) \<and>
        content q' = content q @ (if ok then [m] else [])"
    and get_law: "inv b q \<Longrightarrow>
      \<exists>r q'. get q = Some (r, q') \<and> inv b q' \<and>
        content q = (case r of None \<Rightarrow> [] | Some m \<Rightarrow> [m]) @ content q' \<and> (r = None \<longrightarrow> content q = [])"
    and cap_law: "inv b q \<Longrightarrow> length (content q) \<le> cap"
begin

text \<open>Every run is the run of the reference queue on the contents, in which only a full queue refuses.\<close>

lemma run_refines:
  assumes "inv (length (puts ops) + b) q" and "\<forall>m \<in> set (puts ops). valid m"
  shows "\<exists>acc del q'. fifo_run put get ops q = Some (acc, del, q') \<and> inv b q' \<and>
    queue_run cap ops (content q) = (acc, del, content q')"
  using assms
proof (induction ops arbitrary: q)
  case (Cons op ops)
  show ?case
  proof (cases op)
    case (Put m)
    then obtain ok q1 where p: "put m q = Some (ok, q1)" "inv (length (puts ops) + b) q1"
      "ok = (length (content q) < cap)" "content q1 = content q @ (if ok then [m] else [])"
      using put_law [of "length (puts ops) + b" q m] Cons.prems by auto
    then show ?thesis using Cons.IH [of q1] Cons.prems(2) Put by (auto split: if_splits)
  next
    case Get
    then obtain r q1 where g: "get q = Some (r, q1)" "inv (length (puts ops) + b) q1"
      "content q = (case r of None \<Rightarrow> [] | Some m \<Rightarrow> [m]) @ content q1" "r = None \<longrightarrow> content q = []"
      using get_law [of "length (puts ops) + b" q] Cons.prems by auto
    then show ?thesis using Cons.IH [of q1] Cons.prems(2) Get by (cases r) auto
  qed
qed simp

text \<open>Nothing is lost, duplicated or reordered.\<close>

lemma run_order:
  assumes "inv (length (puts ops) + b) q" and "\<forall>m \<in> set (puts ops). valid m"
  shows "\<exists>acc del q'. fifo_run put get ops q = Some (acc, del, q') \<and> inv b q' \<and>
    queue_run cap ops (content q) = (acc, del, content q') \<and>
    del @ content q' = content q @ acc \<and> length (content q') \<le> cap"
proof -
  obtain acc del q' where "fifo_run put get ops q = Some (acc, del, q')" "inv b q'"
    "queue_run cap ops (content q) = (acc, del, content q')"
    using run_refines [OF assms] by (elim exE conjE)
  then show ?thesis using queue_run_order cap_law by (intro exI [of _ acc] exI [of _ del] exI [of _ q']) simp
qed

lemma put_refused_iff_full:
  "inv (Suc b) q \<Longrightarrow> valid m \<Longrightarrow> put m q = Some (ok, q') \<Longrightarrow> \<not> ok \<longleftrightarrow> length (content q) = cap"
  using put_law [of b q m] cap_law [of "Suc b" q] by auto

end

end
