(* ===== verification/Sm_Comm.thy ===== *)
theory Sm_Comm
  imports Fifo "HOL-Library.Multiset"
begin

text \<open>
  The message queues between the boot loader and the system manager (SM): the sender of the
  boot loader, \<^verbatim>\<open>src/boot/common/driver/sm/sm_comm.c\<close>, and the firmware side with its
  message task and dispatcher, \<^verbatim>\<open>src/boot/bootloader/sm_cm3/syna/src/sm_comm.c\<close>,
  \<^verbatim>\<open>sm_rt_module.c\<close> and \<^verbatim>\<open>sm_main.c\<close>.

  A queue is a header of four C \<open>int\<close>s and 480 bytes of 32-byte slots in shared memory.
  The \<open>int\<close>s are 32-bit words; where the code compares them they are read signed, and
  additions wrap as on the targets.  \<^term>\<open>None\<close> is an access outside the slot array.
  A send and a visit of the message task are atomic steps: interleavings of the two processors
  between the stores to the slot, the index and the total of one operation are not modelled.
\<close>

section \<open>Queues\<close>

definition SM_MSG_SIZE :: nat where "SM_MSG_SIZE = 32"

definition SM_MSG_BODY_SIZE :: nat where "SM_MSG_BODY_SIZE = 32 - 2 * 2"

definition SM_MSGQ_SIZE :: nat where "SM_MSGQ_SIZE = 512 - 32"

definition S_OK :: int where "S_OK = 0"

definition S_FALSE :: int where "S_FALSE = 1"

record msgq =
  m_iWrite :: u32
  m_iRead :: u32
  m_iWriteTotal :: u32
  m_iReadTotal :: u32
  m_Queue :: mem

definition le16 :: "u16 \<Rightarrow> u8 list" where
  "le16 w = [ucast w, ucast (drop_bit 8 w)]"

definition of_le16 :: "u8 list \<Rightarrow> u16" where
  "of_le16 bs = ucast (bs ! 0) OR push_bit 8 (ucast (bs ! 1))"

text \<open>A message: module number, length and the first \<open>length\<close> bytes of the body.\<close>

type_synonym sm_message = "u16 \<times> u16 \<times> mem"

text \<open>An index expression \<open>m_Queue[i]\<close> with a signed index.\<close>

definition slot_index :: "u32 \<Rightarrow> nat option" where
  "slot_index i = (if 0 \<le> sint i then Some (nat (sint i)) else None)"

definition queue_full :: "msgq \<Rightarrow> bool" where
  "queue_full q \<longleftrightarrow> m_iRead q = m_iWrite q \<and> m_iReadTotal q \<noteq> m_iWriteTotal q"

text \<open>\<open>i += SM_MSG_SIZE; if (i >= SM_MSGQ_SIZE) i -= SM_MSGQ_SIZE;\<close>\<close>

definition next_slot :: "u32 \<Rightarrow> u32" where
  "next_slot i =
     (let i = i + of_nat SM_MSG_SIZE in
      if int SM_MSGQ_SIZE \<le> sint i then i - of_nat SM_MSGQ_SIZE else i)"

text \<open>Fill the slot at the write index and advance it.\<close>

definition write_slot :: "int \<Rightarrow> mem \<Rightarrow> int \<Rightarrow> msgq \<Rightarrow> msgq option" where
  "write_slot iModuleID pMsgBody iLen q =
     do { w \<leftarrow> slot_index (m_iWrite q);
          d1 \<leftarrow> blit (m_Queue q) w (le16 (of_int iModuleID) @ le16 (of_int iLen));
          body \<leftarrow> slice pMsgBody 0 (nat iLen);
          d2 \<leftarrow> blit d1 (w + 4) body;
          Some (q\<lparr>m_Queue := d2, m_iWrite := next_slot (m_iWrite q),
                  m_iWriteTotal := m_iWriteTotal q + of_nat SM_MSG_SIZE\<rparr>) }"

text \<open>The boot loader's \<open>MV_SM_Send_Msg\<close> cuts long messages and refuses on a full queue.\<close>

definition MV_SM_Send_Msg :: "int \<Rightarrow> mem \<Rightarrow> int \<Rightarrow> msgq \<Rightarrow> (int \<times> msgq) option" where
  "MV_SM_Send_Msg iModuleID pMsgBody iLen q =
     (let iLen = (if 28 < iLen then 28 else iLen) in
      if queue_full q then Some (-1, q)
      else do { q' \<leftarrow> write_slot iModuleID pMsgBody iLen q; Some (S_OK, q') })"

text \<open>
  The firmware's \<open>sm_send_msg\<close> refuses long messages; its length test is unsigned, so it
  refuses negative lengths too.  The boolean of the result is the interrupt to the main
  processor.
\<close>

definition sm_send_msg :: "int \<Rightarrow> mem \<Rightarrow> int \<Rightarrow> msgq \<Rightarrow> (int \<times> bool \<times> msgq) option" where
  "sm_send_msg moduleID pMsgBody len q =
     (if of_nat SM_MSG_BODY_SIZE < (of_int len :: u32) then Some (S_FALSE, False, q)
      else if queue_full q then Some (S_FALSE, False, q)
      else do { q' \<leftarrow> write_slot moduleID pMsgBody len q; Some (S_OK, True, q') })"

section \<open>Modules and the dispatcher\<close>

text \<open>A module descriptor; handlers act on an arbitrary state of the firmware.\<close>

type_synonym 's handler = "mem \<Rightarrow> int \<Rightarrow> 's \<Rightarrow> int \<times> 's"

record 's rt_module_desc =
  module_id :: int
  c_task :: "('s \<Rightarrow> 's) option"
  msg_handle :: "'s handler option"
  in_msg_handle :: "'s handler option"

definition BOARDCASTMSG :: int where "BOARDCASTMSG = -1"

text \<open>The linker section of descriptors is a list.\<close>

definition get_rt_module_desc :: "'s rt_module_desc list \<Rightarrow> nat \<Rightarrow> 's rt_module_desc option" where
  "get_rt_module_desc mods index =
     (if length mods = 0 then None else if length mods \<le> index then None else Some (mods ! index))"

text \<open>
  The loop shared by \<open>try_to_dispatch_msg\<close> and \<open>sm_send_internal_msg\<close>, over the handlers
  that \<open>h\<close> selects: a broadcast reaches every module with a handler, any other message the
  first one with the number.
\<close>

function dispatch_from :: "('s rt_module_desc \<Rightarrow> 's handler option) \<Rightarrow> 's rt_module_desc list \<Rightarrow> int \<Rightarrow> mem \<Rightarrow> int \<Rightarrow>
    nat \<Rightarrow> 's \<Rightarrow> 's" where
  "dispatch_from h mods modid body len i s =
     (case get_rt_module_desc mods i of None \<Rightarrow> s
      | Some m \<Rightarrow>
        (case h m of None \<Rightarrow> dispatch_from h mods modid body len (Suc i) s
         | Some f \<Rightarrow>
           if modid = BOARDCASTMSG \<or> modid = module_id m
           then (let s' = snd (f body len s) in
                 if modid = module_id m then s' else dispatch_from h mods modid body len (Suc i) s')
           else dispatch_from h mods modid body len (Suc i) s))"
  by pat_completeness auto
termination
  by (relation "measure (\<lambda>(h, mods, modid, body, len, i, s). length mods - i)")
    (auto simp: get_rt_module_desc_def split: if_splits)

declare dispatch_from.simps [simp del]

text \<open>The message in the slot at \<open>off\<close>, as the dispatcher reads it.\<close>

definition slot_message :: "mem \<Rightarrow> nat \<Rightarrow> (int \<times> int \<times> mem) option" where
  "slot_message d off =
     do { s \<leftarrow> slice d off SM_MSG_SIZE;
          Some (sint (of_le16 (take 2 s)), sint (of_le16 (take 2 (drop 2 s))), drop 4 s) }"

definition try_to_dispatch_msg :: "'s rt_module_desc list \<Rightarrow> int \<times> int \<times> mem \<Rightarrow> 's \<Rightarrow> 's" where
  "try_to_dispatch_msg mods msg s =
     (case msg of (modid, len, body) \<Rightarrow> dispatch_from msg_handle mods modid body len 0 s)"

definition sm_send_internal_msg :: "'s rt_module_desc list \<Rightarrow> int \<Rightarrow> mem \<Rightarrow> int \<Rightarrow> mem \<Rightarrow> 's \<Rightarrow> (int \<times> 's) option" where
  "sm_send_internal_msg mods moduleID pMsgBody len stack s =
     (if of_nat SM_MSG_BODY_SIZE < (of_int len :: u32) then Some (S_FALSE, s)
      else do { b \<leftarrow> slice pMsgBody 0 (nat len);
                body \<leftarrow> blit stack 0 b;
                Some (S_OK, dispatch_from in_msg_handle mods (sint (of_int moduleID :: u16)) body
                              (sint (of_int len :: u16)) 0 s) })"

section \<open>The message task\<close>

text \<open>The visit of one input queue in \<open>comm_task\<close>.\<close>

definition comm_poll :: "'s rt_module_desc list \<Rightarrow> msgq \<Rightarrow> 's \<Rightarrow> (msgq \<times> 's) option" where
  "comm_poll mods q s =
     (if sint (m_iReadTotal q) < sint (m_iWriteTotal q)
      then do { r \<leftarrow> slot_index (m_iRead q);
                msg \<leftarrow> slot_message (m_Queue q) r;
                let s' = try_to_dispatch_msg mods msg s;
                Some (q\<lparr>m_iRead := next_slot (m_iRead q),
                        m_iReadTotal := m_iReadTotal q + of_nat SM_MSG_SIZE\<rparr>, s') }
      else Some (q, s))"

record sm_queues =
  msgq_output0 :: msgq
  msgq_output1 :: msgq
  msgq_input0 :: msgq
  msgq_input1 :: msgq

text \<open>One iteration of the endless loop of \<open>comm_task\<close>: both input queues in turn.\<close>

definition comm_task_round :: "'s rt_module_desc list \<Rightarrow> sm_queues \<Rightarrow> 's \<Rightarrow> (sm_queues \<times> 's) option" where
  "comm_task_round mods qs s =
     do { (q0, s0) \<leftarrow> comm_poll mods (msgq_input0 qs) s;
          (q1, s1) \<leftarrow> comm_poll mods (msgq_input1 qs) s0;
          Some (qs\<lparr>msgq_input0 := q0, msgq_input1 := q1\<rparr>, s1) }"

definition empty_msgq :: msgq where
  "empty_msgq = \<lparr>m_iWrite = 0, m_iRead = 0, m_iWriteTotal = 0, m_iReadTotal = 0, m_Queue = replicate 480 0\<rparr>"

definition create_comm_task :: sm_queues where
  "create_comm_task = \<lparr>msgq_output0 = empty_msgq, msgq_output1 = empty_msgq,
     msgq_input0 = empty_msgq, msgq_input1 = empty_msgq\<rparr>"

text \<open>\<open>create_tasks\<close> of the start-up code starts the task of every module that has one, in section order.\<close>

definition create_tasks :: "'s rt_module_desc list \<Rightarrow> 's \<Rightarrow> 's" where
  "create_tasks mods s = foldl (\<lambda>s m. case c_task m of None \<Rightarrow> s | Some f \<Rightarrow> f s) s mods"

text \<open>Initialisers and their priorities; \<open>dev_init\<close> makes one pass per priority.\<close>

record 's rt_init_desc =
  init_p :: nat
  init_func :: "('s \<Rightarrow> int \<times> 's) option"

definition get_rt_init_desc :: "'s rt_init_desc list \<Rightarrow> nat \<Rightarrow> 's rt_init_desc option" where
  "get_rt_init_desc ds index =
     (if length ds = 0 then None else if length ds \<le> index then None else Some (ds ! index))"

function dev_init_pass :: "'s rt_init_desc list \<Rightarrow> nat \<Rightarrow> nat \<Rightarrow> 's \<Rightarrow> 's" where
  "dev_init_pass ds prio index s =
     (case get_rt_init_desc ds index of None \<Rightarrow> s
      | Some d \<Rightarrow>
        dev_init_pass ds prio (Suc index)
          (case init_func d of None \<Rightarrow> s
           | Some f \<Rightarrow> if init_p d = prio then snd (f s) else s))"
  by pat_completeness auto
termination
  by (relation "measure (\<lambda>(ds, prio, index, s). length ds - index)")
    (auto simp: get_rt_init_desc_def split: if_splits)

declare dev_init_pass.simps [simp del]

definition INIT_DEV_P_0 :: nat where "INIT_DEV_P_0 = 1"

definition INIT_MAX_99 :: nat where "INIT_MAX_99 = 5"

definition dev_init :: "'s rt_init_desc list \<Rightarrow> 's \<Rightarrow> 's" where
  "dev_init ds s = foldl (\<lambda>s prio. dev_init_pass ds prio 0 s) s [INIT_DEV_P_0..<Suc INIT_MAX_99]"

section \<open>The queue is a FIFO\<close>

lemma length_le16 [simp]: "length (le16 w) = 2"
  by (simp add: le16_def)

lemma of_le16_le16 [simp]: "of_le16 (le16 w) = w"
proof (rule bit_word_eqI)
  fix n assume "n < LENGTH(16)"
  then have "n < 8 \<or> 8 \<le> n \<and> n < 16" by auto
  then show "bit (of_le16 (le16 w)) n = bit w n"
    by (elim disjE) (auto simp: of_le16_def le16_def bit_simps)
qed

lemma sint_u16_of_int: "- 32768 \<le> x \<Longrightarrow> x < 32768 \<Longrightarrow> sint (of_int x :: u16) = x"
  by (simp add: signed_of_int signed_take_bit_int_eq_self)

lemma sint_u32_of_nat: "n < 2147483648 \<Longrightarrow> sint (of_nat n :: u32) = int n"
  by (simp add: signed_of_nat signed_take_bit_int_eq_self)

lemma slot_index_of_nat: "n < 2147483648 \<Longrightarrow> slot_index (of_nat n) = Some n"
  by (simp add: slot_index_def sint_u32_of_nat)

lemma next_slot_of_nat:
  assumes "p < 15"
  shows "next_slot (of_nat (32 * p)) = of_nat (32 * (Suc p mod 15))"
proof -
  have "next_slot (of_nat (32 * p)) = (if 480 \<le> 32 * p + 32 then of_nat (32 * p + 32) - 480 else of_nat (32 * p + 32))"
    using sint_u32_of_nat [of "32 * p + 32"] assms
    by (simp add: next_slot_def SM_MSG_SIZE_def SM_MSGQ_SIZE_def Let_def add.commute)
  moreover have "480 \<le> 32 * p + 32 \<longleftrightarrow> p = 14" using assms by arith
  ultimately show ?thesis using assms by (auto simp: mod_if)
qed

text \<open>Slot \<open>p\<close> of the array and the message in it, without the bytes behind its length.\<close>

definition slot :: "mem \<Rightarrow> nat \<Rightarrow> mem" where
  "slot d p = take 32 (drop (32 * p) d)"

definition message_of :: "mem \<Rightarrow> int \<times> int \<times> mem" where
  "message_of s = (let len = sint (of_le16 (take 2 (drop 2 s))) in
     (sint (of_le16 (take 2 s)), len, take (nat len) (drop 4 s)))"

definition q_count :: "msgq \<Rightarrow> nat" where
  "q_count q = unat (m_iWriteTotal q - m_iReadTotal q) div 32"

definition q_content :: "msgq \<Rightarrow> (int \<times> int \<times> mem) list" where
  "q_content q = map (\<lambda>i. message_of (slot (m_Queue q) ((unat (m_iRead q) div 32 + i) mod 15))) [0..<q_count q]"

text \<open>
  The invariant: both indices are slot boundaries, the totals differ by the number of
  waiting messages, and \<open>b\<close> more messages keep the totals in the range of \<open>int\<close>.
\<close>

definition q_at :: "nat \<Rightarrow> nat \<Rightarrow> nat \<Rightarrow> msgq \<Rightarrow> bool" where
  "q_at r n tot q \<longleftrightarrow> r < 15 \<and> n \<le> 15 \<and> m_iRead q = of_nat (32 * r) \<and>
     m_iWrite q = of_nat (32 * ((r + n) mod 15)) \<and> m_iReadTotal q = of_nat (32 * tot) \<and>
     m_iWriteTotal q = of_nat (32 * (tot + n)) \<and> length (m_Queue q) = 480"

definition q_inv :: "nat \<Rightarrow> msgq \<Rightarrow> bool" where
  "q_inv b q \<longleftrightarrow> (\<exists>r n tot. q_at r n tot q \<and> tot + n + b < 2 ^ 26)"

lemma q_at_count:
  assumes "q_at r n tot q" shows "q_count q = n" and "unat (m_iRead q) div 32 = r"
proof -
  have "m_iWriteTotal q - m_iReadTotal q = of_nat (32 * n)" using assms by (simp add: q_at_def algebra_simps)
  moreover have "n \<le> 15" "r < 15" using assms by (auto simp: q_at_def)
  ultimately show "q_count q = n"
    by (simp add: q_count_def unsigned_of_nat take_bit_nat_eq_self del: of_nat_mult)
  show "unat (m_iRead q) div 32 = r"
    using assms \<open>r < 15\<close> by (simp add: q_at_def unsigned_of_nat take_bit_nat_eq_self del: of_nat_mult)
qed

lemma q_at_content:
  "q_at r n tot q \<Longrightarrow> q_content q = map (\<lambda>i. message_of (slot (m_Queue q) ((r + i) mod 15))) [0..<n]"
  by (simp add: q_content_def q_at_count)

lemma of_nat_slot_eq:
  "p < 15 \<Longrightarrow> p' < 15 \<Longrightarrow> (of_nat (32 * p) :: u32) = of_nat (32 * p') \<longleftrightarrow> p = p'"
proof
  assume p: "p < 15" "p' < 15" "(of_nat (32 * p) :: u32) = of_nat (32 * p')"
  have "unat (of_nat (32 * p) :: u32) = 32 * p" "unat (of_nat (32 * p') :: u32) = 32 * p'"
    using p(1,2) by (simp_all add: unsigned_of_nat take_bit_nat_eq_self del: of_nat_mult)
  then show "p = p'" using p(3) by (metis mult_cancel1 zero_neq_numeral)
qed simp

lemma mod_slot_eq: "(r + n) mod 15 = r \<longleftrightarrow> n = 0 \<or> n = 15" if "r < 15" "n \<le> (15 :: nat)"
  using that by (auto simp: mod_if)

lemma q_at_full: assumes "q_at r n tot q" shows "queue_full q \<longleftrightarrow> n = 15"
proof -
  have r: "r < 15" "n \<le> 15" "(r + n) mod 15 < 15" using assms by (auto simp: q_at_def)
  have "m_iRead q = m_iWrite q \<longleftrightarrow> r = (r + n) mod 15"
    using assms of_nat_slot_eq [OF r(1,3)] by (simp only: q_at_def)
  then have idx: "m_iRead q = m_iWrite q \<longleftrightarrow> n = 0 \<or> n = 15" using mod_slot_eq [OF r(1,2)] by metis
  have "m_iWriteTotal q = m_iReadTotal q + of_nat (32 * n)"
    using assms unfolding q_at_def by (simp only: distrib_left of_nat_add)
  moreover have "(of_nat (32 * n) :: u32) = 0 \<longleftrightarrow> n = 0"
    using r(2) by (auto simp: word_of_nat_eq_0_iff dvd_def simp del: of_nat_mult)
  ultimately have tot: "m_iReadTotal q = m_iWriteTotal q \<longleftrightarrow> n = 0" by (metis add.right_neutral add_left_cancel)
  show ?thesis unfolding queue_full_def idx tot by auto
qed

lemma slot_other:
  assumes "blit d (32 * w) xs = Some d'" and "length xs \<le> 32" and "p \<noteq> w" and "length d = 480" and "p < 15"
  shows "slot d' p = slot d p"
proof (rule nth_equalityI)
  have l: "length d' = 480" using length_blit [OF assms(1)] assms(4) by simp
  then show "length (slot d' p) = length (slot d p)" using assms(4) by (simp add: slot_def)
  fix i assume "i < length (slot d' p)"
  then have i: "i < 32" "32 * p + i < 480" using l assms(5) by (auto simp: slot_def)
  have "\<not> (32 * w \<le> 32 * p + i \<and> 32 * p + i < 32 * w + length xs)"
    using assms(2,3) i(1) by (cases "p < w") auto
  then have "d' ! (32 * p + i) = d ! (32 * p + i)"
    using blit_nth [OF assms(1), of "32 * p + i"] i assms(4) by (simp only: if_False)
  then show "slot d' p ! i = slot d p ! i" using i assms(4) l by (simp add: slot_def)
qed

lemma slot_written:
  assumes "blit d (32 * w) xs = Some d'" and "length xs \<le> 32" and "length d = 480" and "w < 15"
  shows "\<exists>R. slot d' w = xs @ R"
proof -
  have "d' = take (32 * w) d @ xs @ drop (32 * w + length xs) d" "length (take (32 * w) d) = 32 * w"
    using assms by (auto simp: blit_Some_iff)
  then show ?thesis using assms(2) by (auto simp: slot_def)
qed

lemma blit_blit:
  assumes "i + length (xs @ ys) \<le> length d"
  shows "do { d1 \<leftarrow> blit d i xs; blit d1 (i + length xs) ys } = blit d i (xs @ ys)"
proof -
  have "length (take i d) = i" using assms by simp
  then show ?thesis using assms by (auto simp: blit_def ac_simps)
qed

definition valid_msg :: "int \<times> int \<times> mem \<Rightarrow> bool" where
  "valid_msg m = (case m of (modid, len, body) \<Rightarrow>
     - 32768 \<le> modid \<and> modid < 32768 \<and> 0 \<le> len \<and> len \<le> 28 \<and> length body = nat len)"

lemma message_of_valid:
  assumes "valid_msg (modid, len, body)"
  shows "message_of (le16 (of_int modid) @ le16 (of_int len) @ body @ R) = (modid, len, body)"
proof -
  have "take 2 (le16 a @ x) = le16 a" "drop 2 (le16 a @ x) = x" for a x by simp_all
  moreover have "drop 4 (le16 a @ le16 b @ x) = x" for a b x by simp
  ultimately show ?thesis
    using assms by (simp add: message_of_def Let_def valid_msg_def sint_u16_of_int)
qed

text \<open>Writing a slot appends the message.\<close>

lemma write_slot_appends:
  assumes "q_at r n tot q" and "n < 15" and "valid_msg (modid, len, body)"
  shows "\<exists>q'. write_slot modid body len q = Some q' \<and> q_at r (Suc n) tot q' \<and>
    q_content q' = q_content q @ [(modid, len, body)]"
proof -
  define w where "w = (r + n) mod 15"
  let ?xs = "le16 (of_int modid) @ le16 (of_int len)"
  have w: "w < 15" "m_iWrite q = of_nat (32 * w)" "length (m_Queue q) = 480" "r < 15"
    using assms(1) by (auto simp: w_def q_at_def)
  have body: "length body = nat len" "nat len \<le> 28" using assms(3) by (auto simp: valid_msg_def)
  have fit: "32 * w + length (?xs @ body) \<le> length (m_Queue q)" using w body by simp
  then obtain d2 where d2: "blit (m_Queue q) (32 * w) (?xs @ body) = Some d2" by (auto simp: blit_def)
  then have both: "do { d1 \<leftarrow> blit (m_Queue q) (32 * w) ?xs; blit d1 (32 * w + 4) body } = Some d2"
    using blit_blit [OF fit] by simp
  have idx: "slot_index (m_iWrite q) = Some (32 * w)" unfolding w(2) using w(1) by (intro slot_index_of_nat) simp
  have sl: "slice body 0 (nat len) = Some body" using body by (simp add: slice_def)
  let ?q = "q\<lparr>m_Queue := d2, m_iWrite := next_slot (m_iWrite q), m_iWriteTotal := m_iWriteTotal q + of_nat SM_MSG_SIZE\<rparr>"
  have ws: "write_slot modid body len q = Some ?q"
    using both idx sl unfolding write_slot_def by (auto split: bind_splits)
  have "Suc w mod 15 = (r + Suc n) mod 15" by (simp add: w_def mod_Suc_eq)
  then have at: "q_at r (Suc n) tot ?q"
    using assms(1,2) next_slot_of_nat [OF w(1)] length_blit [OF d2] w
    by (simp add: q_at_def SM_MSG_SIZE_def algebra_simps)
  have new: "message_of (slot d2 w) = (modid, len, body)"
  proof -
    obtain R where "slot d2 w = (?xs @ body) @ R" using slot_written [OF d2] w body by auto
    then show ?thesis using message_of_valid [OF assms(3)] by simp
  qed
  have old: "slot d2 ((r + i) mod 15) = slot (m_Queue q) ((r + i) mod 15)" if "i < n" for i
  proof (rule slot_other [OF d2])
    show "(r + i) mod 15 \<noteq> w" using that assms(2) w(4) by (auto simp: w_def mod_if split: if_splits)
  qed (use body w in auto)
  show ?thesis
    using ws at new old q_at_content [OF at] q_at_content [OF assms(1)] by (simp add: w_def)
qed

text \<open>The queue part of \<open>comm_poll\<close>: the next message, and the queue without it.\<close>

definition msgq_fetch :: "msgq \<Rightarrow> ((int \<times> int \<times> mem) option \<times> msgq) option" where
  "msgq_fetch q =
     (if sint (m_iReadTotal q) < sint (m_iWriteTotal q)
      then do { r \<leftarrow> slot_index (m_iRead q);
                (modid, len, body) \<leftarrow> slot_message (m_Queue q) r;
                Some (Some (modid, len, body),
                      q\<lparr>m_iRead := next_slot (m_iRead q), m_iReadTotal := m_iReadTotal q + of_nat SM_MSG_SIZE\<rparr>) }
      else Some (None, q))"

definition cut :: "int \<times> int \<times> mem \<Rightarrow> int \<times> int \<times> mem" where
  "cut m = (case m of (modid, len, body) \<Rightarrow> (modid, len, take (nat len) body))"

lemma comm_poll_fetch:
  "comm_poll mods q s =
     do { (m, q') \<leftarrow> msgq_fetch q;
          Some (q', case m of None \<Rightarrow> s | Some m \<Rightarrow> try_to_dispatch_msg mods m s) }"
  unfolding comm_poll_def msgq_fetch_def
  by (cases "slot_index (m_iRead q)"; cases "slot_message (m_Queue q) (the (slot_index (m_iRead q)))")
    (auto simp: Let_def)

lemma slot_message_of:
  assumes "p < 15" and "length d = 480"
  shows "map_option cut (slot_message d (32 * p)) = Some (message_of (slot d p))"
  using assms by (simp add: slot_message_def slice_def SM_MSG_SIZE_def cut_def message_of_def Let_def slot_def)

lemma q_at_totals:
  assumes "q_at r n tot q" and "tot + n < 2 ^ 26"
  shows "sint (m_iReadTotal q) < sint (m_iWriteTotal q) \<longleftrightarrow> 0 < n"
proof -
  have "sint (m_iReadTotal q) = int (32 * tot)" "sint (m_iWriteTotal q) = int (32 * (tot + n))"
    using assms unfolding q_at_def by (simp_all only:, intro sint_u32_of_nat, simp, intro sint_u32_of_nat, simp)
  then show ?thesis by simp
qed

lemma fetch_head:
  assumes "q_at r n tot q" and "tot + n < 2 ^ 26"
  shows "\<exists>m q'. msgq_fetch q = Some (m, q') \<and>
    (if n = 0 then m = None \<and> q' = q
     else (\<exists>x. m = Some x \<and> q_content q = cut x # q_content q') \<and> q_at (Suc r mod 15) (n - 1) (Suc tot) q')"
proof (cases "n = 0")
  case True
  then show ?thesis using q_at_totals [OF assms] by (auto simp: msgq_fetch_def)
next
  case False
  have r: "r < 15" "m_iRead q = of_nat (32 * r)" "length (m_Queue q) = 480" using assms(1) by (auto simp: q_at_def)
  obtain x where x: "slot_message (m_Queue q) (32 * r) = Some x" "cut x = message_of (slot (m_Queue q) r)"
    using slot_message_of [OF r(1,3)] by auto
  let ?q = "q\<lparr>m_iRead := next_slot (m_iRead q), m_iReadTotal := m_iReadTotal q + of_nat SM_MSG_SIZE\<rparr>"
  have "slot_index (m_iRead q) = Some (32 * r)" unfolding r(2) using r(1) by (intro slot_index_of_nat) simp
  then have f: "msgq_fetch q = Some (Some x, ?q)"
    using x(1) q_at_totals [OF assms] False by (auto simp: msgq_fetch_def split: prod.split)
  obtain k where k: "n = Suc k" using False by (cases n) auto
  have "(Suc r mod 15 + k) mod 15 = (r + n) mod 15" by (simp add: k mod_simps)
  then have at: "q_at (Suc r mod 15) (n - 1) (Suc tot) ?q"
    using assms(1) next_slot_of_nat [OF r(1)] by (simp add: q_at_def k SM_MSG_SIZE_def algebra_simps)
  have "q_content q = message_of (slot (m_Queue q) r) # map (\<lambda>i. message_of (slot (m_Queue q) ((r + Suc i) mod 15))) [0..<k]"
    using r(1) unfolding q_at_content [OF assms(1)] k
    by (subst upt_conv_Cons) (simp_all add: o_def del: upt_Suc flip: map_Suc_upt)
  moreover have "q_content ?q = map (\<lambda>i. message_of (slot (m_Queue q) ((r + Suc i) mod 15))) [0..<k]"
    using q_at_content [OF at] by (simp add: k mod_simps)
  ultimately show ?thesis
    using f at x(2) False by (intro exI [of _ "Some x"] exI [of _ ?q]) (simp add: exI [of _ x])
qed

text \<open>The queue with the boot loader as producer and the firmware as consumer.\<close>

definition bl_put :: "int \<times> int \<times> mem \<Rightarrow> msgq \<Rightarrow> (bool \<times> msgq) option" where
  "bl_put m q = (case m of (modid, len, body) \<Rightarrow>
     map_option (\<lambda>(r, q'). (r = S_OK, q')) (MV_SM_Send_Msg modid body len q))"

definition sm_put :: "int \<times> int \<times> mem \<Rightarrow> msgq \<Rightarrow> (bool \<times> msgq) option" where
  "sm_put m q = (case m of (modid, len, body) \<Rightarrow>
     map_option (\<lambda>(r, _, q'). (r = S_OK, q')) (sm_send_msg modid body len q))"

definition sm_get :: "msgq \<Rightarrow> ((int \<times> int \<times> mem) option \<times> msgq) option" where
  "sm_get q = map_option (\<lambda>(m, q'). (map_option cut m, q')) (msgq_fetch q)"

lemma len_test: "valid_msg (modid, len, body) \<Longrightarrow> \<not> of_nat SM_MSG_BODY_SIZE < (of_int len :: u32)"
proof -
  assume "valid_msg (modid, len, body)"
  then have "0 \<le> len" "len \<le> 28" by (auto simp: valid_msg_def)
  then have "uint (of_int len :: u32) \<le> 28" by (simp add: unsigned_of_int take_bit_int_eq_self)
  then show ?thesis by (simp add: SM_MSG_BODY_SIZE_def word_less_def)
qed

lemma put_laws:
  assumes "q_inv (Suc b) q" and "valid_msg m"
  shows "\<exists>ok q'. bl_put m q = Some (ok, q') \<and> sm_put m q = Some (ok, q') \<and> q_inv b q' \<and>
    ok = (length (q_content q) < 15) \<and> q_content q' = q_content q @ (if ok then [m] else [])"
proof -
  obtain modid len body where m: "m = (modid, len, body)" by (cases m)
  obtain r n tot where q: "q_at r n tot q" "tot + n + Suc b < 2 ^ 26" using assms(1) by (auto simp: q_inv_def)
  have n: "length (q_content q) = n" "n \<le> 15" using q_at_content [OF q(1)] q(1) by (auto simp: q_at_def)
  have lt: "\<not> of_nat SM_MSG_BODY_SIZE < (of_int len :: u32)" "\<not> 28 < len"
    using len_test [of modid len body] assms(2) m by (auto simp: valid_msg_def)
  show ?thesis
  proof (cases "n = 15")
    case True
    then have "queue_full q" using q_at_full [OF q(1)] by simp
    moreover have "tot + n + b < 2 ^ 26" using q(2) by simp
    then have "q_inv b q" using q(1) unfolding q_inv_def by blast
    ultimately show ?thesis
      using True n lt
      by (intro exI [of _ False] exI [of _ q])
        (simp add: bl_put_def sm_put_def m MV_SM_Send_Msg_def sm_send_msg_def S_OK_def S_FALSE_def)
  next
    case False
    then obtain q' where q': "write_slot modid body len q = Some q'" "q_at r (Suc n) tot q'"
      "q_content q' = q_content q @ [m]"
      using write_slot_appends [OF q(1), of modid len body] n(2) assms(2) m by auto
    have "tot + Suc n + b < 2 ^ 26" using q(2) by simp
    then have "q_inv b q'" using q'(2) unfolding q_inv_def by blast
    moreover have "\<not> queue_full q" using q_at_full [OF q(1)] False by simp
    ultimately show ?thesis
      using q' n False lt by (auto simp: bl_put_def sm_put_def m MV_SM_Send_Msg_def sm_send_msg_def S_OK_def)
  qed
qed

lemma get_laws:
  assumes "q_inv b q"
  shows "\<exists>r q'. sm_get q = Some (r, q') \<and> q_inv b q' \<and>
    q_content q = (case r of None \<Rightarrow> [] | Some m \<Rightarrow> [m]) @ q_content q' \<and> (r = None \<longrightarrow> q_content q = [])"
proof -
  obtain r n tot where q: "q_at r n tot q" "tot + n + b < 2 ^ 26" using assms(1) by (auto simp: q_inv_def)
  then obtain m q' where f: "msgq_fetch q = Some (m, q')"
    "if n = 0 then m = None \<and> q' = q
     else (\<exists>x. m = Some x \<and> q_content q = cut x # q_content q') \<and> q_at (Suc r mod 15) (n - 1) (Suc tot) q'"
    using fetch_head [OF q(1)] by auto
  show ?thesis
  proof (cases "n = 0")
    case True
    then show ?thesis using f assms q_at_content [OF q(1)] by (simp add: sm_get_def)
  next
    case False
    have "Suc tot + (n - 1) + b < 2 ^ 26" using q(2) False by simp
    moreover have "q_at (Suc r mod 15) (n - 1) (Suc tot) q'" using f(2) False by simp
    ultimately have "q_inv b q'" unfolding q_inv_def by blast
    then show ?thesis using f False by (auto simp: sm_get_def)
  qed
qed

interpretation blq: fifo q_inv q_content 15 valid_msg bl_put sm_get
proof
  fix b q and m :: "int \<times> int \<times> mem"
  assume "q_inv (Suc b) q" "valid_msg m"
  from put_laws [OF this] show "\<exists>ok q'. bl_put m q = Some (ok, q') \<and> q_inv b q' \<and> ok = (length (q_content q) < 15) \<and>
      q_content q' = q_content q @ (if ok then [m] else [])" by blast
next
  fix b q assume "q_inv b q"
  then show "length (q_content q) \<le> 15" using q_at_content by (auto simp: q_inv_def q_at_def)
qed (erule get_laws)

interpretation smq: fifo q_inv q_content 15 valid_msg sm_put sm_get
proof
  fix b q and m :: "int \<times> int \<times> mem"
  assume "q_inv (Suc b) q" "valid_msg m"
  from put_laws [OF this] show "\<exists>ok q'. sm_put m q = Some (ok, q') \<and> q_inv b q' \<and> ok = (length (q_content q) < 15) \<and>
      q_content q' = q_content q @ (if ok then [m] else [])" by blast
qed (erule get_laws, erule blq.cap_law)

section \<open>What the queues and the message task guarantee\<close>

text \<open>Rounds of the message task.\<close>

primrec comm_task_rounds :: "nat \<Rightarrow> 's rt_module_desc list \<Rightarrow> sm_queues \<Rightarrow> 's \<Rightarrow> (sm_queues \<times> 's) option" where
  "comm_task_rounds 0 mods qs s = Some (qs, s)"
| "comm_task_rounds (Suc n) mods qs s =
     do { (qs', s') \<leftarrow> comm_task_round mods qs s; comm_task_rounds n mods qs' s' }"

definition dispatch_all :: "'s rt_module_desc list \<Rightarrow> (int \<times> int \<times> mem) list \<Rightarrow> 's \<Rightarrow> 's" where
  "dispatch_all mods msgs s = fold (try_to_dispatch_msg mods) msgs s"

lemma comm_poll_step:
  assumes "q_inv b q"
  shows "\<exists>q' ms. comm_poll mods q s = Some (q', dispatch_all mods ms s) \<and> q_inv b q' \<and>
    q_content q = map cut ms @ q_content q' \<and> length (q_content q') = length (q_content q) - 1"
proof -
  obtain r q' where g: "sm_get q = Some (r, q')" "q_inv b q'"
    "q_content q = (case r of None \<Rightarrow> [] | Some m \<Rightarrow> [m]) @ q_content q'" "r = None \<longrightarrow> q_content q = []"
    using get_laws [OF assms] by blast
  then obtain m where m: "msgq_fetch q = Some (m, q')" "r = map_option cut m" by (auto simp: sm_get_def)
  define ms where "ms = (case m of None \<Rightarrow> [] | Some x \<Rightarrow> [x])"
  have "comm_poll mods q s = Some (q', dispatch_all mods ms s)"
    using m(1) by (simp add: comm_poll_fetch ms_def dispatch_all_def split: option.split)
  moreover have "q_content q = map cut ms @ q_content q'"
    using g(3) m(2) by (simp add: ms_def split: option.splits)
  moreover have "length (q_content q') = length (q_content q) - 1"
    using g(3,4) by (cases r) auto
  ultimately show ?thesis using g(2) by blast
qed

lemma shuffles_prepend:
  assumes "zs \<in> shuffles xs ys"
  shows "us @ zs \<in> shuffles (us @ xs) ys" and "us @ zs \<in> shuffles xs (us @ ys)"
  using assms by (induction us) (auto intro: Cons_in_shuffles_leftI Cons_in_shuffles_rightI)

lemma shuffles_append:
  "zs \<in> shuffles xs ys \<Longrightarrow> zs' \<in> shuffles xs' ys' \<Longrightarrow> zs @ zs' \<in> shuffles (xs @ xs') (ys @ ys')"
  by (induction xs ys arbitrary: zs rule: shuffles.induct)
    (auto simp: shuffles_prepend intro: Cons_in_shuffles_leftI Cons_in_shuffles_rightI)

lemma shuffles_map: "zs \<in> shuffles xs ys \<Longrightarrow> map f zs \<in> shuffles (map f xs) (map f ys)"
  by (induction xs ys arbitrary: zs rule: shuffles.induct)
    (auto intro: Cons_in_shuffles_leftI Cons_in_shuffles_rightI)

lemma comm_task_rounds_dispatch:
  assumes "q_inv b (msgq_input0 qs)" and "q_inv b (msgq_input1 qs)"
  shows "\<exists>qs' ms0 ms1 ms. comm_task_rounds n mods qs s = Some (qs', dispatch_all mods ms s) \<and>
    ms \<in> shuffles ms0 ms1 \<and>
    q_content (msgq_input0 qs) = map cut ms0 @ q_content (msgq_input0 qs') \<and>
    q_content (msgq_input1 qs) = map cut ms1 @ q_content (msgq_input1 qs') \<and>
    length (q_content (msgq_input0 qs')) = length (q_content (msgq_input0 qs)) - n \<and>
    length (q_content (msgq_input1 qs')) = length (q_content (msgq_input1 qs)) - n"
  using assms
proof (induction n arbitrary: qs s)
  case 0
  show ?case by (intro exI [of _ qs] exI [of _ "[]"]) (simp add: dispatch_all_def)
next
  case (Suc n)
  let ?q0 = "msgq_input0 qs" and ?q1 = "msgq_input1 qs"
  obtain q0 m0 where q0: "comm_poll mods ?q0 s = Some (q0, dispatch_all mods m0 s)" "q_inv b q0"
    "q_content ?q0 = map cut m0 @ q_content q0" "length (q_content q0) = length (q_content ?q0) - 1"
    using comm_poll_step [OF Suc.prems(1), of mods s] by (elim exE conjE)
  obtain q1 m1 where q1: "comm_poll mods ?q1 (dispatch_all mods m0 s) = Some (q1, dispatch_all mods m1 (dispatch_all mods m0 s))"
    "q_inv b q1" "q_content ?q1 = map cut m1 @ q_content q1" "length (q_content q1) = length (q_content ?q1) - 1"
    using comm_poll_step [OF Suc.prems(2), of mods "dispatch_all mods m0 s"] by (elim exE conjE)
  let ?qs = "qs\<lparr>msgq_input0 := q0, msgq_input1 := q1\<rparr>"
  have i: "msgq_input0 ?qs = q0" "msgq_input1 ?qs = q1" by simp_all
  obtain qs' ms0 ms1 ms where r: "comm_task_rounds n mods ?qs (dispatch_all mods (m0 @ m1) s) =
      Some (qs', dispatch_all mods ms (dispatch_all mods (m0 @ m1) s))" "ms \<in> shuffles ms0 ms1"
    "q_content q0 = map cut ms0 @ q_content (msgq_input0 qs')" "q_content q1 = map cut ms1 @ q_content (msgq_input1 qs')"
    "length (q_content (msgq_input0 qs')) = length (q_content q0) - n"
    "length (q_content (msgq_input1 qs')) = length (q_content q1) - n"
    using Suc.IH [of ?qs "dispatch_all mods (m0 @ m1) s", unfolded i, OF q0(2) q1(2)] by (elim exE conjE)
  have "(m0 @ m1) @ ms \<in> shuffles (m0 @ ms0) (m1 @ ms1)"
    using shuffles_append [of "m0 @ m1" m0 m1] shuffles_prepend(1) [of m1 "[]" m1 m0] r(2) by simp
  moreover have "comm_task_rounds (Suc n) mods qs s = Some (qs', dispatch_all mods ((m0 @ m1) @ ms) s)"
    using q0(1) q1(1) r(1) by (simp add: comm_task_round_def dispatch_all_def)
  moreover have "q_content ?q0 = map cut (m0 @ ms0) @ q_content (msgq_input0 qs')"
    "q_content ?q1 = map cut (m1 @ ms1) @ q_content (msgq_input1 qs')"
    unfolding q0(3) q1(3) r(3,4) by simp_all
  moreover have "length (q_content (msgq_input0 qs')) = length (q_content ?q0) - Suc n"
    "length (q_content (msgq_input1 qs')) = length (q_content ?q1) - Suc n"
    unfolding r(5,6) q0(4) q1(4) by simp_all
  ultimately show ?case by (intro exI conjI)
qed

text \<open>Who gets a message.\<close>

definition recipients :: "('s rt_module_desc \<Rightarrow> 's handler option) \<Rightarrow> 's rt_module_desc list \<Rightarrow> int \<Rightarrow> 's handler list" where
  "recipients h mods modid =
     (let hs = filter (\<lambda>m. h m \<noteq> None) mods in
      map (the \<circ> h) (if modid = BOARDCASTMSG then hs else take 1 (filter (\<lambda>m. module_id m = modid) hs)))"

lemma dispatch_from_recipients:
  assumes "BOARDCASTMSG \<notin> module_id ` set mods"
  shows "dispatch_from h mods modid body len i s =
    fold (\<lambda>f s. snd (f body len s)) (recipients h (drop i mods) modid) s"
  using assms
proof (induction h mods modid body len i s rule: dispatch_from.induct)
  case (1 h mods modid body len i s)
  show ?case
  proof (cases "get_rt_module_desc mods i")
    case None
    then have "drop i mods = []" by (auto simp: get_rt_module_desc_def split: if_splits)
    then show ?thesis using None by (subst dispatch_from.simps) (simp add: recipients_def)
  next
    case (Some m)
    then have d: "drop i mods = m # drop (Suc i) mods" "m \<in> set mods"
      by (auto simp: get_rt_module_desc_def Cons_nth_drop_Suc split: if_splits)
    then have nb: "module_id m \<noteq> BOARDCASTMSG" using 1(4) by (metis imageI)
    show ?thesis
    proof (cases "h m")
      case None
      then show ?thesis
        using 1(1) [OF Some None 1(4)] Some d(1) by (subst dispatch_from.simps) (simp add: recipients_def Let_def)
    next
      case (Some f)
      note sf = \<open>get_rt_module_desc mods i = Some m\<close> Some
      consider "modid = module_id m" | "modid \<noteq> module_id m" "modid = BOARDCASTMSG"
        | "modid \<noteq> module_id m" "modid \<noteq> BOARDCASTMSG" by blast
      then show ?thesis
      proof cases
        case 1
        then show ?thesis using sf d(1) nb by (subst dispatch_from.simps) (simp add: recipients_def Let_def)
      next
        case 2
        then show ?thesis
          using "1.IH"(2) [OF sf _ refl 2(1) "1.prems"] sf d(1)
          by (subst dispatch_from.simps) (simp add: recipients_def Let_def)
      next
        case 3
        then show ?thesis
          using "1.IH"(3) [OF sf _ "1.prems"] sf d(1)
          by (subst dispatch_from.simps) (simp add: recipients_def Let_def)
      qed
    qed
  qed
qed

text \<open>The order of the initialisers.\<close>

definition run_init :: "'s rt_init_desc \<Rightarrow> 's \<Rightarrow> 's" where
  "run_init d s = (case init_func d of None \<Rightarrow> s | Some f \<Rightarrow> snd (f s))"

lemma dev_init_pass_fold:
  "dev_init_pass ds prio i s = fold run_init (filter (\<lambda>d. init_p d = prio) (drop i ds)) s"
proof (induction ds prio i s rule: dev_init_pass.induct)
  case (1 ds prio i s)
  show ?case
  proof (cases "get_rt_init_desc ds i")
    case None
    then have "drop i ds = []" by (auto simp: get_rt_init_desc_def split: if_splits)
    then show ?thesis using None by (subst dev_init_pass.simps) simp
  next
    case (Some d)
    then have "drop i ds = d # drop (Suc i) ds"
      by (auto simp: get_rt_init_desc_def Cons_nth_drop_Suc split: if_splits)
    then show ?thesis using Some 1 [OF Some] by (subst dev_init_pass.simps) (simp add: run_init_def [of d s] split: option.split)
  qed
qed

lemma mset_filter_key:
  "mset (concat (map (\<lambda>k. filter (\<lambda>x. f x = k) xs) [a..<b])) = mset (filter (\<lambda>x. a \<le> f x \<and> f x < b) xs)"
proof (induction b)
  case (Suc b)
  have "mset (filter (\<lambda>x. a \<le> f x \<and> f x < Suc b) xs) =
      mset (filter (\<lambda>x. a \<le> f x \<and> f x < b) xs) + mset (filter (\<lambda>x. f x = b) xs)" if "a \<le> b"
    using that by (induction xs) (auto simp: less_Suc_eq)
  then show ?case using Suc by (cases "a \<le> b") (auto simp: filter_False)
qed simp

lemma sorted_filter_key: "sorted (map f (concat (map (\<lambda>k. filter (\<lambda>x. f x = k) xs) [a..<b])))"
proof (induction b)
  case (Suc b)
  have "sorted (map f (filter (\<lambda>x. f x = b) xs))" by (induction xs) auto
  then show ?case using Suc by (auto simp: sorted_append)
qed simp

lemma filter_filter_key:
  "a \<le> k \<Longrightarrow> k < b \<Longrightarrow>
     filter (\<lambda>x. f x = k) (concat (map (\<lambda>k. filter (\<lambda>x. f x = k) xs) [a..<b])) = filter (\<lambda>x. f x = k) xs"
proof (induction b)
  case (Suc b)
  have n: "filter (\<lambda>x. f x = k \<and> f x = j) xs = (if j = k then filter (\<lambda>x. f x = k) xs else [])" for j
    by (auto simp: filter_empty_conv cong: conj_cong)
  have "filter (\<lambda>x. f x = k) (concat (map (\<lambda>k. filter (\<lambda>x. f x = k) xs) [a..<k])) = []"
    by (auto simp: filter_empty_conv)
  then show ?case using Suc by (cases "k = b") (auto simp: n less_Suc_eq)
qed simp

lemma sort_key_passes:
  "concat (map (\<lambda>k. filter (\<lambda>x. f x = k) xs) [a..<b]) = sort_key f (filter (\<lambda>x. a \<le> f x \<and> f x < b) xs)"
proof (rule properties_for_sort_key [symmetric])
  fix y assume "y \<in> set (concat (map (\<lambda>k. filter (\<lambda>x. f x = k) xs) [a..<b]))"
  then have y: "a \<le> f y" "f y < b" by auto
  show "filter (\<lambda>x. f y = f x) (concat (map (\<lambda>k. filter (\<lambda>x. f x = k) xs) [a..<b])) =
      filter (\<lambda>x. f y = f x) (filter (\<lambda>x. a \<le> f x \<and> f x < b) xs)"
    using filter_filter_key [OF y, of f xs] y by (auto simp: eq_commute [of "f y"] intro!: filter_cong)
qed (rule mset_filter_key, rule sorted_filter_key)

lemma fold_concat: "fold g (concat xss) s = foldl (\<lambda>s xs. fold g xs s) s xss"
  by (induction xss arbitrary: s) auto

lemma dev_init_sorts:
  "dev_init ds s = fold run_init (sort_key init_p (filter (\<lambda>d. 1 \<le> init_p d \<and> init_p d \<le> 5) ds)) s"
proof -
  have "dev_init ds s = fold run_init (concat (map (\<lambda>k. filter (\<lambda>d. init_p d = k) ds) [1..<6])) s"
    by (simp only: fold_concat foldl_map dev_init_def dev_init_pass_fold INIT_DEV_P_0_def INIT_MAX_99_def drop_0)
      (simp add: eval_nat_numeral)
  then show ?thesis unfolding sort_key_passes by (simp add: less_Suc_eq_le [of _ 5, simplified])
qed

text \<open>The totals reach the sign bit after \<open>2 ^ 26\<close> messages.\<close>

lemma comm_poll_stalls:
  assumes "q_at r 0 (2 ^ 26 - 1) q" and "valid_msg (modid, len, body)"
  shows "\<exists>q'. MV_SM_Send_Msg modid body len q = Some (S_OK, q') \<and> q_content q' = [(modid, len, body)] \<and>
    (\<forall>(mods :: 's rt_module_desc list) s. comm_poll mods q' s = Some (q', s))"
proof -
  obtain q' where q': "write_slot modid body len q = Some q'" "q_at r 1 (2 ^ 26 - 1) q'"
    "q_content q' = q_content q @ [(modid, len, body)]"
    using write_slot_appends [OF assms(1) _ assms(2)] by auto
  have "\<not> queue_full q" "q_content q = []" using q_at_full [OF assms(1)] q_at_content [OF assms(1)] by auto
  moreover have "\<not> 28 < len" using assms(2) by (simp add: valid_msg_def)
  moreover have "m_iReadTotal q' = of_nat (32 * (2 ^ 26 - 1))" "m_iWriteTotal q' = of_nat (32 * 2 ^ 26)"
    using q'(2) by (simp_all add: q_at_def)
  then have "comm_poll mods q' s = Some (q', s)" for mods :: "'s rt_module_desc list" and s
    by (simp add: comm_poll_def)
  ultimately show ?thesis using q' by (simp add: MV_SM_Send_Msg_def)
qed

section \<open>Properties\<close>

text \<open>
  C8: let the queue's byte totals stay below 2^31 (fewer than 2^26 messages since the queues were
  set up) and let every message sent have at most 28 bytes.  Whatever the interleaving of the boot loader's \<open>MV_SM_Send_Msg\<close>
  calls with the fetches of the firmware's message task, every operation stays inside the queue
  and the run is that of a list of at most 15 waiting messages: a message is accepted if and only if
  fewer than 15 wait, a fetch delivers if and only if one waits, and the messages delivered are the
  waiting and the accepted ones in the order of their sending.
\<close>

theorem sm_messages_in_order:
  assumes "q_inv (length (puts ops) + b) q" and "\<forall>m \<in> set (puts ops). valid_msg m"
  shows "\<exists>acc del q'. fifo_run bl_put sm_get ops q = Some (acc, del, q') \<and> q_inv b q' \<and>
    queue_run 15 ops (q_content q) = (acc, del, q_content q') \<and>
    del @ q_content q' = q_content q @ acc \<and> length (q_content q') \<le> 15"
  using assms by (rule blq.run_order)

lemma q_at_empty: "q_at 0 0 0 empty_msgq"
  by (simp add: q_at_def empty_msgq_def)

lemma q_inv_empty: "b < 2 ^ 26 \<Longrightarrow> q_inv b empty_msgq"
  unfolding q_inv_def using q_at_empty by (metis add_0)

theorem sm_messages_in_order_witness:
  "\<exists>q'. fifo_run bl_put sm_get (replicate 16 (Put (7, 2, [1, 2])) @ [Get, Put (3, 0, [])]) empty_msgq =
      Some (replicate 15 (7, 2, [1, 2]) @ [(3, 0, [])], [(7, 2, [1, 2])], q') \<and>
    q_content q' = replicate 14 (7, 2, [1, 2]) @ [(3, 0, [])]"
proof -
  let ?ops = "replicate 16 (Put (7 :: int, 2 :: int, [1, 2 :: u8])) @ [Get, Put (3, 0, [])]"
  have p: "puts ?ops = replicate 16 (7, 2, [1, 2]) @ [(3, 0, [])]" by (simp add: numeral_eq_Suc)
  have c: "q_content empty_msgq = []" using q_at_content [OF q_at_empty] by simp
  have "q_inv (length (puts ?ops) + 0) empty_msgq" "\<forall>m \<in> set (puts ?ops). valid_msg m"
    unfolding p by (auto simp: q_inv_empty valid_msg_def)
  from sm_messages_in_order [OF this] obtain acc del q' where
    "fifo_run bl_put sm_get ?ops empty_msgq = Some (acc, del, q')" "queue_run 15 ?ops [] = (acc, del, q_content q')"
    unfolding c by (elim exE conjE)
  moreover have "queue_run 15 ?ops [] = (replicate 15 (7, 2, [1, 2]) @ [(3, 0, [])], [(7, 2, [1, 2])],
      replicate 14 (7, 2, [1, 2]) @ [(3, 0, [])])" by code_simp
  ultimately show ?thesis by (intro exI [of _ q']) simp
qed

text \<open>
  C9: let the byte totals of both input queues be below 2^31.  Once nothing more is sent, the
  message task empties both input queues: after as many rounds as the longer queue has messages both
  are empty, and every waiting message has been dispatched exactly once, in the order of its queue.
\<close>

theorem comm_task_drains:
  assumes "q_inv b (msgq_input0 qs)" and "q_inv b (msgq_input1 qs)"
    and "length (q_content (msgq_input0 qs)) \<le> n" and "length (q_content (msgq_input1 qs)) \<le> n"
  shows "\<exists>qs' ms0 ms1 ms. comm_task_rounds n mods qs s = Some (qs', dispatch_all mods ms s) \<and>
    ms \<in> shuffles ms0 ms1 \<and> map cut ms0 = q_content (msgq_input0 qs) \<and> map cut ms1 = q_content (msgq_input1 qs) \<and>
    q_content (msgq_input0 qs') = [] \<and> q_content (msgq_input1 qs') = []"
proof -
  obtain qs' ms0 ms1 ms where r: "comm_task_rounds n mods qs s = Some (qs', dispatch_all mods ms s)"
    "ms \<in> shuffles ms0 ms1" "q_content (msgq_input0 qs) = map cut ms0 @ q_content (msgq_input0 qs')"
    "q_content (msgq_input1 qs) = map cut ms1 @ q_content (msgq_input1 qs')"
    "length (q_content (msgq_input0 qs')) = length (q_content (msgq_input0 qs)) - n"
    "length (q_content (msgq_input1 qs')) = length (q_content (msgq_input1 qs)) - n"
    using comm_task_rounds_dispatch [OF assms(1,2), of n mods s] by (elim exE conjE)
  have "q_content (msgq_input0 qs') = []" "q_content (msgq_input1 qs') = []"
    using r(5,6) assms(3,4) by (simp_all only: length_0_conv [symmetric])
  then show ?thesis using r by (intro exI conjI) simp_all
qed

text \<open>Queues with waiting messages, and modules that keep a log of what they receive.\<close>

definition waiting :: "(int \<times> int \<times> mem) list \<Rightarrow> msgq" where
  "waiting ms = fold (\<lambda>m q. snd (the (bl_put m q))) ms empty_msgq"

lemma waiting_content:
  "length ms \<le> 15 \<Longrightarrow> \<forall>m \<in> set ms. valid_msg m \<Longrightarrow> length ms + b < 2 ^ 26 \<Longrightarrow>
    q_inv b (waiting ms) \<and> q_content (waiting ms) = ms"
proof (induction ms arbitrary: b rule: rev_induct)
  case Nil
  then show ?case using q_inv_empty [of b] q_at_content [OF q_at_empty] by (simp add: waiting_def)
next
  case (snoc m ms)
  have "q_inv (Suc b) (waiting ms) \<and> q_content (waiting ms) = ms" by (rule snoc.IH) (use snoc.prems in simp_all)
  then show ?case using put_laws [of b "waiting ms" m] snoc.prems(1,2) by (auto simp: waiting_def)
qed

definition echo_module :: "int \<Rightarrow> (int \<times> mem) list rt_module_desc" where
  "echo_module i = \<lparr>module_id = i, c_task = None, msg_handle = Some (\<lambda>body len s. (0, s @ [(i, take (nat len) body)])),
     in_msg_handle = None\<rparr>"

lemma echo_dispatch:
  assumes "\<forall>m \<in> set ms. fst m \<in> {3, 4}"
  shows "dispatch_all [echo_module 3, echo_module 4] ms s = s @ map (\<lambda>m. (fst m, snd (snd (cut m)))) ms"
  using assms
proof (induction ms arbitrary: s)
  case (Cons m ms)
  have "try_to_dispatch_msg [echo_module 3, echo_module 4] m s = s @ [(fst m, snd (snd (cut m)))]"
    using Cons.prems by (cases m) (auto simp: try_to_dispatch_msg_def dispatch_from.simps get_rt_module_desc_def
        echo_module_def BOARDCASTMSG_def cut_def)
  then show ?case using Cons by (simp add: dispatch_all_def)
qed (simp add: dispatch_all_def)

theorem comm_task_drains_witness:
  "\<exists>qs' log. comm_task_rounds 2 [echo_module 3, echo_module 4]
      (create_comm_task\<lparr>msgq_input0 := waiting [(3, 2, [7, 8]), (4, 0, [])], msgq_input1 := waiting [(4, 1, [9])]\<rparr>) [] =
      Some (qs', log) \<and>
    log \<in> shuffles [(3, [7, 8]), (4, [])] [(4, [9])] \<and>
    q_content (msgq_input0 qs') = [] \<and> q_content (msgq_input1 qs') = []"
proof -
  let ?m0 = "[(3, 2, [7, 8]), (4, 0, [])] :: (int \<times> int \<times> mem) list" and ?m1 = "[(4, 1, [9])] :: (int \<times> int \<times> mem) list"
  let ?mods = "[echo_module 3, echo_module 4]" and ?f = "\<lambda>m :: int \<times> int \<times> mem. (fst m, snd (snd m))"
  have c: "q_inv 0 (waiting ?m0) \<and> q_content (waiting ?m0) = ?m0" "q_inv 0 (waiting ?m1) \<and> q_content (waiting ?m1) = ?m1"
    by (intro waiting_content; simp add: valid_msg_def)+
  let ?qs = "create_comm_task\<lparr>msgq_input0 := waiting ?m0, msgq_input1 := waiting ?m1\<rparr>"
  have q: "q_content (msgq_input0 ?qs) = ?m0" "q_content (msgq_input1 ?qs) = ?m1" using c by simp_all
  have "\<exists>qs' ms0 ms1 ms. comm_task_rounds 2 ?mods ?qs [] = Some (qs', dispatch_all ?mods ms []) \<and>
      ms \<in> shuffles ms0 ms1 \<and> map cut ms0 = ?m0 \<and> map cut ms1 = ?m1 \<and>
      q_content (msgq_input0 qs') = [] \<and> q_content (msgq_input1 qs') = []"
    by (rule comm_task_drains [of 0 ?qs 2 ?mods "[]", unfolded q]) (use c in simp_all)
  then obtain qs' ms0 ms1 ms where r: "comm_task_rounds 2 ?mods ?qs [] = Some (qs', dispatch_all ?mods ms [])"
    "ms \<in> shuffles ms0 ms1" "map cut ms0 = ?m0" "map cut ms1 = ?m1"
    "q_content (msgq_input0 qs') = []" "q_content (msgq_input1 qs') = []"
    by (elim exE conjE)
  have fc: "fst (cut m) = fst m" for m by (simp add: cut_def split: prod.split)
  have "cut ` set ms = cut ` (set ms0 \<union> set ms1)" using set_shuffles [OF r(2)] by simp
  also have "\<dots> = set ?m0 \<union> set ?m1" unfolding image_Un set_map [symmetric] r(3,4) ..
  finally have "\<forall>m \<in> set ms. cut m \<in> set ?m0 \<union> set ?m1" by blast
  then have "\<forall>m \<in> set ms. fst (cut m) \<in> {3, 4}" by auto
  then have "\<forall>m \<in> set ms. fst m \<in> {3, 4}" unfolding fc .
  from echo_dispatch [OF this, of "[]"] have l: "dispatch_all ?mods ms [] = map (?f \<circ> cut) ms" by (simp add: fc)
  have "map (?f \<circ> cut) ms \<in> shuffles (map (?f \<circ> cut) ms0) (map (?f \<circ> cut) ms1)"
    by (rule shuffles_map [OF r(2)])
  then have "dispatch_all ?mods ms [] \<in> shuffles [(3, [7, 8]), (4, [])] [(4, [9])]"
    unfolding l map_map [symmetric] r(3,4) by simp
  then show ?thesis using r(1,5,6) by (intro exI conjI)
qed

text \<open>
  C10: if no module has the broadcast number, a dispatched message reaches the handler of
  the first module with its number that has one, a broadcast the handlers of all modules,
  in the order of the descriptor section, and no other handler runs.
\<close>

theorem dispatch_reaches_recipients:
  assumes "BOARDCASTMSG \<notin> module_id ` set mods"
  shows "try_to_dispatch_msg mods (modid, len, body) s =
    fold (\<lambda>f s. snd (f body len s)) (recipients msg_handle mods modid) s"
  using dispatch_from_recipients [OF assms, of _ _ _ _ 0] by (simp add: try_to_dispatch_msg_def)

definition log_module :: "int \<Rightarrow> (int \<times> mem) list rt_module_desc" where
  "log_module i = \<lparr>module_id = i, c_task = None, msg_handle = Some (\<lambda>body len s. (0, s @ [(i, body)])),
     in_msg_handle = None\<rparr>"

theorem dispatch_reaches_recipients_witness:
  "try_to_dispatch_msg [log_module 3, log_module 4] (-1, 1, [9]) [] = [(3, [9]), (4, [9])] \<and>
   try_to_dispatch_msg [log_module 3, log_module 4] (4, 1, [9]) [] = [(4, [9])]"
  using dispatch_reaches_recipients [of "[log_module 3, log_module 4]"]
  by (simp add: log_module_def recipients_def BOARDCASTMSG_def)

text \<open>
  C11: start-up runs exactly the initialisers with priorities 1 to 5, by rising priority and
  in section order among equals.
\<close>

theorem dev_init_order:
  "dev_init ds s = fold run_init (sort_key init_p (filter (\<lambda>d. 1 \<le> init_p d \<and> init_p d \<le> 5) ds)) s"
  by (rule dev_init_sorts)

text \<open>
  C38: the counters of a queue are signed; the message that lifts them to \<open>2 ^ 31\<close> (the
  67108864th on a queue otherwise empty) is accepted by the sender and waits in the
  queue, but the message task never delivers it.
\<close>

theorem sm_queue_stalls:
  assumes "q_at r 0 (2 ^ 26 - 1) q" and "valid_msg (modid, len, body)"
  shows "\<exists>q'. MV_SM_Send_Msg modid body len q = Some (S_OK, q') \<and> q_content q' = [(modid, len, body)] \<and>
    (\<forall>(mods :: 's rt_module_desc list) s. comm_poll mods q' s = Some (q', s))"
  using assms by (rule comm_poll_stalls)

theorem sm_queue_stalls_witness:
  "\<exists>q'. MV_SM_Send_Msg 7 [1] 1 \<lparr>m_iWrite = 96, m_iRead = 96, m_iWriteTotal = 2147483616,
      m_iReadTotal = 2147483616, m_Queue = replicate 480 0\<rparr> = Some (S_OK, q') \<and> q_content q' = [(7, 1, [1])] \<and>
    (\<forall>(mods :: unit rt_module_desc list) s. comm_poll mods q' s = Some (q', s))"
  by (rule sm_queue_stalls [of 3]) (simp_all add: q_at_def valid_msg_def)

end
