(* ===== verification/Circular.thy ===== *)
theory Circular
  imports Boot_Prelude
begin

text \<open>
  Arrays used as circular buffers: reading and writing a block that may wrap at the end.
  The console ring and the infrared pulse buffer are proved with these lemmas.
\<close>

section \<open>Circular reading\<close>

text \<open>\<open>n\<close> cells from index \<open>r\<close> of an array of \<open>N\<close> cells, wrapping at the end.\<close>

definition circ :: "'a list \<Rightarrow> nat \<Rightarrow> nat \<Rightarrow> 'a list" where
  "circ d r n = map (\<lambda>i. d ! ((r + i) mod length d)) [0..<n]"

lemma length_circ [simp]: "length (circ d r n) = n"
  by (simp add: circ_def)

lemma mod_circ: "a < 2 * N \<Longrightarrow> a mod N = (if a < N then a else a - N)" for N :: nat
  by (simp add: mod_if)

lemma circ_straight: "r + n \<le> length d \<Longrightarrow> circ d r n = take n (drop r d)"
  by (rule nth_equalityI) (auto simp: circ_def)

lemma circ_wrap:
  assumes "r < length d" and "length d \<le> r + n" and "n \<le> length d"
  shows "circ d r n = drop r d @ take (r + n - length d) d"
proof (rule nth_equalityI)
  show "length (circ d r n) = length (drop r d @ take (r + n - length d) d)" using assms by simp
  fix i assume "i < length (circ d r n)"
  then have "r + i < 2 * length d" "i < n" using assms by auto
  then show "circ d r n ! i = (drop r d @ take (r + n - length d) d) ! i"
    using assms by (auto simp: circ_def mod_circ nth_append add.commute [of i r])
qed

lemma circ_append:
  "circ d r (m + n) = circ d r m @ circ d ((r + m) mod length d) n"
proof -
  have "[0..<m + n] = [0..<m] @ map (\<lambda>i. m + i) [0..<n]"
    using upt_add_eq_append [of 0 m n] map_add_upt [of m n] by (simp add: add.commute)
  then show ?thesis by (simp add: circ_def mod_simps add.assoc)
qed

text \<open>A write of \<open>xs\<close> at \<open>w\<close>, wrapping at the end of the array.\<close>

definition circ_write :: "'a list \<Rightarrow> nat \<Rightarrow> 'a list \<Rightarrow> 'a list" where
  "circ_write d w xs = map (\<lambda>j. let i = (j + length d - w) mod length d in if i < length xs then xs ! i else d ! j) [0..<length d]"

lemma length_circ_write [simp]: "length (circ_write d w xs) = length d"
  by (simp add: circ_write_def)

lemma circ_circ_write:
  assumes "r < length d" and "w = (r + n) mod length d" and "n + length xs \<le> length d"
  shows "circ (circ_write d w xs) r (n + length xs) = circ d r n @ xs"
proof (rule nth_equalityI)
  let ?N = "length d"
  fix i assume "i < length (circ (circ_write d w xs) r (n + length xs))"
  then have i: "i < n + length xs" by simp
  define j where "j = (r + i) mod ?N"
  have j: "j = (if r + i < ?N then r + i else r + i - ?N)" "j < ?N" using i assms by (auto simp: j_def mod_circ)
  have w: "w = (if r + n < ?N then r + n else r + n - ?N)" "w < ?N" using assms by (auto simp: mod_circ)
  have "(j + ?N - w) mod ?N = (if i < n then ?N - n + i else i - n)"
  proof (cases "i < n")
    case True
    then have "j + ?N - w = ?N - n + i \<or> j + ?N - w = ?N - n + i + ?N"
      using j w i assms by (auto split: if_splits)
    moreover have "?N - n + i < ?N" using True assms(3) by simp
    ultimately show ?thesis using True by auto
  next
    case False
    then have "j + ?N - w = i - n \<or> j + ?N - w = i - n + ?N"
      using j w i assms by (auto split: if_splits)
    moreover have "i - n < ?N" using i assms(3) by simp
    ultimately show ?thesis using False by (metis mod_add_self2 mod_less)
  qed
  then show "circ (circ_write d w xs) r (n + length xs) ! i = (circ d r n @ xs) ! i"
    using i assms(1,3) j(2) by (auto simp: circ_def circ_write_def j_def [symmetric] nth_append Let_def)
qed simp

lemma blit_circ_write:
  "w + length xs \<le> length d \<Longrightarrow> w < length d \<Longrightarrow> blit d w xs = Some (circ_write d w xs)"
proof -
  assume w: "w + length xs \<le> length d" "w < length d"
  let ?d = "take w d @ xs @ drop (w + length xs) d"
  have "?d = circ_write d w xs"
  proof (rule nth_equalityI)
    fix j assume "j < length ?d"
    then have j: "j < length d" using w by simp
    then have "(j + length d - w) mod length d = (if j < w then j + length d - w else j - w)"
      using w(2) by (simp add: mod_circ)
    then show "?d ! j = circ_write d w xs ! j"
      using w j by (cases "j < w") (auto simp: circ_write_def nth_append Let_def)
  qed (use w in simp)
  then show ?thesis using w(1) by (simp add: blit_def)
qed

lemma blit_circ_write_wrap:
  assumes "w < length d" and "length d \<le> w + length xs" and "length xs \<le> length d"
  shows "do { d1 \<leftarrow> blit d w (take (length d - w) xs); blit d1 0 (drop (length d - w) xs) } = Some (circ_write d w xs)"
proof -
  let ?N = "length d" and ?k = "length d - w"
  have k: "length (take ?k xs) = ?k" "length (drop ?k xs) = length xs - ?k" using assms by auto
  have "blit d w (take ?k xs) = Some (take w d @ take ?k xs)" using assms(1) k by (simp add: blit_def)
  moreover have "blit (take w d @ take ?k xs) 0 (drop ?k xs) =
      Some (drop ?k xs @ drop (length xs - ?k) (take w d @ take ?k xs))" (is "_ = Some ?d2")
    using assms k by (simp add: blit_def)
  moreover have "?d2 = circ_write d w xs"
  proof (rule nth_equalityI)
    show "length ?d2 = length (circ_write d w xs)" using assms by simp
    fix j assume "j < length ?d2"
    then have j: "j < ?N" using assms by simp
    then have m: "(j + ?N - w) mod ?N = (if j < w then j + ?k else j - w)" using assms(1) by (simp add: mod_circ)
    have c: "circ_write d w xs ! j = (if (if j < w then j + ?k else j - w) < length xs
        then xs ! (if j < w then j + ?k else j - w) else d ! j)"
      unfolding circ_write_def m Let_def using j m by simp
    have e: "?d2 ! j = (if j < length xs - ?k then xs ! (j + ?k) else (take w d @ take ?k xs) ! j)"
    proof (cases "j < length xs - ?k")
      case True
      then show ?thesis using assms k(2) by (simp only: nth_append) (simp add: add.commute)
    next
      case False
      define A where "A = take w d @ take ?k xs"
      have "length xs - ?k \<le> length A" using assms by (auto simp: A_def)
      then show ?thesis unfolding A_def [symmetric] using False by (simp add: nth_append)
    qed
    show "?d2 ! j = circ_write d w xs ! j"
      unfolding e c using assms j by (cases "j < w") (auto simp: nth_append)
  qed
  ultimately show ?thesis by simp
qed

end
