(* ===== verification/Ring_Buffer.thy ===== *)
theory Ring_Buffer
  imports Fifo Circular
begin

text \<open>
  The byte ring buffer in shared memory that the USB console driver talks through,
  \<^verbatim>\<open>src/boot/u-boot_2019_10/arch/arm/mach-synaptics/drivers/usbconsole/ring_buffer.c\<close>,
  and the serial driver on top of it, \<^verbatim>\<open>usbconsole.c\<close>.  The indices are 32-bit words and
  wrap.  The assertions are active only in a build with \<open>_DEBUG\<close>, the argument \<open>dbg\<close>.
  \<^term>\<open>None\<close> is a copy outside the data area or the caller's buffer, or a failed assertion; a null handle
  never reaches the ring functions of the model (the driver's dereference is \<^term>\<open>None\<close>).
\<close>

section \<open>Model\<close>

definition RING_BUFFER_MAGIC :: u32 where
  "RING_BUFFER_MAGIC = 0x47 OR push_bit 8 0x4E OR push_bit 16 0x49 OR push_bit 24 0x52"

definition MIN_BUFFER_SIZE :: nat where "MIN_BUFFER_SIZE = 512"

record ring =
  rb_magic :: u32
  cur_rd :: u32
  cur_wr :: u32
  rb_flags :: u32
  buffer_end :: u32
  rb_rsv :: "u32 list"
  rb_data :: mem

definition sizeof_head :: nat where "sizeof_head = 32"

text \<open>The ring found at the address, or the null handle.\<close>

definition ring_buffer_attach :: "u32 \<Rightarrow> u32 \<Rightarrow> ring \<Rightarrow> ring option" where
  "ring_buffer_attach base_address sz r =
     (if base_address = 0 \<or> unat sz \<le> sizeof_head + MIN_BUFFER_SIZE then None
      else if rb_magic r \<noteq> RING_BUFFER_MAGIC
      then Some (r\<lparr>rb_magic := RING_BUFFER_MAGIC, cur_rd := 0, cur_wr := 0, rb_flags := 0,
                   buffer_end := sz - 1 - of_nat sizeof_head, rb_rsv := [0, 0, 0]\<rparr>)
      else if buffer_end r \<noteq> sz - 1 - of_nat sizeof_head then None
      else Some r)"

text \<open>The condition on which \<open>ring_buffer_push\<close> spins.\<close>

definition push_waits :: "ring \<Rightarrow> bool" where
  "push_waits r \<longleftrightarrow> cur_wr r + 1 = cur_rd r \<or> cur_rd r = 0 \<and> cur_wr r = buffer_end r"

text \<open>
  One evaluation of that condition and, if it lets the caller through, the rest of the
  function.  The boolean says whether the call returned.
\<close>

definition ring_buffer_push :: "bool \<Rightarrow> mem \<Rightarrow> u32 \<Rightarrow> ring \<Rightarrow> (bool \<times> ring) option" where
  "ring_buffer_push dbg buffer sz r =
     do { c_assert dbg (rb_magic r = RING_BUFFER_MAGIC);
          c_assert dbg (sz < buffer_end r);
          if push_waits r then Some (False, r)
          else
            let remaining = buffer_end r - cur_wr r + 1 in
            if sz < remaining
            then do { bs \<leftarrow> slice buffer 0 (unat sz);
                      d \<leftarrow> blit (rb_data r) (unat (cur_wr r)) bs;
                      Some (True, r\<lparr>rb_data := d, cur_wr := cur_wr r + sz\<rparr>) }
            else
              let rollback = sz - remaining in
              do { c_assert dbg (remaining < buffer_end r);
                   c_assert dbg (rollback \<le> sz);
                   bs1 \<leftarrow> slice buffer 0 (unat remaining);
                   d1 \<leftarrow> blit (rb_data r) (unat (cur_wr r)) bs1;
                   bs2 \<leftarrow> slice buffer (unat remaining) (unat rollback);
                   d2 \<leftarrow> blit d1 0 bs2;
                   Some (True, r\<lparr>rb_data := d2, cur_wr := rollback\<rparr>) } }"

text \<open>The bytes returned; the call's result is their number.\<close>

definition ring_buffer_pop :: "bool \<Rightarrow> u32 \<Rightarrow> ring \<Rightarrow> (mem \<times> ring) option" where
  "ring_buffer_pop dbg max_size r =
     do { c_assert dbg (rb_magic r = RING_BUFFER_MAGIC);
          if cur_rd r = cur_wr r then Some ([], r)
          else if cur_rd r < cur_wr r
          then let data_size = min max_size (cur_wr r - cur_rd r) in
            do { c_assert dbg (data_size \<le> cur_wr r);
                 bs \<leftarrow> slice (rb_data r) (unat (cur_rd r)) (unat data_size);
                 Some (bs, r\<lparr>cur_rd := cur_rd r + data_size\<rparr>) }
          else
            let remaining = buffer_end r - cur_rd r + 1 in
            if max_size < remaining
            then do { bs \<leftarrow> slice (rb_data r) (unat (cur_rd r)) (unat max_size);
                      Some (bs, r\<lparr>cur_rd := cur_rd r + max_size\<rparr>) }
            else
              let data_size = min max_size (remaining + cur_wr r); rollback = data_size - remaining in
              do { c_assert dbg (remaining \<le> buffer_end r);
                   c_assert dbg (rollback \<le> data_size);
                   bs1 \<leftarrow> slice (rb_data r) (unat (cur_rd r)) (unat remaining);
                   bs2 \<leftarrow> slice (rb_data r) 0 (unat rollback);
                   Some (bs1 @ bs2, r\<lparr>cur_rd := rollback\<rparr>) } }"

definition ring_buffer_not_empty :: "bool \<Rightarrow> ring \<Rightarrow> int option" where
  "ring_buffer_not_empty dbg r =
     do { c_assert dbg (rb_magic r = RING_BUFFER_MAGIC);
          Some (if cur_rd r = cur_wr r then 0 else 1) }"

subsection \<open>The console driver\<close>

record usbconsole_priv =
  rx_base :: u32
  rx_size :: u32
  tx_base :: u32
  tx_size :: u32
  get_buf :: "ring option"
  put_buf :: "ring option"

definition EAGAIN :: int where "EAGAIN = 11"

text \<open>A null handle is dereferenced by the ring functions.\<close>

definition usbconsole_putc :: "bool \<Rightarrow> u8 \<Rightarrow> usbconsole_priv \<Rightarrow> (int option \<times> usbconsole_priv) option" where
  "usbconsole_putc dbg ch p =
     do { r \<leftarrow> put_buf p;
          (done, r') \<leftarrow> ring_buffer_push dbg [ch] 1 r;
          Some (if done then Some 0 else None, p\<lparr>put_buf := Some r'\<rparr>) }"

definition usbconsole_pending :: "bool \<Rightarrow> bool \<Rightarrow> usbconsole_priv \<Rightarrow> int option" where
  "usbconsole_pending dbg input p =
     (if input then do { r \<leftarrow> get_buf p; ring_buffer_not_empty dbg r } else Some 1)"

definition usbconsole_getc :: "bool \<Rightarrow> usbconsole_priv \<Rightarrow> (int \<times> usbconsole_priv) option" where
  "usbconsole_getc dbg p =
     do { r \<leftarrow> get_buf p;
          (bs, r') \<leftarrow> ring_buffer_pop dbg 1 r;
          Some (case bs of [] \<Rightarrow> - EAGAIN | ch # _ \<Rightarrow> uint ch, p\<lparr>get_buf := Some r'\<rparr>) }"

definition usbconsole_setbrg :: "int \<Rightarrow> int" where
  "usbconsole_setbrg baudrate = 0"

definition usbconsole_probe :: "ring \<Rightarrow> ring \<Rightarrow> usbconsole_priv \<Rightarrow> int \<times> usbconsole_priv" where
  "usbconsole_probe rx tx p =
     (0, p\<lparr>get_buf := ring_buffer_attach (rx_base p) (rx_size p) rx,
           put_buf := ring_buffer_attach (tx_base p) (tx_size p) tx\<rparr>)"

section \<open>The ring is a FIFO of bytes\<close>

text \<open>
  The invariant of a ring over \<open>N\<close> data bytes, its fill level and its contents.
\<close>

definition ring_inv :: "nat \<Rightarrow> ring \<Rightarrow> bool" where
  "ring_inv N r \<longleftrightarrow> length (rb_data r) = N \<and> unat (buffer_end r) + 1 = N \<and>
     unat (cur_rd r) < N \<and> unat (cur_wr r) < N \<and> N < 2 ^ 32"

text \<open>
  What the assertions ask of the ring and of the size of a block, when they are active.  A ring
  that \<open>ring_buffer_attach\<close> has set up has the magic number and more than 512 data bytes.
\<close>

definition assert_ok :: "bool \<Rightarrow> nat \<Rightarrow> ring \<Rightarrow> bool" where
  "assert_ok dbg n r \<longleftrightarrow> (dbg \<longrightarrow> rb_magic r = RING_BUFFER_MAGIC \<and> n < unat (buffer_end r))"

definition ring_count :: "ring \<Rightarrow> nat" where
  "ring_count r = (if cur_rd r \<le> cur_wr r then unat (cur_wr r) - unat (cur_rd r)
     else length (rb_data r) - unat (cur_rd r) + unat (cur_wr r))"

definition ring_content :: "ring \<Rightarrow> mem" where
  "ring_content r = circ (rb_data r) (unat (cur_rd r)) (ring_count r)"

lemma ring_countD:
  assumes "ring_inv N r"
  shows "ring_count r < N" "unat (cur_wr r) = (unat (cur_rd r) + ring_count r) mod N"
  using assms by (auto simp: ring_inv_def ring_count_def word_le_nat_alt mod_circ not_le)

lemma ring_countI:
  assumes "ring_inv N r" and "n < N" and "unat (cur_wr r) = (unat (cur_rd r) + n) mod N"
  shows "ring_count r = n"
  using assms mod_circ [of "unat (cur_rd r) + n" N]
  by (auto simp: ring_inv_def ring_count_def word_le_nat_alt split: if_splits)

lemma length_ring_content [simp]: "length (ring_content r) = ring_count r"
  by (simp add: ring_content_def)

lemma remaining_unat:
  assumes "ring_inv N r" and "unat c < N" shows "unat (buffer_end r - c + 1) = N - unat c"
proof -
  have c: "unat c \<le> unat (buffer_end r)" "N \<le> 2 ^ 32 - 1" using assms by (auto simp: ring_inv_def)
  have "unat (buffer_end r - c) = unat (buffer_end r) - unat c" by (rule unat_sub_small [OF c(1)])
  then show ?thesis using c assms by (subst unat_add_small) (auto simp: ring_inv_def)
qed

lemma push_waits_iff: assumes "ring_inv N r" shows "push_waits r \<longleftrightarrow> ring_count r = N - 1"
proof -
  have "unat (cur_wr r + 1) = unat (cur_wr r) + 1"
    using assms by (subst unat_add_small) (auto simp: ring_inv_def)
  then have "push_waits r \<longleftrightarrow> unat (cur_wr r) + 1 = unat (cur_rd r) \<or> unat (cur_rd r) = 0 \<and> unat (cur_wr r) + 1 = N"
    using assms unfolding push_waits_def unat_eq_iff ring_inv_def by (simp only: unat_0) auto
  also have "\<dots> \<longleftrightarrow> ring_count r = N - 1"
    using assms unfolding ring_inv_def ring_count_def word_le_nat_alt by (auto split: if_splits)
  finally show ?thesis .
qed

lemma push_law:
  assumes "ring_inv N r" and "length bs = unat sz" and "bs \<noteq> []" and "ring_count r + length bs < N"
    and "assert_ok dbg (length bs) r"
  shows "\<exists>r'. ring_buffer_push dbg bs sz r = Some (True, r') \<and> ring_inv N r' \<and> (\<forall>n. assert_ok dbg n r' = assert_ok dbg n r) \<and>
    ring_content r' = ring_content r @ bs"
proof -
  let ?w = "unat (cur_wr r)" and ?d = "circ_write (rb_data r) (unat (cur_wr r)) bs"
  have inv: "length (rb_data r) = N" "?w < N" "unat (cur_rd r) < N" "N < 2 ^ 32" using assms(1) by (auto simp: ring_inv_def)
  have nw: "\<not> push_waits r" unfolding push_waits_iff [OF assms(1)] using assms(3,4) by (cases bs) auto
  have as: "dbg \<longrightarrow> rb_magic r = RING_BUFFER_MAGIC" "dbg \<longrightarrow> sz < buffer_end r"
    using assms(2,5) by (auto simp: assert_ok_def word_less_nat_alt)
  have rem: "unat (buffer_end r - cur_wr r + 1) = N - ?w" by (rule remaining_unat [OF assms(1) inv(2)])
  have "\<exists>w'. ring_buffer_push dbg bs sz r = Some (True, r\<lparr>rb_data := ?d, cur_wr := w'\<rparr>) \<and> unat w' = (?w + length bs) mod N"
  proof (cases "length bs < N - ?w")
    case True
    then have "unat (cur_wr r + sz) = ?w + length bs" using inv(4) assms(2) by (subst unat_add_small) auto
    moreover have "sz < buffer_end r - cur_wr r + 1" unfolding word_less_nat_alt rem using True assms(2) by simp
    moreover have "blit (rb_data r) ?w bs = Some ?d" using True inv by (intro blit_circ_write) auto
    ultimately show ?thesis
      using nw as assms(2) True by (auto simp: ring_buffer_push_def slice_def Let_def)
  next
    case False
    have "unat (sz - (buffer_end r - cur_wr r + 1)) = length bs - (N - ?w)"
      using False assms(2) rem by (subst unat_sub_small) auto
    moreover have "\<not> sz < buffer_end r - cur_wr r + 1" unfolding word_less_nat_alt rem using False assms(2) by simp
    moreover have "dbg \<longrightarrow> buffer_end r - cur_wr r + 1 < buffer_end r" "sz - (buffer_end r - cur_wr r + 1) \<le> sz"
      using as(2) calculation by (auto simp: word_less_nat_alt word_le_nat_alt assms(2))
    moreover have "do { d1 \<leftarrow> blit (rb_data r) ?w (take (N - ?w) bs); blit d1 0 (drop (N - ?w) bs) } = Some ?d"
      using blit_circ_write_wrap [of ?w "rb_data r" bs] False inv assms(4) by simp
    moreover have "(?w + length bs) mod N = length bs - (N - ?w)" using False inv assms(4) by (subst mod_circ) auto
    ultimately show ?thesis
      using nw as False inv rem by (auto simp: ring_buffer_push_def slice_def Let_def split: bind_splits)
  qed
  then obtain w' where p: "ring_buffer_push dbg bs sz r = Some (True, r\<lparr>rb_data := ?d, cur_wr := w'\<rparr>)"
    "unat w' = (?w + length bs) mod N" by blast
  let ?r = "r\<lparr>rb_data := ?d, cur_wr := w'\<rparr>"
  have inv': "ring_inv N ?r" using assms(1) p(2) by (auto simp: ring_inv_def)
  have w: "?w = (unat (cur_rd r) + ring_count r) mod N" by (rule ring_countD [OF assms(1)])
  have "ring_count ?r = ring_count r + length bs"
    using assms(4) p(2) w by (intro ring_countI [OF inv']) (simp_all add: mod_simps add.assoc)
  then have "ring_content ?r = ring_content r @ bs"
    using circ_circ_write [of "unat (cur_rd r)" "rb_data r" ?w "ring_count r" bs] inv w assms(4)
    by (simp add: ring_content_def)
  moreover have "\<forall>n. assert_ok dbg n ?r = assert_ok dbg n r" by (simp add: assert_ok_def)
  ultimately show ?thesis using p(1) inv' by blast
qed

lemma pop_law:
  assumes "ring_inv N r" and "assert_ok dbg n r"
  shows "\<exists>bs r'. ring_buffer_pop dbg mx r = Some (bs, r') \<and> ring_inv N r' \<and> assert_ok dbg n r' \<and>
    bs = take (unat mx) (ring_content r) \<and> ring_content r' = drop (unat mx) (ring_content r)"
proof -
  define k where "k = min (unat mx) (ring_count r)"
  let ?a = "unat (cur_rd r)" and ?w = "unat (cur_wr r)"
  have inv: "length (rb_data r) = N" "?w < N" "?a < N" "N < 2 ^ 32" using assms(1) by (auto simp: ring_inv_def)
  have c: "ring_count r < N" "?w = (?a + ring_count r) mod N" using ring_countD [OF assms(1)] by blast+
  have as: "dbg \<longrightarrow> rb_magic r = RING_BUFFER_MAGIC" using assms(2) by (simp add: assert_ok_def)
  have rem: "unat (buffer_end r - cur_rd r + 1) = N - ?a" by (rule remaining_unat [OF assms(1) inv(3)])
  have umin: "unat (min a b) = min (unat a) (unat b)" for a b :: u32 by (simp add: min_def word_le_nat_alt)
  consider "cur_rd r = cur_wr r" | "?a < ?w" | "?w < ?a" "unat mx < N - ?a" | "?w < ?a" "N - ?a \<le> unat mx"
    by (metis linorder_cases not_le unat_eq_iff)
  then have "\<exists>a'. ring_buffer_pop dbg mx r = Some (circ (rb_data r) ?a k, r\<lparr>cur_rd := a'\<rparr>) \<and> unat a' = (?a + k) mod N"
  proof cases
    case 1
    then have "k = 0" by (simp add: k_def ring_count_def)
    then show ?thesis using 1 as inv by (intro exI [of _ "cur_rd r"]) (simp add: ring_buffer_pop_def circ_def)
  next
    case 2
    let ?s = "min mx (cur_wr r - cur_rd r)"
    have s: "unat ?s = k" unfolding umin unat_sub_small [OF less_imp_le [OF 2]]
      using 2 by (simp add: k_def ring_count_def word_le_nat_alt)
    have k: "?a + k \<le> ?w" using 2 by (simp add: k_def ring_count_def word_le_nat_alt)
    have "unat (cur_rd r + ?s) = ?a + k" using s k inv by (subst unat_add_small) auto
    moreover have "?s \<le> cur_wr r" using s k by (simp add: word_le_nat_alt)
    ultimately show ?thesis
      using 2 as s k inv by (intro exI [of _ "cur_rd r + ?s"])
        (auto simp: ring_buffer_pop_def Let_def word_less_nat_alt slice_def circ_straight)
  next
    case 3
    then have k: "k = unat mx" "?a + k < N" using inv by (auto simp: k_def ring_count_def word_le_nat_alt)
    have "unat (cur_rd r + mx) = ?a + k" using k inv by (subst unat_add_small) auto
    moreover have "mx < buffer_end r - cur_rd r + 1" unfolding word_less_nat_alt rem using 3 by simp
    ultimately show ?thesis
      using 3 as k inv by (intro exI [of _ "cur_rd r + mx"])
        (auto simp: ring_buffer_pop_def Let_def word_less_nat_alt slice_def circ_straight)
  next
    case 4
    let ?rem = "buffer_end r - cur_rd r + 1"
    let ?s = "min mx (?rem + cur_wr r)"
    have "unat (?rem + cur_wr r) = N - ?a + ?w" using 4 inv rem by (subst unat_add_small) auto
    then have s: "unat ?s = k" unfolding umin using 4 inv by (simp add: k_def ring_count_def word_le_nat_alt)
    have k: "N - ?a \<le> k" "k < N" using 4 inv by (auto simp: k_def ring_count_def word_le_nat_alt)
    have b: "unat (?s - ?rem) = k - (N - ?a)" using s k rem by (subst unat_sub_small) auto
    have "\<not> mx < ?rem" unfolding word_less_nat_alt rem using 4 by simp
    moreover have "cur_rd r \<noteq> cur_wr r" "\<not> cur_rd r < cur_wr r" using 4 by (auto simp: word_less_nat_alt)
    moreover have "?rem \<le> buffer_end r" "?s - ?rem \<le> ?s"
      using 4 b s assms(1) by (auto simp: word_le_nat_alt rem ring_inv_def)
    ultimately have "ring_buffer_pop dbg mx r = Some (circ (rb_data r) ?a k, r\<lparr>cur_rd := ?s - ?rem\<rparr>)"
      using k as inv b rem circ_wrap [of ?a "rb_data r" k]
      by (simp add: ring_buffer_pop_def Let_def slice_def add.commute [of k])
    moreover have "(?a + k) mod N = k - (N - ?a)" using k inv by (subst mod_circ) auto
    ultimately show ?thesis using b by auto
  qed
  then obtain a' where p: "ring_buffer_pop dbg mx r = Some (circ (rb_data r) ?a k, r\<lparr>cur_rd := a'\<rparr>)"
    "unat a' = (?a + k) mod N" by blast
  let ?r = "r\<lparr>cur_rd := a'\<rparr>"
  have inv': "ring_inv N ?r" using assms(1) p(2) by (auto simp: ring_inv_def)
  obtain m where m: "ring_count r = k + m" using le_Suc_ex [of k "ring_count r"] by (auto simp: k_def)
  then have n: "ring_count r = k + (ring_count r - k)" by simp
  have "ring_count ?r = ring_count r - k"
    using c m p(2) by (intro ring_countI [OF inv']) (simp_all add: mod_simps add.assoc)
  moreover have "ring_content r = circ (rb_data r) ?a k @ circ (rb_data r) ((?a + k) mod N) (ring_count r - k)"
    unfolding ring_content_def using circ_append [of "rb_data r" ?a k "ring_count r - k"] n inv(1) by simp
  moreover have "assert_ok dbg n ?r" using assms(2) by (simp add: assert_ok_def)
  ultimately show ?thesis
    using p inv' by (intro exI [of _ "circ (rb_data r) ?a k"] exI [of _ ?r]) (auto simp: ring_content_def k_def min_def)
qed

definition ring_put :: "bool \<Rightarrow> u8 \<Rightarrow> ring \<Rightarrow> (bool \<times> ring) option" where
  "ring_put dbg ch = ring_buffer_push dbg [ch] 1"

definition ring_get :: "bool \<Rightarrow> ring \<Rightarrow> (u8 option \<times> ring) option" where
  "ring_get dbg r = map_option (\<lambda>(bs, r'). (case bs of [] \<Rightarrow> None | b # _ \<Rightarrow> Some b, r')) (ring_buffer_pop dbg 1 r)"

interpretation rb: fifo "\<lambda>_ r. ring_inv N r \<and> assert_ok dbg 1 r" ring_content "N - 1" "\<lambda>_. True" "ring_put dbg" "ring_get dbg" for N dbg
proof
  fix r and ch :: u8
  assume "ring_inv N r \<and> assert_ok dbg 1 r"
  then have inv: "ring_inv N r" and as: "assert_ok dbg 1 r" by simp_all
  show "\<exists>ok r'. ring_put dbg ch r = Some (ok, r') \<and> (ring_inv N r' \<and> assert_ok dbg 1 r') \<and>
      ok = (length (ring_content r) < N - 1) \<and> ring_content r' = ring_content r @ (if ok then [ch] else [])"
  proof (cases "ring_count r < N - 1")
    case True
    have "length [ch] = unat (1 :: u32)" "[ch] \<noteq> []" "ring_count r + length [ch] < N" "assert_ok dbg (length [ch]) r"
      using True as by simp_all
    from push_law [OF inv this] as True show ?thesis by (auto simp: ring_put_def)
  next
    case False
    then have "push_waits r" using push_waits_iff [OF inv] ring_countD(1) [OF inv] by simp
    moreover have "dbg \<longrightarrow> rb_magic r = RING_BUFFER_MAGIC \<and> 1 < buffer_end r"
      using as by (simp add: assert_ok_def word_less_nat_alt)
    ultimately show ?thesis
      using inv as False by (intro exI [of _ False] exI [of _ r]) (simp add: ring_put_def ring_buffer_push_def)
  qed
next
  fix r assume "ring_inv N r \<and> assert_ok dbg 1 r"
  then have inv: "ring_inv N r" and as: "assert_ok dbg 1 r" by simp_all
  obtain bs r' where "ring_buffer_pop dbg 1 r = Some (bs, r')" "ring_inv N r'" "assert_ok dbg 1 r'"
    "bs = take 1 (ring_content r)" "ring_content r' = drop 1 (ring_content r)"
    using pop_law [OF inv as, of 1] by (elim exE conjE) simp
  then show "\<exists>x r'. ring_get dbg r = Some (x, r') \<and> (ring_inv N r' \<and> assert_ok dbg 1 r') \<and>
      ring_content r = (case x of None \<Rightarrow> [] | Some m \<Rightarrow> [m]) @ ring_content r' \<and> (x = None \<longrightarrow> ring_content r = [])"
    by (cases "ring_content r") (auto simp: ring_get_def)
  show "length (ring_content r) \<le> N - 1" using ring_countD(1) [OF inv] by simp
qed

section \<open>Properties\<close>

text \<open>
  C29: for every interleaving of one-byte pushes and pops, as the console driver makes
  them, every access stays inside the data area and the bytes come out exactly in the
  order in which they were accepted; of a ring of \<open>N\<close> bytes a push is accepted if and only if
  fewer than \<open>N - 1\<close> are in use, and waits otherwise.  In a build without assertions this holds
  for every ring; in a build with them none fails for a ring with the magic number and more
  than two bytes.
\<close>

theorem console_bytes_in_order:
  assumes "ring_inv N r" and "assert_ok dbg 1 r"
  shows "\<exists>acc del r'. fifo_run (ring_put dbg) (ring_get dbg) ops r = Some (acc, del, r') \<and> ring_inv N r' \<and>
    queue_run (N - 1) ops (ring_content r) = (acc, del, ring_content r') \<and>
    del @ ring_content r' = ring_content r @ acc \<and> length (ring_content r') \<le> N - 1"
  using assms rb.run_order [where N = N and dbg = dbg and q = r and ops = ops] by auto

text \<open>
  C31: \<open>ring_buffer_pop\<close> gives back what \<open>ring_buffer_push\<close> stored: a block of fewer bytes than
  \<open>buffer_end\<close>, as the assertions of the code demand, pushed into an empty ring is returned
  whole by a pop of at least its size, wherever the indices stand and whether or not either
  copy wraps; with the magic number in place no assertion fails in either call.
\<close>

theorem ring_push_pop:
  assumes "ring_inv N r" and "rb_magic r = RING_BUFFER_MAGIC" and "ring_count r = 0"
    and "length bs = unat sz" and "bs \<noteq> []" and "sz < buffer_end r" and "sz \<le> mx"
  shows "\<exists>r' r''. ring_buffer_push dbg bs sz r = Some (True, r') \<and> ring_buffer_pop dbg mx r' = Some (bs, r'') \<and>
    ring_inv N r'' \<and> ring_count r'' = 0"
proof -
  have n: "length bs < unat (buffer_end r)" using assms(4,6) by (simp add: word_less_nat_alt)
  then have a: "assert_ok dbg (length bs) r" "ring_count r + length bs < N"
    using assms(1-3) by (auto simp: assert_ok_def ring_inv_def)
  obtain r' where r': "ring_buffer_push dbg bs sz r = Some (True, r')" "ring_inv N r'" "assert_ok dbg (length bs) r'"
    "ring_content r' = bs"
    using push_law [OF assms(1,4,5) a(2,1)] a(1) assms(3) length_0_conv [of "ring_content r"] by auto
  have "length bs \<le> unat mx" using assms(4,7) by (simp add: word_le_nat_alt)
  then obtain r'' where "ring_buffer_pop dbg mx r' = Some (bs, r'')" "ring_inv N r''" "ring_content r'' = []"
    using pop_law [OF r'(2,3), of mx] r'(4) by auto
  then show ?thesis using r'(1) length_ring_content [of r''] by auto
qed

definition wrapped_ring :: ring where
  "wrapped_ring = \<lparr>rb_magic = RING_BUFFER_MAGIC, cur_rd = 2, cur_wr = 2, rb_flags = 0, buffer_end = 3,
     rb_rsv = [0, 0, 0], rb_data = [0, 0, 0, 0]\<rparr>"

lemma wrapped_ring_inv: "ring_inv 4 wrapped_ring"
  by (simp add: ring_inv_def wrapped_ring_def)

theorem console_bytes_in_order_witness:
  "\<exists>r'. fifo_run (ring_put True) (ring_get True) [Put 65, Put 66, Put 67, Put 68, Get, Put 69] wrapped_ring =
      Some ([65, 66, 67, 69], [65], r') \<and> ring_content r' = [66, 67, 69]"
proof -
  have "assert_ok True 1 wrapped_ring" "ring_content wrapped_ring = []"
    by (simp_all add: assert_ok_def wrapped_ring_def ring_content_def ring_count_def circ_def)
  then show ?thesis
    using console_bytes_in_order [OF wrapped_ring_inv, of True "[Put 65, Put 66, Put 67, Put 68, Get, Put 69]"] by auto
qed

definition wrapped_ring5 :: ring where
  "wrapped_ring5 = \<lparr>rb_magic = RING_BUFFER_MAGIC, cur_rd = 3, cur_wr = 3, rb_flags = 0, buffer_end = 4,
     rb_rsv = [0, 0, 0], rb_data = [0, 0, 0, 0, 0]\<rparr>"

theorem ring_push_pop_witness:
  "\<exists>r' r''. ring_buffer_push True [1, 2, 3] 3 wrapped_ring5 = Some (True, r') \<and> ring_buffer_pop True 8 r' = Some ([1, 2, 3], r'') \<and>
    ring_inv 5 r'' \<and> ring_count r'' = 0"
  by (rule ring_push_pop) (simp_all add: wrapped_ring5_def ring_inv_def ring_count_def)

text \<open>
  The wait of \<open>ring_buffer_push\<close> looks for one free byte only: a ring with two bytes waiting
  and room for one accepts two more and then counts as empty, so all four are lost.  The
  assertions do not notice it; the console driver pushes single bytes and never meets this.
\<close>

lemma ring_push_overruns:
  "\<exists>r'. ring_buffer_push dbg [9, 9] 2 (wrapped_ring\<lparr>cur_wr := 0, rb_data := [0, 0, 5, 6]\<rparr>) = Some (True, r') \<and>
     ring_content (wrapped_ring\<lparr>cur_wr := 0, rb_data := [0, 0, 5, 6]\<rparr>) = [5, 6] \<and> ring_content r' = []"
  by (simp add: ring_buffer_push_def wrapped_ring_def push_waits_def slice_def blit_def
      ring_content_def ring_count_def circ_def)

end
