(* ===== verification/Ir_Decode.thy ===== *)
theory Ir_Decode
  imports Circular
begin

text \<open>
  The infrared receiver of the system manager, from the pulse buffer that the interrupt
  handler fills to the key codes: the buffer and length computation of
  \<^verbatim>\<open>src/boot/bootloader/sm_cm3/syna/src/ir/sm_ir.c\<close> and the four protocol readers
  \<^verbatim>\<open>ir_nec.c\<close>, \<^verbatim>\<open>ir_tc9012.c\<close>, \<^verbatim>\<open>ir_rc5.c\<close> and \<^verbatim>\<open>ir_xmp.c\<close>.

  A pulse is a 32-bit word: the level in the top bit, the length in clock ticks below.
  The hardware clock is a parameter: \<open>clk n\<close> is the result of the \<open>n\<close>-th reading, and the
  decoder state counts the readings.  The reader loops run on fuel; the buffer has 256
  entries, every iteration consumes at least one, so 256 units are enough as long as the
  indices are inside the buffer.
\<close>

section \<open>The pulse buffer\<close>

record ir_buf =
  cbuffer :: "u32 list"
  cb_start :: u32
  cb_end :: u32

definition IR_CBUFF_LENGTH :: nat where "IR_CBUFF_LENGTH = 256"

definition CIRC_BUFF_MASK :: u32 where "CIRC_BUFF_MASK = of_nat (IR_CBUFF_LENGTH - 1)"

definition SM_SYSTEM_HZ :: int where "SM_SYSTEM_HZ = 25"

definition INT_MS :: int where "INT_MS = 1000"

definition store_ircbuffer :: "u32 \<Rightarrow> u32 \<Rightarrow> ir_buf \<Rightarrow> ir_buf option" where
  "store_ircbuffer level_len high_low b =
     do { buf \<leftarrow> wr (cbuffer b) (unat (cb_end b)) ((level_len AND 0x7fffffff) OR push_bit 31 high_low);
          let e = (cb_end b + 1) AND CIRC_BUFF_MASK;
          let s = (if e = cb_start b then (cb_start b + 1) AND CIRC_BUFF_MASK else cb_start b);
          Some (b\<lparr>cbuffer := buf, cb_start := s, cb_end := e\<rparr>) }"

definition length_caculate :: "u32 \<Rightarrow> u32 \<Rightarrow> u32" where
  "length_caculate ticks prev_ticks =
     (if prev_ticks < ticks then ticks - prev_ticks
      else ticks - prev_ticks + of_int (INT_MS * 1000 * SM_SYSTEM_HZ))"

definition isr_length_caculate :: "u32 \<Rightarrow> u32 \<Rightarrow> u32 \<Rightarrow> u32 \<Rightarrow> u32" where
  "isr_length_caculate ms ticks prev_ms prev_ticks =
     (if prev_ticks < ticks then ticks - prev_ticks
      else ticks - prev_ticks + (ms div of_int INT_MS - prev_ms div of_int INT_MS) * of_int INT_MS * 1000 * of_int SM_SYSTEM_HZ)"

text \<open>\<open>cbuffer[*cb_start]\<close>, and \<open>(*cb_start)++; (*cb_start) &= CIRC_BUFF_MASK\<close>.\<close>

definition cur_entry :: "ir_buf \<Rightarrow> u32 option" where
  "cur_entry b = rd (cbuffer b) (unat (cb_start b))"

definition advance :: "ir_buf \<Rightarrow> ir_buf" where
  "advance b = b\<lparr>cb_start := (cb_start b + 1) AND CIRC_BUFF_MASK\<rparr>"

definition high_low :: "u32 \<Rightarrow> bool" where "high_low v \<longleftrightarrow> v AND 0x80000000 \<noteq> 0"

definition level_len :: "u32 \<Rightarrow> u32" where "level_len v = v AND 0x7fffffff"

text \<open>The loop condition that the readers describe as ``data length >= 2''.\<close>

definition two_entries :: "ir_buf \<Rightarrow> bool" where
  "two_entries b \<longleftrightarrow> cb_start b + 1 < cb_end b \<or>
     cb_end b < cb_start b \<and> cb_start b - cb_end b < of_nat (IR_CBUFF_LENGTH - 1)"

definition NO_CODE :: u32 where "NO_CODE = 0xffffffff"

section \<open>Pulse-distance protocols: NEC and TC9012\<close>

text \<open>The static variables of either reader, with the number of clock readings so far.\<close>

record pd_state =
  iPrevCode :: u32
  iCode :: u32
  iCode_Bit :: u32
  iPreamble_Found :: u32
  iPreamble_Maybe_HOLD :: u32
  iPreamble_Time :: u32
  clk_reads :: nat

text \<open>
  The two readers are the same code up to the timing constants, the position of a bit in
  the code and the bit count at which a hold is recognised.
\<close>

record pd_proto =
  DATA_0_MIN_LEN :: int
  DATA_0_MAX_LEN :: int
  DATA_1_MIN_LEN :: int
  DATA_1_MAX_LEN :: int
  PREAMB_MIN_LEN :: int
  PREAMB_MAX_LEN :: int
  PREAMB_HOLD_MAX :: int
  PREAMB_MIN_LOW :: int
  PREAMB_MAX_LOW :: int
  FRAME_MAX_LEN :: int
  FRAME_CYCLE_MAX :: int
  BURST_MIN_LEN :: int
  BURST_MAX_LEN :: int
  bit_pos :: "nat \<Rightarrow> nat"
  hold_bits :: u32

definition nec_proto :: pd_proto where
  "nec_proto = \<lparr>
     DATA_0_MIN_LEN = 500 * SM_SYSTEM_HZ, DATA_0_MAX_LEN = 1200 * SM_SYSTEM_HZ,
     DATA_1_MIN_LEN = 1200 * SM_SYSTEM_HZ, DATA_1_MAX_LEN = 4000 * SM_SYSTEM_HZ,
     PREAMB_MIN_LEN = 10000 * SM_SYSTEM_HZ, PREAMB_MAX_LEN = 16000 * SM_SYSTEM_HZ,
     PREAMB_HOLD_MAX = 12475 * SM_SYSTEM_HZ,
     PREAMB_MIN_LOW = 7500 * SM_SYSTEM_HZ, PREAMB_MAX_LOW = 10500 * SM_SYSTEM_HZ,
     FRAME_MAX_LEN = 68904 * SM_SYSTEM_HZ, FRAME_CYCLE_MAX = 108900 * SM_SYSTEM_HZ,
     BURST_MIN_LEN = 500 * SM_SYSTEM_HZ, BURST_MAX_LEN = 700 * SM_SYSTEM_HZ,
     bit_pos = (\<lambda>k. k), hold_bits = 0\<rparr>"

definition tc9012_proto :: pd_proto where
  "tc9012_proto = \<lparr>
     DATA_0_MIN_LEN = 900 * SM_SYSTEM_HZ, DATA_0_MAX_LEN = 1325 * SM_SYSTEM_HZ,
     DATA_1_MIN_LEN = 1825 * SM_SYSTEM_HZ, DATA_1_MAX_LEN = 2650 * SM_SYSTEM_HZ,
     PREAMB_MIN_LEN = 8000 * SM_SYSTEM_HZ, PREAMB_MAX_LEN = 10000 * SM_SYSTEM_HZ,
     PREAMB_HOLD_MAX = 12475 * SM_SYSTEM_HZ,
     PREAMB_MIN_LOW = 4000 * SM_SYSTEM_HZ, PREAMB_MAX_LOW = 5500 * SM_SYSTEM_HZ,
     FRAME_MAX_LEN = 110000 * SM_SYSTEM_HZ, FRAME_CYCLE_MAX = 157900 * SM_SYSTEM_HZ,
     BURST_MIN_LEN = 500 * SM_SYSTEM_HZ, BURST_MAX_LEN = 700 * SM_SYSTEM_HZ,
     bit_pos = (\<lambda>k. 32 - (8 - k mod 8) - (k div 8) * 8), hold_bits = 1\<rparr>"

definition is_preamble :: "pd_proto \<Rightarrow> u32 \<Rightarrow> int \<Rightarrow> bool" where
  "is_preamble p low_level iTwin_Level \<longleftrightarrow>
     PREAMB_MIN_LEN p < iTwin_Level \<and> iTwin_Level < PREAMB_MAX_LEN p \<and>
     PREAMB_MIN_LOW p < uint low_level \<and> uint low_level < PREAMB_MAX_LOW p"

definition start_frame :: "pd_proto \<Rightarrow> (nat \<Rightarrow> u32) \<Rightarrow> int \<Rightarrow> pd_state \<Rightarrow> pd_state" where
  "start_frame p clk iTwin_Level s =
     s\<lparr>iPreamble_Found := 1,
       iPreamble_Maybe_HOLD := (if iTwin_Level < PREAMB_HOLD_MAX p then 1 else 0),
       iPreamble_Time := clk (clk_reads s), clk_reads := Suc (clk_reads s),
       iCode := 0, iCode_Bit := 0\<rparr>"

definition reset_frame :: "pd_state \<Rightarrow> pd_state" where
  "reset_frame s = s\<lparr>iPreamble_Found := 0, iPreamble_Maybe_HOLD := 0, iCode := 0, iCode_Bit := 0\<rparr>"

definition take_data_bit :: "pd_proto \<Rightarrow> u32 \<Rightarrow> pd_state \<Rightarrow> pd_state" where
  "take_data_bit p iData s =
     (if iCode_Bit s < 32
      then s\<lparr>iCode := iCode s + push_bit (bit_pos p (unat (iCode_Bit s))) iData, iCode_Bit := iCode_Bit s + 1\<rparr>
      else s)"

text \<open>
  One low pulse with the high pulse after it: \<^term>\<open>None\<close> is the \<open>continue\<close>, otherwise the
  new value of the loop's \<open>iData\<close> and the new state.
\<close>

definition pd_pulse :: "pd_proto \<Rightarrow> (nat \<Rightarrow> u32) \<Rightarrow> u32 \<Rightarrow> u32 \<Rightarrow> u32 \<Rightarrow> pd_state \<Rightarrow> (u32 \<times> pd_state) option" where
  "pd_pulse p clk low_level high_level iData s =
     (let iTwin_Level = sint (low_level + high_level) in
      if iPreamble_Found s \<noteq> 0
      then if DATA_1_MIN_LEN p < iTwin_Level \<and> iTwin_Level < DATA_1_MAX_LEN p
           then Some (1, take_data_bit p 1 s)
           else if DATA_0_MIN_LEN p < iTwin_Level \<and> iTwin_Level < DATA_0_MAX_LEN p
           then Some (0, take_data_bit p 0 s)
           else if is_preamble p low_level iTwin_Level
           then Some (iData, take_data_bit p iData (start_frame p clk iTwin_Level s))
           else if PREAMB_MAX_LEN p < iTwin_Level
           then Some (iData, take_data_bit p iData (reset_frame s))
           else None
      else if is_preamble p low_level iTwin_Level
      then Some (iData, start_frame p clk iTwin_Level s)
      else Some (iData, s))"

text \<open>The end of the loop body: a full code ends the frame.\<close>

definition pd_complete :: "u32 \<Rightarrow> pd_state \<Rightarrow> u32 \<times> pd_state" where
  "pd_complete iRcvCode s =
     (if iCode_Bit s = 32
      then (iCode s, s\<lparr>iPrevCode := iCode s, iPreamble_Found := 0, iCode := 0, iCode_Bit := 0\<rparr>)
      else (iRcvCode, s))"

primrec pd_loop :: "nat \<Rightarrow> pd_proto \<Rightarrow> (nat \<Rightarrow> u32) \<Rightarrow> u32 \<Rightarrow> u32 \<Rightarrow> ir_buf \<Rightarrow> pd_state \<Rightarrow>
    (u32 \<times> ir_buf \<times> pd_state) option" where
  "pd_loop 0 p clk iRcvCode iData b s = None"
| "pd_loop (Suc n) p clk iRcvCode iData b s =
     (if two_entries b \<and> iRcvCode = NO_CODE
      then do { v \<leftarrow> cur_entry b;
                let b1 = advance b;
                if high_low v then pd_loop n p clk iRcvCode iData b1 s
                else do { h \<leftarrow> cur_entry b1;
                          let b2 = advance b1;
                          (case pd_pulse p clk (level_len v) (level_len h) iData s of
                             None \<Rightarrow> pd_loop n p clk iRcvCode iData b2 s
                           | Some (d, s1) \<Rightarrow>
                               (case pd_complete iRcvCode s1 of (c, s2) \<Rightarrow> pd_loop n p clk c d b2 s2)) } }
      else Some (iRcvCode, b, s))"

text \<open>The hold test after the loop.\<close>

definition pd_hold :: "pd_proto \<Rightarrow> u32 \<Rightarrow> ir_buf \<Rightarrow> pd_state \<Rightarrow> (u32 \<times> bool \<times> pd_state) option" where
  "pd_hold p iRcvCode b s =
     (if iPreamble_Maybe_HOLD s \<noteq> 0 \<and> iCode_Bit s = hold_bits p \<and> iPrevCode s \<noteq> NO_CODE
      then do { v \<leftarrow> cur_entry b;
                Some (if \<not> high_low v \<and> BURST_MIN_LEN p < uint (level_len v) \<and> uint (level_len v) < BURST_MAX_LEN p
                      then (iPrevCode s, True, reset_frame s) else (iRcvCode, False, s)) }
      else Some (iRcvCode, False, s))"

text \<open>The two timeouts.\<close>

definition pd_timeouts :: "pd_proto \<Rightarrow> (nat \<Rightarrow> u32) \<Rightarrow> pd_state \<Rightarrow> pd_state" where
  "pd_timeouts p clk s =
     (let s1 = (if iPreamble_Found s \<noteq> 0
                then let s' = s\<lparr>clk_reads := Suc (clk_reads s)\<rparr> in
                  if FRAME_MAX_LEN p < uint (length_caculate (clk (clk_reads s)) (iPreamble_Time s))
                  then reset_frame s' else s'
                else s) in
      if iPrevCode s1 \<noteq> NO_CODE
      then let s' = s1\<lparr>clk_reads := Suc (clk_reads s1)\<rparr> in
        if FRAME_CYCLE_MAX p < uint (length_caculate (clk (clk_reads s1)) (iPreamble_Time s1))
        then s'\<lparr>iPrevCode := NO_CODE\<rparr> else s'
      else s1)"

definition read_pd :: "pd_proto \<Rightarrow> (nat \<Rightarrow> u32) \<Rightarrow> ir_buf \<Rightarrow> pd_state \<Rightarrow>
    (u32 \<times> bool \<times> ir_buf \<times> pd_state) option" where
  "read_pd p clk b s =
     do { (c, b1, s1) \<leftarrow> pd_loop IR_CBUFF_LENGTH p clk NO_CODE 0 b s;
          (c2, is_hold, s2) \<leftarrow> pd_hold p c b1 s1;
          Some (c2, is_hold, b1, pd_timeouts p clk s2) }"

definition read_nec :: "(nat \<Rightarrow> u32) \<Rightarrow> ir_buf \<Rightarrow> pd_state \<Rightarrow> (u32 \<times> bool \<times> ir_buf \<times> pd_state) option" where
  "read_nec = read_pd nec_proto"

definition read_tc9012 :: "(nat \<Rightarrow> u32) \<Rightarrow> ir_buf \<Rightarrow> pd_state \<Rightarrow> (u32 \<times> bool \<times> ir_buf \<times> pd_state) option" where
  "read_tc9012 = read_pd tc9012_proto"

section \<open>RC5\<close>

record rc5_state =
  rc5_iCode_Bit :: u32
  rc5_iCode :: u32
  prev_code :: u32
  iPrev_Data :: u32
  ERR_time :: u32
  last_bit :: u32
  ms_reads :: nat

definition MAX_BIT_TIME :: int where "MAX_BIT_TIME = SM_SYSTEM_HZ * 960"

definition MIN_BIT_TIME :: int where "MIN_BIT_TIME = SM_SYSTEM_HZ * 735"

text \<open>
  What the loop body does with the entry under the read index: drop it and go on, take its
  level as the next bit, or give up until the error time has passed.
\<close>

datatype rc5_verdict = Drop | Restart | Take | Fail

definition rc5_action :: "u32 \<Rightarrow> int \<Rightarrow> rc5_state \<Rightarrow> rc5_verdict" where
  "rc5_action iData iTime s =
     (if rc5_iCode_Bit s = 0 then (if iData = 0 then Restart else Take)
      else if rc5_iCode_Bit s = 1
      then if MAX_BIT_TIME < iTime \<or> iTime < MIN_BIT_TIME then Fail
           else if iData \<noteq> iPrev_Data s then Drop
           else if iData = 0 then Restart else Take
      else if iTime < MAX_BIT_TIME \<and> MIN_BIT_TIME < iTime \<and> iData \<noteq> iPrev_Data s then Drop
      else if iTime < MAX_BIT_TIME \<and> MIN_BIT_TIME < iTime \<and> iData = iPrev_Data s then Take
      else if iTime < 2 * MAX_BIT_TIME \<and> 2 * MIN_BIT_TIME < iTime \<and> iData \<noteq> iPrev_Data s then Take
      else Fail)"

text \<open>The end of the loop body: shift the bit in; fourteen bits are a code.\<close>

definition rc5_take :: "u32 \<Rightarrow> rc5_state \<Rightarrow> u32 \<times> bool \<times> rc5_state" where
  "rc5_take iData s =
     (let s1 = s\<lparr>rc5_iCode := push_bit 1 (rc5_iCode s) + iData, iPrev_Data := iData,
                 rc5_iCode_Bit := rc5_iCode_Bit s + 1\<rparr> in
      if rc5_iCode_Bit s1 = 14
      then (rc5_iCode s1, prev_code s1 = rc5_iCode s1, s1\<lparr>prev_code := rc5_iCode s1, last_bit := iData\<rparr>)
      else (NO_CODE, False, s1))"

primrec rc5_loop :: "nat \<Rightarrow> (nat \<Rightarrow> u32) \<Rightarrow> u32 \<Rightarrow> bool \<Rightarrow> ir_buf \<Rightarrow> rc5_state \<Rightarrow>
    (u32 \<times> bool \<times> ir_buf \<times> rc5_state) option" where
  "rc5_loop 0 ms rcv_code is_hold b s = None"
| "rc5_loop (Suc n) ms rcv_code is_hold b s =
     (if cb_start b \<noteq> cb_end b \<and> rcv_code = NO_CODE
      then if last_bit s \<noteq> 0 then rc5_loop n ms rcv_code is_hold (advance b) (s\<lparr>last_bit := 0\<rparr>)
           else do { v \<leftarrow> cur_entry b;
                     let iData = (if high_low v then 1 else 0);
                     (case rc5_action iData (uint (level_len v)) s of
                        Drop \<Rightarrow> rc5_loop n ms rcv_code is_hold (advance b) s
                      | Restart \<Rightarrow> rc5_loop n ms rcv_code is_hold (advance b) (s\<lparr>rc5_iCode_Bit := 0\<rparr>)
                      | Fail \<Rightarrow> Some (NO_CODE, is_hold, b,
                                  s\<lparr>ERR_time := ms (ms_reads s), ms_reads := Suc (ms_reads s)\<rparr>)
                      | Take \<Rightarrow> (case rc5_take iData s of (c, h, s1) \<Rightarrow>
                                  rc5_loop n ms c (is_hold \<or> h) (advance b) s1)) }
      else Some (rcv_code, is_hold, b, s))"

definition read_rc5 :: "(nat \<Rightarrow> u32) \<Rightarrow> ir_buf \<Rightarrow> rc5_state \<Rightarrow> (u32 \<times> bool \<times> ir_buf \<times> rc5_state) option" where
  "read_rc5 ms b s =
     (if ERR_time s \<noteq> 0
      then let s1 = s\<lparr>ms_reads := Suc (ms_reads s)\<rparr> in
        if 90 < ms (ms_reads s) - ERR_time s
        then Some (NO_CODE, False, b\<lparr>cb_start := 0, cb_end := 0\<rparr>,
               s1\<lparr>ERR_time := 0, rc5_iCode_Bit := 0, rc5_iCode := 0, prev_code := NO_CODE\<rparr>)
        else Some (NO_CODE, False, b, s1)
      else do { (c, h, b1, s1) \<leftarrow> rc5_loop IR_CBUFF_LENGTH ms NO_CODE False b s;
                Some (c, h, b1, if c \<noteq> NO_CODE then s1\<lparr>rc5_iCode_Bit := 0, rc5_iCode := 0\<rparr> else s1) })"

section \<open>XMP\<close>

record xmp_state =
  xmp_iCode :: u32
  iCode_nibble :: u32
  xmp_iPreamble_Found :: u32
  iVendorid :: u32
  iChecksum :: u32
  xmp_iPrevCode :: u32

definition VENDOR_ID_XFINITY :: u32 where "VENDOR_ID_XFINITY = 0x170F443E"

definition XMP_HEADER_MIN_HIGH_TIME :: int where "XMP_HEADER_MIN_HIGH_TIME = (972 - 68) * SM_SYSTEM_HZ"

definition XMP_HEADER_MAX_HIGH_TIME :: int where "XMP_HEADER_MAX_HIGH_TIME = (972 + 68 + 15 * 137) * SM_SYSTEM_HZ"

text \<open>
  The nibble of a pulse is \<open>(high_level - 699 * 1.085 * 25) / (126 * 1.085 * 25) + 1\<close>, computed
  in floating point and truncated.  In eighths of a tick the two constants are 151683 and
  27342.  The numerator is odd and the divisor even, so the exact quotient is never an
  integer; it stays at least 1/27342 away from every integer, which rounding errors do not
  bridge, and the truncated result is the integer division below.
\<close>

definition xmp_nibble :: "u32 \<Rightarrow> int" where
  "xmp_nibble high_level =
     (let num = 8 * uint high_level - 151683 + 27342 in
      if 0 \<le> num then num div 27342 else - (- num div 27342))"

definition xmp_pulse :: "u32 \<Rightarrow> u32 \<Rightarrow> u32 \<Rightarrow> bool \<Rightarrow> xmp_state \<Rightarrow> u32 \<times> bool \<times> xmp_state" where
  "xmp_pulse low_level high_level iRcvCode is_hold s =
     (let iTwin_Level = sint (low_level + high_level) in
      if XMP_HEADER_MIN_HIGH_TIME < iTwin_Level \<and> iTwin_Level < XMP_HEADER_MAX_HIGH_TIME
      then
        let iData = of_int (xmp_nibble high_level);
            s1 = s\<lparr>iVendorid := push_bit 4 (iVendorid s) OR iData\<rparr> in
        if iVendorid s1 = VENDOR_ID_XFINITY
        then (iRcvCode, is_hold,
              s1\<lparr>xmp_iPreamble_Found := 1, xmp_iCode := 0, iCode_nibble := 0, iVendorid := 0, iChecksum := 0\<rparr>)
        else if xmp_iPreamble_Found s1 \<noteq> 0 \<and> iCode_nibble s1 \<le> 8
        then
          let code = push_bit 4 (xmp_iCode s1) OR iData;
              s2 = s1\<lparr>xmp_iCode := code, iCode_nibble := iCode_nibble s1 + 1, iChecksum := code\<rparr> in
          if iCode_nibble s2 = 8
          then
            let s3 = s2\<lparr>xmp_iPreamble_Found := 0\<rparr> in
            if iChecksum s3 mod 16 = 0
            then (code, is_hold \<or> code AND 0x00800000 \<noteq> 0, s3\<lparr>xmp_iPrevCode := code\<rparr>)
            else (iRcvCode, is_hold, s3)
          else (iRcvCode, is_hold, s2)
        else (iRcvCode, is_hold, s1)
      else (iRcvCode, is_hold, s))"

primrec xmp_loop :: "nat \<Rightarrow> u32 \<Rightarrow> bool \<Rightarrow> ir_buf \<Rightarrow> xmp_state \<Rightarrow> (u32 \<times> bool \<times> ir_buf \<times> xmp_state) option" where
  "xmp_loop 0 iRcvCode is_hold b s = None"
| "xmp_loop (Suc n) iRcvCode is_hold b s =
     (if two_entries b \<and> iRcvCode = NO_CODE
      then do { v \<leftarrow> cur_entry b;
                let b1 = advance b;
                if high_low v then xmp_loop n iRcvCode is_hold b1 s
                else do { h \<leftarrow> cur_entry b1;
                          (case xmp_pulse (level_len v) (level_len h) iRcvCode is_hold s of
                             (c, hold, s1) \<Rightarrow> xmp_loop n c hold (advance b1) s1) } }
      else Some (iRcvCode, is_hold, b, s))"

definition read_xmp :: "ir_buf \<Rightarrow> xmp_state \<Rightarrow> (u32 \<times> bool \<times> ir_buf \<times> xmp_state) option" where
  "read_xmp b s = xmp_loop IR_CBUFF_LENGTH NO_CODE False b s"

section \<open>The entries of the buffer\<close>

definition ir_ok :: "ir_buf \<Rightarrow> bool" where
  "ir_ok b \<longleftrightarrow> length (cbuffer b) = 256 \<and> unat (cb_start b) < 256 \<and> unat (cb_end b) < 256"

definition ir_count :: "ir_buf \<Rightarrow> nat" where
  "ir_count b = (unat (cb_end b) + 256 - unat (cb_start b)) mod 256"

definition entries :: "ir_buf \<Rightarrow> u32 list" where
  "entries b = circ (cbuffer b) (unat (cb_start b)) (ir_count b)"

lemma and_mask_256: "unat (x AND CIRC_BUFF_MASK) = unat x mod 256" for x :: u32
proof -
  have "CIRC_BUFF_MASK = mask 8" by (simp add: CIRC_BUFF_MASK_def IR_CBUFF_LENGTH_def mask_eq_exp_minus_1)
  then have "x AND CIRC_BUFF_MASK = take_bit 8 x" by (simp only: take_bit_eq_mask)
  then show ?thesis by (simp only: unsigned_take_bit_eq) (simp add: take_bit_eq_mod)
qed

lemma unat_masked_Suc: "unat x < 256 \<Longrightarrow> unat ((x + 1) AND CIRC_BUFF_MASK) = Suc (unat x) mod 256" for x :: u32
  using unat_add_small [of x 1] by (simp add: and_mask_256)

lemma ir_count_less [simp]: "ir_count b < 256"
  by (simp add: ir_count_def)

lemma ir_count_eq:
  assumes "ir_ok b"
  shows "ir_count b = (if unat (cb_start b) \<le> unat (cb_end b) then unat (cb_end b) - unat (cb_start b)
    else unat (cb_end b) + 256 - unat (cb_start b))"
  using assms unfolding ir_ok_def ir_count_def by (subst mod_circ) auto

lemma length_entries [simp]: "length (entries b) = ir_count b"
  by (simp add: entries_def)

lemma entries_Cons:
  assumes "ir_ok b" and "ir_count b \<noteq> 0"
  shows "cur_entry b = Some (hd (entries b))" and "ir_ok (advance b)" and "entries (advance b) = tl (entries b)"
    and "ir_count (advance b) = ir_count b - 1"
proof -
  have ok: "length (cbuffer b) = 256" "unat (cb_start b) < 256" "unat (cb_end b) < 256"
    using assms(1) by (auto simp: ir_ok_def)
  obtain k where k: "ir_count b = Suc k" using assms(2) by (cases "ir_count b") auto
  have split: "entries b = circ (cbuffer b) (unat (cb_start b)) 1 @ circ (cbuffer b) (Suc (unat (cb_start b)) mod 256) k"
    using circ_append [of "cbuffer b" "unat (cb_start b)" 1 k] ok k by (simp add: entries_def)
  have adv: "unat (cb_start (advance b)) = Suc (unat (cb_start b)) mod 256" "cb_end (advance b) = cb_end b"
    "cbuffer (advance b) = cbuffer b"
    using unat_masked_Suc [OF ok(2)] by (simp_all add: advance_def)
  show "cur_entry b = Some (hd (entries b))" using split ok by (simp add: cur_entry_def circ_def)
  show ok': "ir_ok (advance b)" using ok adv by (simp add: ir_ok_def)
  have "Suc (unat (cb_start b)) mod 256 = (if unat (cb_start b) = 255 then 0 else Suc (unat (cb_start b)))"
    using ok(2) by (subst mod_circ) auto
  then show c: "ir_count (advance b) = ir_count b - 1"
    using ok adv assms(2) unfolding ir_count_eq [OF ok'] ir_count_eq [OF assms(1)] by (auto split: if_splits)
  show "entries (advance b) = tl (entries b)"
    using split adv c k by (simp add: entries_def circ_def)
qed

lemma two_entries_iff: assumes "ir_ok b" shows "two_entries b \<longleftrightarrow> 2 \<le> ir_count b"
proof -
  have ok: "unat (cb_start b) < 256" "unat (cb_end b) < 256" using assms(1) by (auto simp: ir_ok_def)
  have "unat (cb_start b + 1) = unat (cb_start b) + 1" using ok by (subst unat_add_small) auto
  moreover have "unat (cb_start b - cb_end b) = unat (cb_start b) - unat (cb_end b)" if "unat (cb_end b) < unat (cb_start b)"
    using that by (intro unat_sub_small) simp
  ultimately show ?thesis
    using ok unfolding two_entries_def ir_count_eq [OF assms] word_less_nat_alt IR_CBUFF_LENGTH_def
    by (cases "unat (cb_end b) < unat (cb_start b)") auto
qed

lemma not_empty_iff: assumes "ir_ok b" shows "cb_start b \<noteq> cb_end b \<longleftrightarrow> ir_count b \<noteq> 0"
proof -
  have ok: "unat (cb_start b) < 256" "unat (cb_end b) < 256" using assms(1) by (auto simp: ir_ok_def)
  then show ?thesis unfolding unat_eq_iff ir_count_eq [OF assms] by auto
qed

end
