(* ===== verification/Ir_Frames.thy ===== *)
theory Ir_Frames
  imports Ir_Decode
begin

text \<open>
  What the infrared readers decode.  Each reader loop over the circular buffer is the same
  as a loop over the list of waiting pulses, so it always returns and never leaves the
  buffer; on such lists the pulse-distance readers are shown to recover every code word
  from its frame.
\<close>

section \<open>Reader loops as list functions\<close>

lemma entries_two:
  assumes "ir_ok b" and "2 \<le> ir_count b"
  obtains v h es where "entries b = v # h # es" "cur_entry b = Some v" "cur_entry (advance b) = Some h"
    "entries (advance b) = h # es" "entries (advance (advance b)) = es"
    "ir_ok (advance b)" "ir_ok (advance (advance b))"
    "ir_count (advance b) = ir_count b - 1" "ir_count (advance (advance b)) = ir_count b - 2"
proof -
  have c: "ir_count b \<noteq> 0" using assms(2) by simp
  note a = entries_Cons [OF assms(1) c]
  have c': "ir_count (advance b) \<noteq> 0" using a(4) assms(2) by simp
  note a' = entries_Cons [OF a(2) c']
  obtain v h es where "entries b = v # h # es"
    using assms(2) length_entries [of b] by (metis One_nat_def Suc_1 Suc_le_length_iff)
  then show ?thesis using a a' that by auto
qed

lemma entries_short: "ir_ok b \<Longrightarrow> \<not> 2 \<le> ir_count b \<Longrightarrow> entries b = [] \<or> (\<exists>v. entries b = [v])"
  using length_entries [of b] by (cases "entries b" rule: remdups_adj.cases) auto

fun pd_list :: "pd_proto \<Rightarrow> (nat \<Rightarrow> u32) \<Rightarrow> u32 \<Rightarrow> u32 \<Rightarrow> u32 list \<Rightarrow> pd_state \<Rightarrow> u32 \<times> u32 list \<times> pd_state" where
  "pd_list p clk rcv d (v # h # es) s =
     (if rcv \<noteq> NO_CODE then (rcv, v # h # es, s)
      else if high_low v then pd_list p clk rcv d (h # es) s
      else (case pd_pulse p clk (level_len v) (level_len h) d s of
              None \<Rightarrow> pd_list p clk rcv d es s
            | Some (d', s1) \<Rightarrow> (case pd_complete rcv s1 of (c, s2) \<Rightarrow> pd_list p clk c d' es s2)))"
| "pd_list p clk rcv d [] s = (rcv, [], s)"
| "pd_list p clk rcv d [v] s = (rcv, [v], s)"

lemma pd_loop_list:
  assumes "ir_ok b" and "ir_count b < n" and "pd_list p clk rcv d (entries b) s = (c, es, s')"
  shows "\<exists>b'. pd_loop n p clk rcv d b s = Some (c, b', s') \<and> ir_ok b' \<and> entries b' = es"
  using assms
proof (induction n arbitrary: rcv d b s)
  case (Suc n)
  show ?case
  proof (cases "two_entries b \<and> rcv = NO_CODE")
    case False
    then have "(c, es, s') = (rcv, entries b, s)"
      using Suc.prems entries_short [OF Suc.prems(1)] two_entries_iff [OF Suc.prems(1)]
      by (cases "entries b" rule: remdups_adj.cases) auto
    then show ?thesis using False Suc.prems(1) by auto
  next
    case True
    then have two: "2 \<le> ir_count b" using two_entries_iff [OF Suc.prems(1)] by simp
    obtain v h l where e: "entries b = v # h # l" "cur_entry b = Some v" "cur_entry (advance b) = Some h"
      "entries (advance b) = h # l" "entries (advance (advance b)) = l"
      "ir_ok (advance b)" "ir_ok (advance (advance b))"
      "ir_count (advance b) = ir_count b - 1" "ir_count (advance (advance b)) = ir_count b - 2"
      by (rule entries_two [OF Suc.prems(1) two])
    have n: "ir_count (advance b) < n" "ir_count (advance (advance b)) < n" using e(8,9) Suc.prems(2) two by auto
    show ?thesis
    proof (cases "high_low v")
      case h: True
      then have "pd_list p clk rcv d (entries (advance b)) s = (c, es, s')"
        using Suc.prems(3) True unfolding e(1,4) by simp
      then show ?thesis using Suc.IH [OF e(6) n(1)] True h e(2) by simp
    next
      case l: False
      note ih = Suc.IH [OF e(7) n(2)]
      show ?thesis
      proof (cases "pd_pulse p clk (level_len v) (level_len h) d s")
        case None
        then have "pd_list p clk rcv d (entries (advance (advance b))) s = (c, es, s')"
          using Suc.prems(3) True l unfolding e(1,5) by simp
        then show ?thesis using ih True l e(2,3) None by simp
      next
        case (Some ds)
        obtain d' s1 where ds: "ds = (d', s1)" by (cases ds)
        obtain c' s2 where cs: "pd_complete rcv s1 = (c', s2)" by (cases "pd_complete rcv s1")
        have "pd_list p clk c' d' (entries (advance (advance b))) s2 = (c, es, s')"
          using Suc.prems(3) True l Some ds cs unfolding e(1,5) by simp
        then show ?thesis using ih True l e(2,3) Some ds cs by simp
      qed
    qed
  qed
qed simp

lemma pd_hold_total: "ir_ok b \<Longrightarrow> \<exists>c' h s'. pd_hold p c b s = Some (c', h, s')"
  by (auto simp: pd_hold_def cur_entry_def ir_ok_def)

lemma read_pd_total:
  assumes "ir_ok b"
  shows "\<exists>c h b' s'. read_pd p clk b s = Some (c, h, b', s') \<and> ir_ok b'"
proof -
  obtain c es s1 where l: "pd_list p clk NO_CODE 0 (entries b) s = (c, es, s1)" by (cases "pd_list p clk NO_CODE 0 (entries b) s")
  then obtain b' where "pd_loop IR_CBUFF_LENGTH p clk NO_CODE 0 b s = Some (c, b', s1)" "ir_ok b'"
    using pd_loop_list [OF assms _ l, of IR_CBUFF_LENGTH] by (auto simp: IR_CBUFF_LENGTH_def)
  then show ?thesis using pd_hold_total [of b' p c s1] by (auto simp: read_pd_def)
qed

section \<open>Frames of the pulse-distance protocols\<close>

text \<open>The pulse pair of one bit, of a preamble that is not a hold, and a whole frame.\<close>

definition bit_pair :: "pd_proto \<Rightarrow> bool \<Rightarrow> u32 \<times> u32 \<Rightarrow> bool" where
  "bit_pair p x vh \<longleftrightarrow> \<not> high_low (fst vh) \<and>
     (let twin = sint (level_len (fst vh) + level_len (snd vh)) in
      if x then DATA_1_MIN_LEN p < twin \<and> twin < DATA_1_MAX_LEN p
      else DATA_0_MIN_LEN p < twin \<and> twin < DATA_0_MAX_LEN p)"

definition start_pair :: "pd_proto \<Rightarrow> u32 \<times> u32 \<Rightarrow> bool" where
  "start_pair p vh \<longleftrightarrow> \<not> high_low (fst vh) \<and>
     (let twin = sint (level_len (fst vh) + level_len (snd vh)) in
      is_preamble p (level_len (fst vh)) twin \<and> (hold_bits p \<noteq> 0 \<or> PREAMB_HOLD_MAX p \<le> twin))"

definition pairs :: "(u32 \<times> u32) list \<Rightarrow> u32 list" where
  "pairs ps = concat (map (\<lambda>vh. [fst vh, snd vh]) ps)"

definition is_frame :: "pd_proto \<Rightarrow> u32 \<Rightarrow> (u32 \<times> u32) list \<Rightarrow> bool" where
  "is_frame p c ps \<longleftrightarrow> length ps = 33 \<and> start_pair p (ps ! 0) \<and>
     list_all (\<lambda>k. bit_pair p (bit c (bit_pos p k)) (ps ! Suc k)) [0..<32]"

lemma pairs_simps [simp]: "pairs [] = []" "pairs (vh # ps) = fst vh # snd vh # pairs ps"
  by (simp_all add: pairs_def)

lemma pairs_append: "pairs (ps @ qs) = pairs ps @ pairs qs"
  by (simp add: pairs_def)

text \<open>
  A protocol whose bit positions number the 32 bits of a code without repetition, and whose
  lengths for 0 and 1 do not overlap.
\<close>

locale pulse_distance =
  fixes p :: pd_proto
  assumes pos_less: "k < 32 \<Longrightarrow> bit_pos p k < 32"
    and pos_inj: "j < 32 \<Longrightarrow> k < 32 \<Longrightarrow> bit_pos p j = bit_pos p k \<Longrightarrow> j = k"
    and gap: "DATA_0_MAX_LEN p \<le> DATA_1_MIN_LEN p"
begin

text \<open>The code word after its first \<open>k\<close> bits.\<close>

primrec partial :: "u32 \<Rightarrow> nat \<Rightarrow> u32" where
  "partial c 0 = 0"
| "partial c (Suc k) = partial c k + push_bit (bit_pos p k) (of_bool (bit c (bit_pos p k)))"

lemma bit_partial: "k \<le> 32 \<Longrightarrow> bit (partial c k) n \<longleftrightarrow> bit c n \<and> (\<exists>j<k. bit_pos p j = n)"
proof (induction k arbitrary: n)
  case (Suc k)
  have nj: "bit_pos p j \<noteq> bit_pos p k" if "j < k" for j using pos_inj [of j k] Suc.prems that by auto
  have dis: "partial c k AND push_bit (bit_pos p k) (of_bool (bit c (bit_pos p k))) = 0"
    using Suc nj by (intro bit_eqI) (auto simp: bit_simps)
  have "partial c (Suc k) = partial c k OR push_bit (bit_pos p k) (of_bool (bit c (bit_pos p k)))"
    by (simp only: partial.simps disjunctive_add_eq_or [OF dis])
  then show ?case using Suc pos_less [of k] by (auto simp: bit_simps less_Suc_eq)
qed simp

lemma partial_all: "partial c 32 = c"
proof (rule bit_eqI)
  fix n assume "possible_bit TYPE(32 word) n"
  then have n: "n < 32" by simp
  have "inj_on (bit_pos p) {..<32}" using pos_inj by (auto simp: inj_on_def)
  then have "bit_pos p ` {..<32} = {..<32}" using pos_less by (intro endo_inj_surj) auto
  then have "\<exists>j<32. bit_pos p j = n" using n by (metis image_iff lessThan_iff)
  then show "bit (partial c 32) n \<longleftrightarrow> bit c n" by (simp add: bit_partial)
qed

lemma pd_pulse_bit:
  assumes "bit_pair p x vh" and "iPreamble_Found s \<noteq> 0"
  shows "pd_pulse p clk (level_len (fst vh)) (level_len (snd vh)) d s =
    Some (of_bool x, take_data_bit p (of_bool x) s)"
  using assms gap by (auto simp: pd_pulse_def bit_pair_def Let_def split: if_splits)

text \<open>The data bits of a frame.\<close>

lemma pd_list_bits:
  assumes "k + length ps = 32" and "\<forall>j<length ps. bit_pair p (bit c (bit_pos p (k + j))) (ps ! j)"
    and "iPreamble_Found s \<noteq> 0" and "iCode s = partial c k" and "iCode_Bit s = of_nat k" and "ps \<noteq> []"
  shows "pd_list p clk NO_CODE d (pairs ps @ es) s =
    pd_list p clk c (of_bool (bit c (bit_pos p 31))) es
      (s\<lparr>iPrevCode := c, iPreamble_Found := 0, iCode := 0, iCode_Bit := 0\<rparr>)"
  using assms
proof (induction ps arbitrary: k d s)
  case (Cons vh ps)
  let ?x = "bit c (bit_pos p k)" and ?s = "take_data_bit p (of_bool (bit c (bit_pos p k))) s"
  have k: "k < 32" using Cons.prems(1) by simp
  have b: "bit_pair p ?x vh" using Cons.prems(2) by force
  then have nh: "\<not> high_low (fst vh)" by (simp add: bit_pair_def)
  have "unat (of_nat k :: u32) = k" using k by (simp add: unsigned_of_nat take_bit_nat_eq_self)
  then have s: "?s = s\<lparr>iCode := partial c (Suc k), iCode_Bit := of_nat (Suc k)\<rparr>"
    using Cons.prems(4,5) k by (simp add: take_data_bit_def word_less_nat_alt)
  show ?case
  proof (cases "ps = []")
    case True
    then have "Suc k = 32" using Cons.prems(1) by simp
    then have "pd_complete NO_CODE ?s = (c, s\<lparr>iPrevCode := c, iPreamble_Found := 0, iCode := 0, iCode_Bit := 0\<rparr>)"
      unfolding s pd_complete_def by (simp add: partial_all del: partial.simps)
    moreover have "k = 31" using \<open>Suc k = 32\<close> by simp
    ultimately show ?thesis
      using True nh pd_pulse_bit [OF b Cons.prems(3)] by simp
  next
    case False
    have "(of_nat (Suc k) :: u32) \<noteq> 32"
    proof -
      have "unat (of_nat (Suc k) :: u32) = Suc k" using k by (simp only: unsigned_of_nat) (simp add: take_bit_nat_eq_self)
      moreover have "Suc k \<noteq> 32" using False Cons.prems(1) by (cases ps) auto
      ultimately show ?thesis by auto
    qed
    then have pc: "pd_complete NO_CODE ?s = (NO_CODE, ?s)" unfolding s pd_complete_def by simp
    have "pd_list p clk NO_CODE (of_bool ?x) (pairs ps @ es) ?s = pd_list p clk c (of_bool (bit c (bit_pos p 31))) es
        (?s\<lparr>iPrevCode := c, iPreamble_Found := 0, iCode := 0, iCode_Bit := 0\<rparr>)"
    proof (rule Cons.IH [of "Suc k"])
      show "\<forall>j<length ps. bit_pair p (bit c (bit_pos p (Suc k + j))) (ps ! j)"
        using Cons.prems(2) by (metis Suc_less_eq add_Suc_shift length_Cons nth_Cons_Suc)
    qed (use Cons.prems s False in auto)
    then show ?thesis using nh pd_pulse_bit [OF b Cons.prems(3)] pc s by simp
  qed
qed simp

text \<open>A frame at the head of the buffer is decoded to its code and consumed.\<close>

lemma frame_decoded:
  assumes "ir_ok b" and "entries b = pairs ps @ es" and "is_frame p c ps" and "c \<noteq> NO_CODE"
    and "iPreamble_Found s = 0" and "iCode_Bit s \<noteq> 32"
  shows "\<exists>b' s'. read_pd p clk b s = Some (c, False, b', s') \<and> ir_ok b' \<and> entries b' = es \<and> iPreamble_Found s' = 0"
proof -
  obtain vh qs where ps: "ps = vh # qs" using assms(3) by (cases ps) (auto simp: is_frame_def)
  have st: "start_pair p vh" and len: "length qs = 32" and bits: "\<forall>j<length qs. bit_pair p (bit c (bit_pos p j)) (qs ! j)"
    using assms(3) by (auto simp: is_frame_def ps list_all_iff)
  define twin where "twin = sint (level_len (fst vh) + level_len (snd vh))"
  let ?s = "start_frame p clk twin s"
  let ?t = "?s\<lparr>iPrevCode := c, iPreamble_Found := 0, iCode := 0, iCode_Bit := 0\<rparr>"
  have pulse: "pd_pulse p clk (level_len (fst vh)) (level_len (snd vh)) 0 s = Some (0, ?s)"
    using st assms(5) by (simp add: pd_pulse_def start_pair_def Let_def twin_def)
  have "pd_list p clk NO_CODE 0 (entries b) s = pd_list p clk NO_CODE 0 (pairs qs @ es) ?s"
    using st pulse unfolding assms(2) ps by (simp add: start_pair_def pd_complete_def start_frame_def)
  also have "\<dots> = pd_list p clk c (of_bool (bit c (bit_pos p 31))) es ?t"
    using len bits by (intro pd_list_bits [of 0]) (auto simp: start_frame_def)
  also have "\<dots> = (c, es, ?t)" using assms(4) by (cases es rule: remdups_adj.cases) auto
  finally obtain b' where b': "pd_loop IR_CBUFF_LENGTH p clk NO_CODE 0 b s = Some (c, b', ?t)" "ir_ok b'" "entries b' = es"
    using pd_loop_list [OF assms(1), of IR_CBUFF_LENGTH p clk NO_CODE 0 s c es ?t] by (auto simp: IR_CBUFF_LENGTH_def)
  have "pd_hold p c b' ?t = Some (c, False, ?t)"
    using st unfolding pd_hold_def start_pair_def Let_def twin_def [symmetric] by (auto simp: start_frame_def)
  moreover have "iPreamble_Found (pd_timeouts p clk ?t) = 0" by (simp add: pd_timeouts_def Let_def)
  ultimately show ?thesis using b' by (simp add: read_pd_def)
qed

end

interpretation nec: pulse_distance nec_proto
  by unfold_locales (simp_all add: nec_proto_def)

lemma nec_pos: "bit_pos nec_proto k = k"
  by (simp add: nec_proto_def)

lemma tc9012_pos:
  assumes "k < 32"
  shows "bit_pos tc9012_proto k = (3 - k div 8) * 8 + k mod 8"
    and "bit_pos tc9012_proto k mod 8 = k mod 8" and "bit_pos tc9012_proto k div 8 = 3 - k div 8"
proof -
  have "k div 8 \<le> 3" "k mod 8 < 8" using assms by auto
  then show pos: "bit_pos tc9012_proto k = (3 - k div 8) * 8 + k mod 8"
    by (simp add: tc9012_proto_def diff_mult_distrib)
  show "bit_pos tc9012_proto k mod 8 = k mod 8" "bit_pos tc9012_proto k div 8 = 3 - k div 8"
    unfolding pos by simp_all
qed

interpretation tc9012: pulse_distance tc9012_proto
proof
  fix k :: nat assume "k < 32"
  then show "bit_pos tc9012_proto k < 32" using tc9012_pos(3) [of k] by simp
next
  fix j k :: nat assume jk: "j < 32" "k < 32" "bit_pos tc9012_proto j = bit_pos tc9012_proto k"
  then have "j mod 8 = k mod 8" "3 - j div 8 = 3 - k div 8" using tc9012_pos(2,3) by metis+
  moreover have "j div 8 \<le> 3" "k div 8 \<le> 3" using jk(1,2) by auto
  ultimately have "j mod 8 = k mod 8" "j div 8 = k div 8" by linarith+
  then show "j = k" by (metis div_mult_mod_eq)
qed (simp add: tc9012_proto_def SM_SYSTEM_HZ_def)

section \<open>Properties of the pulse-distance readers\<close>

text \<open>A NEC frame with the nominal pulse lengths.\<close>

definition nec_encode :: "u32 \<Rightarrow> (u32 \<times> u32) list" where
  "nec_encode c = (224825, 0x80000000 OR 116050) #
     map (\<lambda>k. (14000, 0x80000000 OR (if bit c k then 44025 else 15000))) [0..<32]"

lemma nec_encode_frame: "is_frame nec_proto c (nec_encode c)"
  unfolding is_frame_def list_all_iff
  by (auto simp: nec_encode_def nec_proto_def SM_SYSTEM_HZ_def start_pair_def bit_pair_def is_preamble_def
      high_low_def level_len_def nth_append)

text \<open>
  The frame of a code by the timings documented in \<^verbatim>\<open>sm_ir.c\<close> (8.993 ms and 4.642 ms for the
  preamble, 0.561 ms and then 1.75 ms or 0.598 ms for a bit), with 25 ticks per microsecond, every
  pulse within three percent of its length, and the bits of the code from the least significant one.
\<close>

definition near :: "int \<Rightarrow> u32 \<Rightarrow> bool" where
  "near us v \<longleftrightarrow> 97 * (25 * us) \<le> 100 * uint (take_bit 31 v) \<and> 100 * uint (take_bit 31 v) \<le> 103 * (25 * us)"

definition nec_timed :: "u32 \<Rightarrow> (u32 \<times> u32) list \<Rightarrow> bool" where
  "nec_timed c ps \<longleftrightarrow> length ps = 33 \<and> list_all (\<lambda>vh. \<not> bit (fst vh) 31) ps \<and>
     near 8993 (fst (ps ! 0)) \<and> near 4642 (snd (ps ! 0)) \<and>
     list_all (\<lambda>k. near 561 (fst (ps ! Suc k)) \<and> near (if bit c k then 1750 else 598) (snd (ps ! Suc k))) [0..<32]"

lemma level_len_take_bit: "level_len v = take_bit 31 v"
proof -
  have "(0x7fffffff :: u32) = mask 31" by (simp add: mask_eq_exp_minus_1)
  then show ?thesis by (simp add: level_len_def take_bit_eq_mask)
qed

lemma high_low_bit: "high_low v \<longleftrightarrow> bit v 31"
  using and_exp_eq_0_iff_not_bit [of v 31] by (simp add: high_low_def)

lemma sint_add_small:
  fixes a b :: u32
  assumes "uint a + uint b < 2 ^ 31"
  shows "sint (a + b) = uint a + uint b"
proof -
  have "uint (a + b) = uint a + uint b" using assms by (simp add: uint_word_ariths)
  moreover have "- (2 ^ 31) \<le> uint a + uint b" by (rule order_trans [of _ 0]) simp_all
  ultimately show ?thesis using assms unfolding sint_uint by (simp add: signed_take_bit_int_eq_self)
qed

lemma near_twin:
  assumes "near m a" and "near n b" and "0 \<le> m" and "0 \<le> n" and "m + n < 100000"
  shows "97 * (25 * (m + n)) \<le> 100 * sint (level_len a + level_len b)"
    and "100 * sint (level_len a + level_len b) \<le> 103 * (25 * (m + n))"
proof -
  have "100 * (uint (level_len a) + uint (level_len b)) \<le> 103 * (25 * (m + n))"
    using assms(1,2) by (simp add: near_def level_len_take_bit)
  moreover from this have "sint (level_len a + level_len b) = uint (level_len a) + uint (level_len b)"
    using assms(5) by (intro sint_add_small) simp
  ultimately show "97 * (25 * (m + n)) \<le> 100 * sint (level_len a + level_len b)"
    "100 * sint (level_len a + level_len b) \<le> 103 * (25 * (m + n))"
    using assms(1,2) by (simp_all add: near_def level_len_take_bit)
qed

lemma nec_timed_frame:
  assumes "nec_timed c ps"
  shows "is_frame nec_proto c ps"
proof -
  have l: "length ps = 33" and lo: "\<And>i. i < 33 \<Longrightarrow> \<not> high_low (fst (ps ! i))"
    using assms by (auto simp: nec_timed_def list_all_length high_low_bit)
  have st: "near 8993 (fst (ps ! 0))" "near 4642 (snd (ps ! 0))" using assms by (simp_all add: nec_timed_def)
  have "start_pair nec_proto (ps ! 0)"
    using near_twin [OF st] lo [of 0] st(1)
    by (simp add: start_pair_def Let_def is_preamble_def nec_proto_def SM_SYSTEM_HZ_def near_def level_len_take_bit)
  moreover have "bit_pair nec_proto (bit c k) (ps ! Suc k)" if k: "k < 32" for k
  proof -
    have b: "near 561 (fst (ps ! Suc k))" "near (if bit c k then 1750 else 598) (snd (ps ! Suc k))"
      using assms k by (simp_all add: nec_timed_def list_all_iff)
    then show ?thesis using near_twin [OF b] lo [of "Suc k"] k
      by (simp add: bit_pair_def Let_def nec_proto_def SM_SYSTEM_HZ_def split: if_splits)
  qed
  ultimately show ?thesis using l by (simp add: is_frame_def list_all_iff nec_pos)
qed

text \<open>
  C25: let the pulse buffer begin with a NEC frame of a 32-bit code other than 0xffffffff, either
  within three percent of the documented timings, bit 0 first, or with pulse lengths anywhere in
  the ranges the reader accepts, and let anything follow it.  A reader that is not inside a frame
  returns exactly this code and reports no hold; it removes exactly the frame, leaves what follows
  it in the buffer, and is again not inside a frame.
\<close>

theorem nec_decodes_frame:
  assumes "ir_ok b" and "entries b = pairs ps @ es" and "nec_timed c ps \<or> is_frame nec_proto c ps" and "c \<noteq> NO_CODE"
    and "iPreamble_Found s = 0" and "iCode_Bit s \<noteq> 32"
  shows "\<exists>b' s'. read_nec clk b s = Some (c, False, b', s') \<and> ir_ok b' \<and> entries b' = es \<and> iPreamble_Found s' = 0"
proof -
  have "is_frame nec_proto c ps" using assms(3) nec_timed_frame by blast
  then show ?thesis unfolding read_nec_def using assms(1,2,4-) by (intro nec.frame_decoded)
qed

text \<open>
  the same for the TC9012 reader, whose frames send the bytes of the code from the
  most significant one and the bits of each byte from the least significant one.
\<close>

lemma tc9012_decodes_frame:
  assumes "ir_ok b" and "entries b = pairs ps @ es" and "is_frame tc9012_proto c ps" and "c \<noteq> NO_CODE"
    and "iPreamble_Found s = 0" and "iCode_Bit s \<noteq> 32"
  shows "\<exists>b' s'. read_tc9012 clk b s = Some (c, False, b', s') \<and> ir_ok b' \<and> entries b' = es \<and> iPreamble_Found s' = 0"
  unfolding read_tc9012_def using assms by (rule tc9012.frame_decoded)

definition filled_buf :: "u32 list \<Rightarrow> ir_buf" where
  "filled_buf es = \<lparr>cbuffer = es @ replicate (256 - length es) 0, cb_start = 0, cb_end = of_nat (length es)\<rparr>"

lemma filled_buf_ok: "length es < 256 \<Longrightarrow> ir_ok (filled_buf es)" "length es < 256 \<Longrightarrow> entries (filled_buf es) = es"
proof -
  assume l: "length es < 256"
  have "unat (of_nat (length es) :: u32) = length es" using l by (simp add: unsigned_of_nat take_bit_nat_eq_self)
  then show "ir_ok (filled_buf es)" "entries (filled_buf es) = es"
    using l by (simp_all add: filled_buf_def ir_ok_def entries_def ir_count_def circ_straight)
qed

lemma length_pairs [simp]: "length (pairs ps) = 2 * length ps"
  by (induction ps) auto

definition idle_pd :: pd_state where
  "idle_pd = \<lparr>iPrevCode = NO_CODE, iCode = 0, iCode_Bit = 0, iPreamble_Found = 0,
     iPreamble_Maybe_HOLD = 0, iPreamble_Time = 0, clk_reads = 0\<rparr>"

lemma nec_encode_timed: "nec_timed 0xfd02ff00 (nec_encode 0xfd02ff00)"
  by code_simp

theorem nec_decodes_frame_witness:
  "\<exists>b' s'. read_nec (\<lambda>_. 0) (filled_buf (pairs (nec_encode 0xfd02ff00) @ [14000])) idle_pd = Some (0xfd02ff00, False, b', s') \<and>
    ir_ok b' \<and> entries b' = [14000] \<and> iPreamble_Found s' = 0"
  by (rule nec_decodes_frame [OF _ _ disjI1 [OF nec_encode_timed]])
    (simp_all add: filled_buf_ok idle_pd_def NO_CODE_def nec_encode_def)

definition tc9012_encode :: "u32 \<Rightarrow> (u32 \<times> u32) list" where
  "tc9012_encode c = (112500, 0x80000000 OR 112500) #
     map (\<lambda>k. (14000, 0x80000000 OR (if bit c (bit_pos tc9012_proto k) then 42250 else 14125))) [0..<32]"

lemma tc9012_encode_frame: "is_frame tc9012_proto c (tc9012_encode c)"
  unfolding is_frame_def list_all_iff
  by (auto simp: tc9012_encode_def tc9012_proto_def SM_SYSTEM_HZ_def start_pair_def bit_pair_def is_preamble_def
      high_low_def level_len_def nth_append)

text \<open>
  C28: a preamble that arrives while the NEC reader is inside a frame is itself counted as a
  data bit: the complete frame that follows an interrupted one is decoded to its code
  shifted left by one bit, and its last pulse pair stays in the buffer.
\<close>

theorem nec_restart_shifts_code:
  assumes "ir_ok b" and "entries b = pairs ps @ es" and "is_frame nec_proto c ps" and "push_bit 1 c \<noteq> NO_CODE"
    and "iPreamble_Found s \<noteq> 0"
  shows "\<exists>b' s'. read_nec clk b s = Some (push_bit 1 c, False, b', s') \<and> entries b' = pairs [last ps] @ es"
proof -
  obtain vh qs where ps: "ps = vh # qs" using assms(3) by (cases ps) (auto simp: is_frame_def)
  have st: "start_pair nec_proto vh" and len: "length qs = 32"
    and bits: "\<forall>j<length qs. bit_pair nec_proto (bit c j) (qs ! j)"
    using assms(3) by (auto simp: is_frame_def ps list_all_iff nec_proto_def)
  define twin where "twin = sint (level_len (fst vh) + level_len (snd vh))"
  let ?s = "take_data_bit nec_proto 0 (start_frame nec_proto clk twin s)"
  let ?t = "?s\<lparr>iPrevCode := push_bit 1 c, iPreamble_Found := 0, iCode := 0, iCode_Bit := 0\<rparr>"
  have tw: "PREAMB_MIN_LEN nec_proto < twin" "is_preamble nec_proto (level_len (fst vh)) twin" "PREAMB_HOLD_MAX nec_proto \<le> twin"
    using st by (auto simp: start_pair_def Let_def twin_def is_preamble_def nec_proto_def)
  have s: "?s = (start_frame nec_proto clk twin s)\<lparr>iCode := 0, iCode_Bit := 1\<rparr>"
    by (simp add: take_data_bit_def start_frame_def)
  have pulse: "pd_pulse nec_proto clk (level_len (fst vh)) (level_len (snd vh)) 0 s = Some (0, ?s)"
    using tw(1,2) assms(5) unfolding pd_pulse_def Let_def twin_def [symmetric]
    by (simp add: nec_proto_def SM_SYSTEM_HZ_def)
  have qs: "pairs qs = pairs (take 31 qs) @ pairs [last qs]"
  proof -
    have "qs = take 31 qs @ [last qs]" using len append_butlast_last_id [of qs] by (cases qs) (auto simp: butlast_conv_take)
    then show ?thesis using pairs_append [of "take 31 qs" "[last qs]"] by simp
  qed
  have "pd_list nec_proto clk NO_CODE 0 (entries b) s = pd_list nec_proto clk NO_CODE 0 (pairs qs @ es) ?s"
    using st pulse unfolding assms(2) ps by (simp add: start_pair_def pd_complete_def s)
  also have "\<dots> = pd_list nec_proto clk NO_CODE 0 (pairs (take 31 qs) @ pairs [last qs] @ es) ?s"
    unfolding qs by simp
  also have "\<dots> = pd_list nec_proto clk (push_bit 1 c) (of_bool (bit (push_bit 1 c) (bit_pos nec_proto 31))) (pairs [last qs] @ es) ?t"
  proof (rule nec.pd_list_bits [of 1])
    show "\<forall>j<length (take 31 qs). bit_pair nec_proto (bit (push_bit 1 c) (bit_pos nec_proto (1 + j))) (take 31 qs ! j)"
      using bits len by (auto simp: nec_pos bit_push_bit_iff simp del: push_bit_of_1 push_bit_Suc)
    show "iCode ?s = nec.partial (push_bit 1 c) 1"
      unfolding s by (simp add: nec_pos bit_push_bit_iff del: push_bit_Suc)
    show "iPreamble_Found ?s \<noteq> 0" "iCode_Bit ?s = of_nat 1" unfolding s by (simp_all add: start_frame_def)
    show "take 31 qs \<noteq> []" "1 + length (take 31 qs) = 32" using len by auto
  qed
  also have "\<dots> = (push_bit 1 c, pairs [last qs] @ es, ?t)" using assms(4) by simp
  finally obtain b' where b': "pd_loop IR_CBUFF_LENGTH nec_proto clk NO_CODE 0 b s = Some (push_bit 1 c, b', ?t)"
    "entries b' = pairs [last qs] @ es"
    using pd_loop_list [OF assms(1), of IR_CBUFF_LENGTH nec_proto clk NO_CODE 0 s "push_bit 1 c" _ ?t]
    by (auto simp: IR_CBUFF_LENGTH_def)
  have "iPreamble_Maybe_HOLD ?t = 0" unfolding s using tw(3) by (simp add: start_frame_def)
  then have "pd_hold nec_proto (push_bit 1 c) b' ?t = Some (push_bit 1 c, False, ?t)"
    unfolding pd_hold_def by (simp only: simp_thms if_False)
  then show ?thesis using b' len ps by (auto simp: read_nec_def read_pd_def)
qed

theorem nec_restart_shifts_code_witness:
  "\<exists>b' s'. read_nec (\<lambda>_. 0) (filled_buf (pairs (nec_encode 0xfd02ff00))) (idle_pd\<lparr>iPreamble_Found := 1\<rparr>) =
      Some (push_bit 1 0xfd02ff00, False, b', s') \<and> entries b' = pairs [last (nec_encode 0xfd02ff00)] @ []"
  by (rule nec_restart_shifts_code [OF _ _ nec_encode_frame])
    (simp_all add: filled_buf_ok idle_pd_def NO_CODE_def nec_encode_def)

section \<open>Storing pulses, and the other readers\<close>

lemma ir_buf_eqI: "cbuffer b = cbuffer b' \<Longrightarrow> cb_start b = cb_start b' \<Longrightarrow> cb_end b = cb_end b' \<Longrightarrow> entries b = entries b'"
  by (simp add: entries_def ir_count_def)

text \<open>Appending at the end index, before the overflow test of \<open>store_ircbuffer\<close>.\<close>

lemma store_appends:
  assumes "ir_ok b" and "ir_count b < 255"
  shows "entries (b\<lparr>cbuffer := (cbuffer b)[unat (cb_end b) := v], cb_end := (cb_end b + 1) AND CIRC_BUFF_MASK\<rparr>) = entries b @ [v]"
    (is "entries ?b = _")
    and "ir_ok (b\<lparr>cbuffer := (cbuffer b)[unat (cb_end b) := v], cb_end := (cb_end b + 1) AND CIRC_BUFF_MASK\<rparr>)"
proof -
  have ok: "length (cbuffer b) = 256" "unat (cb_start b) < 256" "unat (cb_end b) < 256"
    using assms(1) by (auto simp: ir_ok_def)
  have e: "unat ((cb_end b + 1) AND CIRC_BUFF_MASK) = (if unat (cb_end b) = 255 then 0 else Suc (unat (cb_end b)))"
    using unat_masked_Suc [OF ok(3)] ok(3) by (auto simp: mod_circ)
  show ok': "ir_ok ?b" using ok e by (simp add: ir_ok_def)
  have c: "ir_count ?b = Suc (ir_count b)"
    using assms(2) e ok(2,3) unfolding ir_count_eq [OF ok'] ir_count_eq [OF assms(1)] by (auto split: if_splits)
  have end': "unat (cb_end b) = (unat (cb_start b) + ir_count b) mod 256"
    using ok(2,3) unfolding ir_count_eq [OF assms(1)] by (subst mod_circ) auto
  have other: "unat (cb_end b) \<noteq> (unat (cb_start b) + i) mod 256" if "i < ir_count b" for i
    using that ok(2,3) assms(2) unfolding ir_count_eq [OF assms(1)] by (subst mod_circ) (auto split: if_splits)
  show "entries ?b = entries b @ [v]"
    unfolding entries_def circ_def c using ok other end' [symmetric] by (simp add: nth_list_update_neq)
qed

lemma ir_count_full:
  assumes "ir_ok b" shows "(cb_end b + 1) AND CIRC_BUFF_MASK = cb_start b \<longleftrightarrow> ir_count b = 255"
proof -
  have ok: "unat (cb_start b) < 256" "unat (cb_end b) < 256" using assms(1) by (auto simp: ir_ok_def)
  have "unat ((cb_end b + 1) AND CIRC_BUFF_MASK) = (if unat (cb_end b) = 255 then 0 else Suc (unat (cb_end b)))"
    using unat_masked_Suc [OF ok(2)] ok(2) by (auto simp: mod_circ)
  then show ?thesis using ok unfolding unat_eq_iff ir_count_eq [OF assms] by (auto split: if_splits)
qed

text \<open>
  Storing a pulse keeps the buffer indices in range and appends the pulse; when 255 pulses wait,
  the oldest one makes room.
\<close>

lemma store_ircbuffer_entries:
  assumes "ir_ok b"
  shows "\<exists>b'. store_ircbuffer len hl b = Some b' \<and> ir_ok b' \<and>
    entries b' = (if ir_count b = 255 then tl (entries b) else entries b) @ [(len AND 0x7fffffff) OR push_bit 31 hl]"
proof -
  define v where "v = (len AND 0x7fffffff) OR push_bit 31 hl"
  let ?b = "\<lambda>b. b\<lparr>cbuffer := (cbuffer b)[unat (cb_end b) := v], cb_end := (cb_end b + 1) AND CIRC_BUFF_MASK\<rparr>"
  have ok: "length (cbuffer b) = 256" "unat (cb_start b) < 256" "unat (cb_end b) < 256"
    using assms(1) by (auto simp: ir_ok_def)
  show ?thesis
  proof (cases "ir_count b = 255")
    case False
    then have "ir_count b < 255" using ir_count_less [of b] by linarith
    note st = store_appends [OF assms this, of v]
    have "store_ircbuffer len hl b = Some (?b b)"
      using ok False ir_count_full [OF assms] by (simp add: store_ircbuffer_def v_def)
    then show ?thesis using st False by (simp add: v_def)
  next
    case True
    have c: "ir_count b \<noteq> 0" using True by simp
    note a = entries_Cons [OF assms c]
    have "ir_count (advance b) < 255" using a(4) True by simp
    note st = store_appends [OF a(2) this, of v]
    have "store_ircbuffer len hl b = Some (?b (advance b))"
      using ok True ir_count_full [OF assms] by (simp add: store_ircbuffer_def v_def advance_def Let_def)
    then show ?thesis using st a(3) True by (simp add: v_def)
  qed
qed

lemma rc5_loop_total:
  "ir_ok b \<Longrightarrow> ir_count b < n \<Longrightarrow> \<exists>c h b' s'. rc5_loop n ms rcv hold b s = Some (c, h, b', s') \<and> ir_ok b'"
proof (induction n arbitrary: rcv hold b s)
  case (Suc n)
  show ?case
  proof (cases "cb_start b \<noteq> cb_end b \<and> rcv = NO_CODE")
    case True
    then have "ir_count b \<noteq> 0" using not_empty_iff [OF Suc.prems(1)] by simp
    note a = entries_Cons [OF Suc.prems(1) this]
    have ih: "\<exists>c h b' s'. rc5_loop n ms rcv hold (advance b) s = Some (c, h, b', s') \<and> ir_ok b'" for rcv hold s
      using Suc.IH [OF a(2)] a(4) Suc.prems(2) \<open>ir_count b \<noteq> 0\<close> by simp
    show ?thesis
      using True ih a(1) Suc.prems(1) by (auto simp: Let_def split: rc5_verdict.split prod.split)
  qed (use Suc.prems in auto)
qed simp

lemma xmp_loop_total:
  "ir_ok b \<Longrightarrow> ir_count b < n \<Longrightarrow> \<exists>c h b' s'. xmp_loop n rcv hold b s = Some (c, h, b', s') \<and> ir_ok b'"
proof (induction n arbitrary: rcv hold b s)
  case (Suc n)
  show ?case
  proof (cases "two_entries b \<and> rcv = NO_CODE")
    case True
    then have two: "2 \<le> ir_count b" using two_entries_iff [OF Suc.prems(1)] by simp
    obtain v h where e: "cur_entry b = Some v" "cur_entry (advance b) = Some h"
      "ir_ok (advance b)" "ir_ok (advance (advance b))"
      "ir_count (advance b) = ir_count b - 1" "ir_count (advance (advance b)) = ir_count b - 2"
      by (rule entries_two [OF Suc.prems(1) two])
    have "ir_count (advance b) < n" "ir_count (advance (advance b)) < n" using e(5,6) Suc.prems(2) two by auto
    note ih = Suc.IH [OF e(3) this(1)] Suc.IH [OF e(4) this(2)]
    obtain c hold' s1 where x: "xmp_pulse (level_len v) (level_len h) rcv hold s = (c, hold', s1)"
      by (cases "xmp_pulse (level_len v) (level_len h) rcv hold s")
    show ?thesis using True e(1,2) ih(1) [of rcv hold s] ih(2) [of c hold' s1] x by (cases "high_low v") simp_all
  qed (use Suc.prems in auto)
qed simp

text \<open>
  C26: with its indices in range, every protocol reader returns: 256 loop iterations are
  enough, no access leaves the pulse buffer, and the indices stay in range.
\<close>

theorem ir_readers_total:
  assumes "ir_ok b"
  shows "(\<exists>c h b' s'. read_nec clk b ns = Some (c, h, b', s') \<and> ir_ok b') \<and>
    (\<exists>c h b' s'. read_tc9012 clk b ts = Some (c, h, b', s') \<and> ir_ok b') \<and>
    (\<exists>c h b' s'. read_rc5 clk b rs = Some (c, h, b', s') \<and> ir_ok b') \<and>
    (\<exists>c h b' s'. read_xmp b xs = Some (c, h, b', s') \<and> ir_ok b')"
proof (intro conjI)
  show "\<exists>c h b' s'. read_nec clk b ns = Some (c, h, b', s') \<and> ir_ok b'"
    unfolding read_nec_def by (rule read_pd_total [OF assms])
  show "\<exists>c h b' s'. read_tc9012 clk b ts = Some (c, h, b', s') \<and> ir_ok b'"
    unfolding read_tc9012_def by (rule read_pd_total [OF assms])
  have n: "ir_count b < IR_CBUFF_LENGTH" by (simp add: IR_CBUFF_LENGTH_def)
  show "\<exists>c h b' s'. read_rc5 clk b rs = Some (c, h, b', s') \<and> ir_ok b'"
    using rc5_loop_total [OF assms n, of clk NO_CODE False rs] assms
    by (auto simp: read_rc5_def Let_def ir_ok_def)
  show "\<exists>c h b' s'. read_xmp b xs = Some (c, h, b', s') \<and> ir_ok b'"
    unfolding read_xmp_def by (rule xmp_loop_total [OF assms n])
qed

theorem ir_readers_total_witness:
  "(\<exists>c h b' s'. read_nec (\<lambda>_. 0) (filled_buf [1, 2, 3]) idle_pd = Some (c, h, b', s') \<and> ir_ok b') \<and>
    (\<exists>c h b' s'. read_tc9012 (\<lambda>_. 0) (filled_buf [1, 2, 3]) idle_pd = Some (c, h, b', s') \<and> ir_ok b') \<and>
    (\<exists>c h b' s'. read_rc5 (\<lambda>_. 0) (filled_buf [1, 2, 3]) \<lparr>rc5_iCode_Bit = 0, rc5_iCode = 0, prev_code = 0,
        iPrev_Data = 0, ERR_time = 0, last_bit = 0, ms_reads = 0\<rparr> = Some (c, h, b', s') \<and> ir_ok b') \<and>
    (\<exists>c h b' s'. read_xmp (filled_buf [1, 2, 3]) \<lparr>xmp_iCode = 0, iCode_nibble = 0, xmp_iPreamble_Found = 0,
        iVendorid = 0, iChecksum = 0, xmp_iPrevCode = 0\<rparr> = Some (c, h, b', s') \<and> ir_ok b')"
  by (rule ir_readers_total) (simp add: filled_buf_ok)

lemma mod_16_push_or: "(push_bit 4 x OR y) mod 16 = y mod 16" for x y :: u32
proof -
  have "(push_bit 4 x OR y) mod 16 = take_bit 4 (push_bit 4 x OR y)" by (simp add: take_bit_eq_mod)
  also have "\<dots> = take_bit 4 y" by (simp add: take_bit_push_bit)
  finally show ?thesis by (simp add: take_bit_eq_mod)
qed

text \<open>
  the checksum of an XMP packet is not a sum: because of \<open>iChecksum = + iCode\<close> the eighth
  nibble alone decides, and the packet is accepted exactly when this nibble is a multiple of
  16, whatever the other seven are.
\<close>

lemma xmp_checksum_is_last_nibble:
  assumes "XMP_HEADER_MIN_HIGH_TIME < sint (low + high)" and "sint (low + high) < XMP_HEADER_MAX_HIGH_TIME"
    and "xmp_iPreamble_Found s \<noteq> 0" and "iCode_nibble s = 7"
    and "push_bit 4 (iVendorid s) OR of_int (xmp_nibble high) \<noteq> VENDOR_ID_XFINITY"
  shows "fst (xmp_pulse low high NO_CODE hold s) =
    (if (of_int (xmp_nibble high) :: u32) mod 16 = 0 then push_bit 4 (xmp_iCode s) OR of_int (xmp_nibble high) else NO_CODE)"
  using assms by (simp add: xmp_pulse_def Let_def mod_16_push_or del: push_bit_numeral)

end
