(* ===== verification/Sm_Power.thy ===== *)
theory Sm_Power
  imports Boot_Prelude
begin

text \<open>
  The power-state machine of the system manager:
  \<^verbatim>\<open>src/boot/bootloader/sm_cm3/syna/src/power/sm_power_flow.c\<close> with the operations it
  drives (\<^verbatim>\<open>sm_power_op.c\<close>, \<^verbatim>\<open>sm_power_timer.c\<close>, \<^verbatim>\<open>sm_power_misc.c\<close>, the handlers of
  \<^verbatim>\<open>sm_power_eth.c\<close>, \<^verbatim>\<open>sm_power_wol.c\<close> and \<^verbatim>\<open>sm_power_uart.c\<close>) and \<^verbatim>\<open>sm_state.c\<close>.

  The static variables of these files are one record.  The level of the SoC's power and
  reset lines is part of it; the messages the code sends are recorded in the order of the
  calls.  The millisecond clock is a parameter: \<open>tm n\<close> is its \<open>n\<close>-th reading.  The firmware
  is cooperative, and the model runs each task iteration, message handler and timer callback
  as one step; the delays of \<open>soc_assert\<close> and \<open>soc_deassert\<close>, at which FreeRTOS may switch to
  another task, are inside a step.
\<close>

section \<open>State\<close>

datatype SM_POWER_FLOW =
    FLOW_ACTIVE_2_LOWPOWERSTANDBY | FLOW_ACTIVE_2_NORMALSTANDBY | FLOW_ACTIVE_2_SUSPEND
  | FLOW_LOWPOWERSTANDBY_2_ACTIVE | FLOW_NORMALSTANDBY_2_ACTIVE | FLOW_SUSPEND_2_ACTIVE
  | FLOW_SYSRESET_2_LOWPOWERSTANDBY | FLOW_SYSRESET_2_NORMALSTANDBY | FLOW_SYSRESET_2_ACTIVE
  | FLOW_COLD_2_LOWPOWERSTANDBY | FLOW_IDLE

datatype POWER_STATUS =
    STA_ENTERFLOW | STA_POWERON | STA_POWEROFF | STA_POWEROK | STA_ASSERT | STA_DEASSERT
  | STA_WAITRSP | STA_LEAVEFLOW | STA_INVALID

datatype MV_SM_STATE =
    MV_SM_STATE_ACTIVE | MV_SM_STATE_LOWPOWERSTANDBY | MV_SM_STATE_NORMALSTANDBY | MV_SM_STATE_SUSPEND
  | MV_SM_STATE_ACTIVE_2_LOWPOWERSTANDBY | MV_SM_STATE_ACTIVE_2_NORMALSTANDBY | MV_SM_STATE_ACTIVE_2_SUSPEND
  | MV_SM_STATE_STANDBY_2_ACTIVE | MV_SM_STATE_COLD

text \<open>Calls that leave the power module.\<close>

datatype power_call =
    Broadcast SM_POWER_FLOW POWER_STATUS
  | Send_Msg int "u32 list"
  | Irq_2_Soc bool
  | Ir_Int_Enable
  | Wol_Int bool
  | Wdt1_Clear_Int
  | Reboot_Reason u32

text \<open>Values written to the boot status register, and message codes.\<close>

definition MV_SOC_STATE_POWERON :: u32 where "MV_SOC_STATE_POWERON = 0"
definition MV_SOC_STATE_ACTIVE_2_NORMALSTANDBY :: u32 where "MV_SOC_STATE_ACTIVE_2_NORMALSTANDBY = 4"
definition MV_SOC_STATE_ACTIVE_2_SUSPEND :: u32 where "MV_SOC_STATE_ACTIVE_2_SUSPEND = 0xA0"
definition MV_SOC_STATE_SUSPEND_REQUEST :: u32 where "MV_SOC_STATE_SUSPEND_REQUEST = 0xA1"
definition MV_SOC_STATE_SYSRESET_2_ACTIVE :: u32 where "MV_SOC_STATE_SYSRESET_2_ACTIVE = 0xFF"
definition MV_SOC_STATE_SYSRESET_2_LOWPOWERSTANDBY :: u32 where "MV_SOC_STATE_SYSRESET_2_LOWPOWERSTANDBY = 0x21"
definition MV_SOC_STATE_SYSRESET_2_NORMALSTANDBY :: u32 where "MV_SOC_STATE_SYSRESET_2_NORMALSTANDBY = 0x22"
definition MV_SOC_STATE_LOWPOWERSTANDBY_2_ACTIVE :: u32 where "MV_SOC_STATE_LOWPOWERSTANDBY_2_ACTIVE = 7"
definition MV_SOC_STATE_SUSPEND_2_ACTIVE :: u32 where "MV_SOC_STATE_SUSPEND_2_ACTIVE = 6"

definition MV_SM_POWER_SUSPEND_TYPE_WFI :: int where "MV_SM_POWER_SUSPEND_TYPE_WFI = 0x0F1"
definition MV_SM_POWER_SUSPEND_TYPE_PWROFF :: int where "MV_SM_POWER_SUSPEND_TYPE_PWROFF = 0x0FF"
definition MV_SM_POWER_LOWPOWERSTANDBY_REQUEST :: int where "MV_SM_POWER_LOWPOWERSTANDBY_REQUEST = 0x10"
definition MV_SM_POWER_NORMALSTANDBY_REQUEST :: int where "MV_SM_POWER_NORMALSTANDBY_REQUEST = 0x11"
definition MV_SM_POWER_STANDBY_REQUEST :: int where "MV_SM_POWER_STANDBY_REQUEST = 1"
definition MV_SM_POWER_SUSPEND_REQUEST :: int where "MV_SM_POWER_SUSPEND_REQUEST = 2"
definition MV_SM_POWER_SYS_RESET :: int where "MV_SM_POWER_SYS_RESET = 0xFF"
definition MV_SM_POWER_WAKEUP_SOURCE_REQUEST :: int where "MV_SM_POWER_WAKEUP_SOURCE_REQUEST = 3"
definition MV_SM_POWER_WARMDOWN_TIME :: int where "MV_SM_POWER_WARMDOWN_TIME = 11"
definition MV_SM_POWER_WARMUP_TIME :: int where "MV_SM_POWER_WARMUP_TIME = 12"
definition MV_SM_POWER_WARMUP_TIME_REQUEST :: int where "MV_SM_POWER_WARMUP_TIME_REQUEST = 13"
definition MV_SM_POWER_CURR_TIME_REQUEST :: int where "MV_SM_POWER_CURR_TIME_REQUEST = 19"
definition MV_SM_POWER_BOOTUP_FLAG_REQUEST :: int where "MV_SM_POWER_BOOTUP_FLAG_REQUEST = 0xDD"
definition MV_SM_POWER_FASTBOOT_ENABLE :: int where "MV_SM_POWER_FASTBOOT_ENABLE = 0x0F"
definition MV_SM_POWER_FASTBOOT_DISABLE :: int where "MV_SM_POWER_FASTBOOT_DISABLE = 0x0E"
definition MV_SM_IR_Linuxready :: int where "MV_SM_IR_Linuxready = 30"
definition MV_SoC_STATE_COLDBOOT :: int where "MV_SoC_STATE_COLDBOOT = 0x21"
definition MV_SoC_STATE_SYSPOWERON :: int where "MV_SoC_STATE_SYSPOWERON = 0"
definition MV_SM_ACTIVE_2_SUSPEND_RESP :: int where "MV_SM_ACTIVE_2_SUSPEND_RESP = 0xA0"
definition MV_SM_COLD_2_ACTIVE_RESP :: int where "MV_SM_COLD_2_ACTIVE_RESP = 2"
definition MV_SM_LOWPOWERSTANDBY_2_ACTIVE_RESP :: int where "MV_SM_LOWPOWERSTANDBY_2_ACTIVE_RESP = 0x10"
definition MV_SM_NORMALSTANDBY_2_ACTIVE_RESP :: int where "MV_SM_NORMALSTANDBY_2_ACTIVE_RESP = 7"
definition MV_SM_SUSPEND_2_ACTIVE_RESP :: int where "MV_SM_SUSPEND_2_ACTIVE_RESP = 6"

definition MV_SM_WAKEUP_SOURCE_INVALID :: int where "MV_SM_WAKEUP_SOURCE_INVALID = -1"
definition MV_SM_WAKEUP_SOURCE_IR :: int where "MV_SM_WAKEUP_SOURCE_IR = 0"
definition MV_SM_WAKEUP_SOURCE_WIFI :: int where "MV_SM_WAKEUP_SOURCE_WIFI = 1"
definition MV_SM_WAKEUP_SOURCE_WOL :: int where "MV_SM_WAKEUP_SOURCE_WOL = 2"
definition MV_SM_WAKEUP_SOURCE_TIMER :: int where "MV_SM_WAKEUP_SOURCE_TIMER = 5"
definition MV_SM_WAKEUP_SOURCE_BUTTON :: int where "MV_SM_WAKEUP_SOURCE_BUTTON = 6"
definition MV_SM_WAKEUP_SOURCE_BT :: int where "MV_SM_WAKEUP_SOURCE_BT = 7"

definition MV_SM_ID_IR :: int where "MV_SM_ID_IR = 3"
definition MV_SM_ID_POWER :: int where "MV_SM_ID_POWER = 5"

definition REBOOT :: u32 where "REBOOT = 2"
definition POWEROFF2POWERON :: int where "POWEROFF2POWERON = 300"
definition POWERON2OKTIME :: int where "POWERON2OKTIME = 60"
definition ASSERT2DEASSERTTIME :: int where "ASSERT2DEASSERTTIME = 100"

text \<open>A soft timer of \<open>sm_power_timer.c\<close>: handle, enable flag, begin and interval.\<close>

record soft_timer =
  tm_handle :: bool
  timer_enable :: bool
  timer_begin :: u32
  timer_interval :: u32

record sm_power =
  power_mystatus :: POWER_STATUS
  power_myflow :: SM_POWER_FLOW
  power_lasttime :: u32
  is_get_rsp :: bool
  is_linux_ready :: bool
  standby_type :: int
  suspend_type :: int
  linux_resume_addr :: u32
  wakeup_source :: int
  wakeup_payload :: "u32 list"
  bRequest_Poweron :: bool
  bFastboot :: bool
  is_wakeup :: bool
  geth_wakeup :: bool
  fpbutton_wakeup :: bool
  wol_int_type :: u8
  is_appwdt_enable :: bool
  sys_state :: MV_SM_STATE
  boot_flag :: u32
  wmup :: soft_timer
  wmdn :: soft_timer
  soc_on :: bool
  soc_in_reset :: bool
  periph_in_reset :: bool
  tm_reads :: nat
  calls :: "power_call list"

definition call :: "power_call \<Rightarrow> sm_power \<Rightarrow> sm_power" where
  "call c s = s\<lparr>calls := calls s @ [c]\<rparr>"

definition gettimems :: "(nat \<Rightarrow> u32) \<Rightarrow> sm_power \<Rightarrow> u32 \<times> sm_power" where
  "gettimems tm s = (tm (tm_reads s), s\<lparr>tm_reads := Suc (tm_reads s)\<rparr>)"

subsection \<open>\<open>sm_state.c\<close>\<close>

definition mv_sm_set_state :: "MV_SM_STATE \<Rightarrow> sm_power \<Rightarrow> sm_power" where
  "mv_sm_set_state st s = s\<lparr>sys_state := st\<rparr>"

definition mv_sm_get_state :: "sm_power \<Rightarrow> MV_SM_STATE" where
  "mv_sm_get_state s = sys_state s"

definition mv_sm_set_boot_flag :: "u32 \<Rightarrow> sm_power \<Rightarrow> sm_power" where
  "mv_sm_set_boot_flag v s = s\<lparr>boot_flag := v\<rparr>"

definition mv_sm_get_boot_flag :: "sm_power \<Rightarrow> u32" where
  "mv_sm_get_boot_flag s = boot_flag s"

subsection \<open>\<open>sm_power_op.c\<close>\<close>

definition soc_assert :: "sm_power \<Rightarrow> sm_power" where
  "soc_assert s = s\<lparr>soc_in_reset := True\<rparr>"

definition soc_deassert :: "sm_power \<Rightarrow> sm_power" where
  "soc_deassert s = s\<lparr>soc_in_reset := False\<rparr>"

definition peripheral_assert :: "sm_power \<Rightarrow> sm_power" where
  "peripheral_assert s = s\<lparr>periph_in_reset := True\<rparr>"

definition peripheral_deassert :: "sm_power \<Rightarrow> sm_power" where
  "peripheral_deassert s = s\<lparr>periph_in_reset := False\<rparr>"

definition mv_sm_power_socpoweron :: "sm_power \<Rightarrow> sm_power" where
  "mv_sm_power_socpoweron s = s\<lparr>soc_on := True\<rparr>"

definition mv_sm_power_socpoweroff :: "sm_power \<Rightarrow> sm_power" where
  "mv_sm_power_socpoweroff s = call Ir_Int_Enable ((peripheral_assert (soc_assert s))\<lparr>soc_on := False\<rparr>)"

definition mv_sm_power_soc_power_status :: "sm_power \<Rightarrow> bool" where
  "mv_sm_power_soc_power_status s = True"

section \<open>Flows\<close>

definition waittime :: "(nat \<Rightarrow> u32) \<Rightarrow> int \<Rightarrow> sm_power \<Rightarrow> bool \<times> sm_power" where
  "waittime tm interval s =
     (case gettimems tm s of (cur, s1) \<Rightarrow>
        if of_int interval \<le> cur - power_lasttime s1 then (True, s1\<lparr>power_lasttime := cur\<rparr>) else (False, s1))"

definition mv_sm_get_linux_state :: "sm_power \<Rightarrow> bool" where
  "mv_sm_get_linux_state s = is_linux_ready s"

definition mv_sm_power_broadcast_power_state :: "sm_power \<Rightarrow> sm_power" where
  "mv_sm_power_broadcast_power_state s = call (Broadcast (power_myflow s) (power_mystatus s)) s"

text \<open>The boolean is \<open>S_OK\<close>.\<close>

definition mv_sm_power_enterflow :: "(nat \<Rightarrow> u32) \<Rightarrow> SM_POWER_FLOW \<Rightarrow> sm_power \<Rightarrow> bool \<times> sm_power" where
  "mv_sm_power_enterflow tm flow s =
     (if power_myflow s \<noteq> FLOW_IDLE \<or> power_mystatus s \<noteq> STA_INVALID then (False, s)
      else case gettimems tm (s\<lparr>is_linux_ready := False, power_mystatus := STA_ENTERFLOW, power_myflow := flow\<rparr>) of
        (cur, s1) \<Rightarrow> (True, s1\<lparr>power_lasttime := cur\<rparr>))"

definition mv_sm_power_enterflow_bysmstate :: "(nat \<Rightarrow> u32) \<Rightarrow> sm_power \<Rightarrow> bool \<times> sm_power" where
  "mv_sm_power_enterflow_bysmstate tm s =
     mv_sm_power_enterflow tm
       (case mv_sm_get_state s of
          MV_SM_STATE_LOWPOWERSTANDBY \<Rightarrow> FLOW_LOWPOWERSTANDBY_2_ACTIVE
        | MV_SM_STATE_NORMALSTANDBY \<Rightarrow> FLOW_NORMALSTANDBY_2_ACTIVE
        | MV_SM_STATE_SUSPEND \<Rightarrow> FLOW_SUSPEND_2_ACTIVE
        | _ \<Rightarrow> FLOW_IDLE) s"

definition mv_sm_power_leaveflow :: "sm_power \<Rightarrow> sm_power" where
  "mv_sm_power_leaveflow s =
     (mv_sm_power_broadcast_power_state s)\<lparr>power_mystatus := STA_INVALID, power_myflow := FLOW_IDLE\<rparr>"

definition mv_sm_power_soc_poweron_2_powerok :: "(nat \<Rightarrow> u32) \<Rightarrow> sm_power \<Rightarrow> sm_power" where
  "mv_sm_power_soc_poweron_2_powerok tm s =
     (case power_mystatus s of
        STA_POWERON \<Rightarrow>
          (case waittime tm POWEROFF2POWERON s of (True, s1) \<Rightarrow>
             (mv_sm_power_socpoweron (mv_sm_power_broadcast_power_state s1))\<lparr>power_mystatus := STA_POWEROK\<rparr>
           | (False, s1) \<Rightarrow> s1)
      | STA_POWEROK \<Rightarrow>
          (case waittime tm POWERON2OKTIME s of (True, s1) \<Rightarrow>
             if \<not> mv_sm_power_soc_power_status s1
             then (case gettimems tm s1 of (cur, s2) \<Rightarrow> s2\<lparr>power_lasttime := cur\<rparr>)
             else (soc_deassert (mv_sm_power_broadcast_power_state s1))\<lparr>power_mystatus := STA_WAITRSP\<rparr>
           | (False, s1) \<Rightarrow> s1)
      | _ \<Rightarrow> s)"

definition mv_sm_power_soc_assert_2_deassert :: "(nat \<Rightarrow> u32) \<Rightarrow> sm_power \<Rightarrow> bool \<times> sm_power" where
  "mv_sm_power_soc_assert_2_deassert tm s =
     (case power_mystatus s of
        STA_ASSERT \<Rightarrow>
          (False, (soc_assert (peripheral_assert (mv_sm_power_broadcast_power_state s)))\<lparr>power_mystatus := STA_DEASSERT\<rparr>)
      | STA_DEASSERT \<Rightarrow>
          (case waittime tm ASSERT2DEASSERTTIME s of (True, s1) \<Rightarrow>
             (False, (mv_sm_power_broadcast_power_state (peripheral_deassert s1))\<lparr>power_mystatus := STA_POWERON\<rparr>)
           | (False, s1) \<Rightarrow> (False, s1))
      | STA_WAITRSP \<Rightarrow> if is_get_rsp s then (True, s\<lparr>is_get_rsp := False\<rparr>) else (False, s)
      | _ \<Rightarrow> (False, s))"

text \<open>Warm down: \<open>flow\<close> is the current flow, so the mismatch test of the source never fires.\<close>

definition mv_sm_power_flow_warmdown :: "(nat \<Rightarrow> u32) \<Rightarrow> SM_POWER_FLOW \<Rightarrow> sm_power \<Rightarrow> sm_power" where
  "mv_sm_power_flow_warmdown tm flow s =
     (if flow \<noteq> power_myflow s then s\<lparr>power_myflow := FLOW_IDLE\<rparr>
      else case power_mystatus s of
        STA_ENTERFLOW \<Rightarrow>
          (let s1 = mv_sm_power_broadcast_power_state ((call (Irq_2_Soc False) s)\<lparr>geth_wakeup := False, fpbutton_wakeup := False\<rparr>) in
           case flow of
             FLOW_ACTIVE_2_LOWPOWERSTANDBY \<Rightarrow>
               (mv_sm_set_boot_flag MV_SOC_STATE_ACTIVE_2_NORMALSTANDBY
                 (mv_sm_set_state MV_SM_STATE_ACTIVE_2_LOWPOWERSTANDBY s1))\<lparr>power_mystatus := STA_POWEROFF\<rparr>
           | FLOW_ACTIVE_2_NORMALSTANDBY \<Rightarrow>
               (mv_sm_set_boot_flag MV_SOC_STATE_ACTIVE_2_NORMALSTANDBY
                 (mv_sm_set_state MV_SM_STATE_ACTIVE_2_NORMALSTANDBY s1))\<lparr>power_mystatus := STA_POWEROFF\<rparr>
           | FLOW_ACTIVE_2_SUSPEND \<Rightarrow>
               (mv_sm_set_boot_flag MV_SOC_STATE_SUSPEND_REQUEST
                 (mv_sm_set_state MV_SM_STATE_ACTIVE_2_SUSPEND s1))
                 \<lparr>power_mystatus := (if suspend_type s1 = MV_SM_POWER_SUSPEND_TYPE_WFI then STA_LEAVEFLOW else STA_WAITRSP)\<rparr>
           | _ \<Rightarrow> s1)
      | STA_POWEROFF \<Rightarrow> (mv_sm_power_socpoweroff s)\<lparr>power_mystatus := STA_LEAVEFLOW\<rparr>
      | STA_LEAVEFLOW \<Rightarrow>
          mv_sm_power_leaveflow
            (case power_myflow s of
               FLOW_ACTIVE_2_LOWPOWERSTANDBY \<Rightarrow> mv_sm_set_state MV_SM_STATE_LOWPOWERSTANDBY s
             | FLOW_ACTIVE_2_NORMALSTANDBY \<Rightarrow> mv_sm_set_state MV_SM_STATE_NORMALSTANDBY s
             | FLOW_ACTIVE_2_SUSPEND \<Rightarrow> mv_sm_set_state MV_SM_STATE_SUSPEND s
             | _ \<Rightarrow> s)
      | st \<Rightarrow>
          if st = STA_ASSERT \<or> st = STA_DEASSERT \<or> st = STA_WAITRSP
          then (case mv_sm_power_soc_assert_2_deassert tm s of (ok, s1) \<Rightarrow>
                  if ok then s1\<lparr>power_mystatus := STA_POWEROFF\<rparr> else s1)
          else s)"

definition mv_sm_power_setwakeupsource :: "int \<Rightarrow> sm_power \<Rightarrow> sm_power" where
  "mv_sm_power_setwakeupsource ws s = s\<lparr>wakeup_source := ws\<rparr>"

definition mv_sm_power_setwakeuppayload :: "u32 \<Rightarrow> sm_power \<Rightarrow> sm_power" where
  "mv_sm_power_setwakeuppayload v s = s\<lparr>wakeup_payload := (wakeup_payload s)[0 := v]\<rparr>"

definition mv_sm_power_flow_colddown :: "(nat \<Rightarrow> u32) \<Rightarrow> SM_POWER_FLOW \<Rightarrow> sm_power \<Rightarrow> sm_power" where
  "mv_sm_power_flow_colddown tm flow s =
     (if flow \<noteq> power_myflow s then s\<lparr>power_myflow := FLOW_IDLE\<rparr>
      else case power_mystatus s of
        STA_ENTERFLOW \<Rightarrow> (mv_sm_power_broadcast_power_state s)\<lparr>power_mystatus := STA_POWEROFF\<rparr>
      | STA_POWEROFF \<Rightarrow> (mv_sm_power_socpoweroff s)\<lparr>power_mystatus := STA_LEAVEFLOW\<rparr>
      | STA_LEAVEFLOW \<Rightarrow>
          (let s1 = mv_sm_power_leaveflow (mv_sm_set_state MV_SM_STATE_LOWPOWERSTANDBY s) in
           if bRequest_Poweron s1
           then (snd (mv_sm_power_enterflow_bysmstate tm
                   (mv_sm_power_setwakeupsource MV_SM_WAKEUP_SOURCE_INVALID s1)))\<lparr>bRequest_Poweron := False\<rparr>
           else s1)
      | _ \<Rightarrow> s)"

definition mv_sm_trigger_irq_2_soc :: "sm_power \<Rightarrow> sm_power" where
  "mv_sm_trigger_irq_2_soc s = call (Irq_2_Soc True) s"

definition mv_sm_power_flow_warmup :: "(nat \<Rightarrow> u32) \<Rightarrow> SM_POWER_FLOW \<Rightarrow> sm_power \<Rightarrow> sm_power" where
  "mv_sm_power_flow_warmup tm flow s =
     (if flow \<noteq> power_myflow s then s\<lparr>power_myflow := FLOW_IDLE\<rparr>
      else case power_mystatus s of
        STA_ENTERFLOW \<Rightarrow>
          (let s1 = (mv_sm_set_state MV_SM_STATE_STANDBY_2_ACTIVE (mv_sm_power_broadcast_power_state s))\<lparr>power_mystatus := STA_ASSERT\<rparr> in
           case flow of
             FLOW_LOWPOWERSTANDBY_2_ACTIVE \<Rightarrow> mv_sm_set_boot_flag MV_SOC_STATE_LOWPOWERSTANDBY_2_ACTIVE s1
           | FLOW_NORMALSTANDBY_2_ACTIVE \<Rightarrow> mv_sm_set_boot_flag MV_SOC_STATE_LOWPOWERSTANDBY_2_ACTIVE s1
           | FLOW_SUSPEND_2_ACTIVE \<Rightarrow> mv_sm_set_boot_flag MV_SOC_STATE_SUSPEND_2_ACTIVE s1
           | _ \<Rightarrow> s1)
      | STA_POWERON \<Rightarrow>
          if mv_sm_get_boot_flag s = MV_SOC_STATE_SUSPEND_2_ACTIVE \<and> suspend_type s = MV_SM_POWER_SUSPEND_TYPE_WFI
          then (mv_sm_trigger_irq_2_soc (s\<lparr>is_get_rsp := False\<rparr>))\<lparr>power_mystatus := STA_LEAVEFLOW\<rparr>
          else mv_sm_power_soc_poweron_2_powerok tm s
      | STA_POWEROK \<Rightarrow> mv_sm_power_soc_poweron_2_powerok tm s
      | STA_ASSERT \<Rightarrow> s\<lparr>power_mystatus := STA_DEASSERT\<rparr>
      | STA_LEAVEFLOW \<Rightarrow>
          mv_sm_power_leaveflow (mv_sm_set_boot_flag MV_SOC_STATE_POWERON (mv_sm_set_state MV_SM_STATE_ACTIVE s))
      | st \<Rightarrow>
          if st = STA_DEASSERT \<or> st = STA_WAITRSP
          then (case mv_sm_power_soc_assert_2_deassert tm s of (ok, s1) \<Rightarrow>
                  if ok then s1\<lparr>power_mystatus := STA_LEAVEFLOW\<rparr> else s1)
          else s)"

definition mv_sm_power_flow_sysreset :: "(nat \<Rightarrow> u32) \<Rightarrow> SM_POWER_FLOW \<Rightarrow> sm_power \<Rightarrow> sm_power" where
  "mv_sm_power_flow_sysreset tm flow s =
     (if flow \<noteq> power_myflow s then s\<lparr>power_myflow := FLOW_IDLE\<rparr>
      else
        let s = mv_sm_power_broadcast_power_state s in
        case power_mystatus s of
          STA_ENTERFLOW \<Rightarrow>
            (let s1 = s\<lparr>power_mystatus := STA_ASSERT\<rparr> in
             case flow of
               FLOW_SYSRESET_2_ACTIVE \<Rightarrow> mv_sm_set_boot_flag MV_SOC_STATE_SYSRESET_2_ACTIVE s1
             | FLOW_SYSRESET_2_LOWPOWERSTANDBY \<Rightarrow> mv_sm_set_boot_flag MV_SOC_STATE_SYSRESET_2_LOWPOWERSTANDBY s1
             | FLOW_SYSRESET_2_NORMALSTANDBY \<Rightarrow> mv_sm_set_boot_flag MV_SOC_STATE_SYSRESET_2_NORMALSTANDBY s1
             | _ \<Rightarrow> s1)
        | STA_POWEROFF \<Rightarrow>
            (case gettimems tm (mv_sm_power_socpoweroff (mv_sm_power_broadcast_power_state s)) of (cur, s1) \<Rightarrow>
               s1\<lparr>power_lasttime := cur, power_mystatus := STA_DEASSERT\<rparr>)
        | STA_ASSERT \<Rightarrow>
            (case gettimems tm (soc_assert s) of (cur, s1) \<Rightarrow>
               s1\<lparr>power_lasttime := cur, power_mystatus := STA_DEASSERT\<rparr>)
        | STA_WAITRSP \<Rightarrow>
            (case mv_sm_power_soc_assert_2_deassert tm s of (ok, s1) \<Rightarrow>
               if ok then s1\<lparr>power_mystatus := STA_LEAVEFLOW\<rparr> else s1)
        | STA_DEASSERT \<Rightarrow> snd (mv_sm_power_soc_assert_2_deassert tm s)
        | STA_LEAVEFLOW \<Rightarrow> mv_sm_power_leaveflow s
        | st \<Rightarrow>
            if st = STA_POWERON \<or> st = STA_POWEROK then mv_sm_power_soc_poweron_2_powerok tm s else s)"

definition eth_wifibt_wakeup_handler :: "(nat \<Rightarrow> u32) \<Rightarrow> sm_power \<Rightarrow> sm_power" where
  "eth_wifibt_wakeup_handler tm s =
     (let s1 = (if is_wakeup s then (snd (mv_sm_power_enterflow_bysmstate tm s))\<lparr>is_wakeup := False\<rparr> else s) in
      if geth_wakeup s1
      then (snd (mv_sm_power_enterflow_bysmstate tm
              (mv_sm_power_setwakeupsource MV_SM_WAKEUP_SOURCE_WOL s1)))\<lparr>geth_wakeup := False\<rparr>
      else s1)"

definition fpbutton_wakeup_handler :: "(nat \<Rightarrow> u32) \<Rightarrow> sm_power \<Rightarrow> sm_power" where
  "fpbutton_wakeup_handler tm s =
     (if fpbutton_wakeup s
      then (snd (mv_sm_power_enterflow_bysmstate tm
              (mv_sm_power_setwakeupsource MV_SM_WAKEUP_SOURCE_BUTTON s)))\<lparr>fpbutton_wakeup := False\<rparr>
      else s)"

definition in_standby :: "MV_SM_STATE \<Rightarrow> bool" where
  "in_standby st \<longleftrightarrow> st = MV_SM_STATE_LOWPOWERSTANDBY \<or> st = MV_SM_STATE_NORMALSTANDBY \<or> st = MV_SM_STATE_SUSPEND"

definition mv_sm_power_flow_idle :: "(nat \<Rightarrow> u32) \<Rightarrow> sm_power \<Rightarrow> sm_power" where
  "mv_sm_power_flow_idle tm s =
     (if in_standby (mv_sm_get_state s) then fpbutton_wakeup_handler tm (eth_wifibt_wakeup_handler tm s) else s)"

definition mv_sm_power_task :: "(nat \<Rightarrow> u32) \<Rightarrow> sm_power \<Rightarrow> sm_power" where
  "mv_sm_power_task tm s =
     (case power_myflow s of
        FLOW_COLD_2_LOWPOWERSTANDBY \<Rightarrow> mv_sm_power_flow_colddown tm (power_myflow s) s
      | FLOW_ACTIVE_2_LOWPOWERSTANDBY \<Rightarrow> mv_sm_power_flow_warmdown tm (power_myflow s) s
      | FLOW_ACTIVE_2_NORMALSTANDBY \<Rightarrow> mv_sm_power_flow_warmdown tm (power_myflow s) s
      | FLOW_ACTIVE_2_SUSPEND \<Rightarrow> mv_sm_power_flow_warmdown tm (power_myflow s) s
      | FLOW_LOWPOWERSTANDBY_2_ACTIVE \<Rightarrow> mv_sm_power_flow_warmup tm (power_myflow s) s
      | FLOW_NORMALSTANDBY_2_ACTIVE \<Rightarrow> mv_sm_power_flow_warmup tm (power_myflow s) s
      | FLOW_SUSPEND_2_ACTIVE \<Rightarrow> mv_sm_power_flow_warmup tm (power_myflow s) s
      | FLOW_SYSRESET_2_ACTIVE \<Rightarrow> mv_sm_power_flow_sysreset tm (power_myflow s) s
      | FLOW_IDLE \<Rightarrow> mv_sm_power_flow_idle tm s
      | _ \<Rightarrow> s)"

section \<open>Timers\<close>

definition MV_IR_KEY_POWER :: u32 where "MV_IR_KEY_POWER = 0x0200"
definition MV_IR_HOLDKEY_FLAG :: u32 where "MV_IR_HOLDKEY_FLAG = push_bit 31 1"
definition MV_IR_UPKEY_FLAG :: u32 where "MV_IR_UPKEY_FLAG = push_bit 27 1"
definition MV_IR_KEY2UPKEY :: "u32 \<Rightarrow> u32" where
  "MV_IR_KEY2UPKEY key = (key AND NOT MV_IR_HOLDKEY_FLAG) OR MV_IR_UPKEY_FLAG"

definition idle_timer :: "soft_timer \<Rightarrow> soft_timer" where
  "idle_timer t = t\<lparr>timer_enable := False, timer_begin := 0, timer_interval := 0\<rparr>"

text \<open>
  The FreeRTOS calls \<open>xTimerDelete\<close> and \<open>xTimerStart\<close> may fail; whether they do is an
  argument.
\<close>

definition wakeup_timer :: "(nat \<Rightarrow> u32) \<Rightarrow> bool \<Rightarrow> sm_power \<Rightarrow> sm_power" where
  "wakeup_timer tm del_ok s =
     (let state = mv_sm_get_state s;
          s1 = snd (gettimems tm s);
          s2 = s1\<lparr>wmup := idle_timer (if del_ok then (wmup s1)\<lparr>tm_handle := False\<rparr> else wmup s1)\<rparr> in
      if state = MV_SM_STATE_ACTIVE then call (Send_Msg MV_SM_ID_POWER [0]) s2
      else snd (mv_sm_power_enterflow_bysmstate tm (mv_sm_power_setwakeupsource MV_SM_WAKEUP_SOURCE_TIMER s2)))"

text \<open>\<open>sm_setup_power_up_timer\<close> and \<open>sm_setup_power_down_timer\<close> are the same code on two timers.\<close>

definition setup_timer :: "(nat \<Rightarrow> u32) \<Rightarrow> bool \<Rightarrow> bool \<Rightarrow> int \<Rightarrow> soft_timer \<Rightarrow> sm_power \<Rightarrow> bool \<times> soft_timer \<times> sm_power" where
  "setup_timer tm del_ok start_ok msg t s =
     (if msg = 0 \<and> timer_enable t
      then if tm_handle t
           then if \<not> del_ok then (False, t, s) else (True, (idle_timer t)\<lparr>tm_handle := False\<rparr>, s)
           else (True, t, s)
      else if msg \<noteq> 0
      then if \<not> timer_enable t
           then (case gettimems tm s of (cur, s1) \<Rightarrow>
             let t1 = t\<lparr>tm_handle := True, timer_enable := True, timer_begin := cur, timer_interval := of_int (msg * 1000)\<rparr> in
             if start_ok then (True, t1, s1) else (False, idle_timer t1, s1))
           else (True, t, s)
      else (True, t, s))"

definition sm_setup_power_up_timer :: "(nat \<Rightarrow> u32) \<Rightarrow> bool \<Rightarrow> bool \<Rightarrow> int \<Rightarrow> sm_power \<Rightarrow> bool \<times> sm_power" where
  "sm_setup_power_up_timer tm del_ok start_ok msg s =
     (case setup_timer tm del_ok start_ok msg (wmup s) s of (ok, t, s1) \<Rightarrow> (ok, s1\<lparr>wmup := t\<rparr>))"

definition sm_setup_power_down_timer :: "(nat \<Rightarrow> u32) \<Rightarrow> bool \<Rightarrow> bool \<Rightarrow> int \<Rightarrow> sm_power \<Rightarrow> bool \<times> sm_power" where
  "sm_setup_power_down_timer tm del_ok start_ok msg s =
     (case setup_timer tm del_ok start_ok msg (wmdn s) s of (ok, t, s1) \<Rightarrow> (ok, s1\<lparr>wmdn := t\<rparr>))"

text \<open>C division truncates towards zero.\<close>

definition sm_get_warmup_remain_time :: "(nat \<Rightarrow> u32) \<Rightarrow> sm_power \<Rightarrow> int \<times> sm_power" where
  "sm_get_warmup_remain_time tm s =
     (case gettimems tm s of (cur, s1) \<Rightarrow>
        let r = sint (timer_interval (wmup s1) - (cur - timer_begin (wmup s1))) in
        (sgn r * (\<bar>r\<bar> div 1000), s1))"

definition powerdown_timer :: "(nat \<Rightarrow> u32) \<Rightarrow> bool \<Rightarrow> sm_power \<Rightarrow> sm_power" where
  "powerdown_timer tm del_ok s =
     (let state = mv_sm_get_state s;
          s1 = snd (gettimems tm s);
          s2 = s1\<lparr>wmdn := (if del_ok then (idle_timer (wmdn s1))\<lparr>tm_handle := False\<rparr> else idle_timer (wmdn s1))\<rparr> in
      if state = MV_SM_STATE_ACTIVE
      then call (Send_Msg MV_SM_ID_IR [MV_IR_KEY2UPKEY MV_IR_KEY_POWER])
             (call (Send_Msg MV_SM_ID_IR [MV_IR_KEY_POWER]) s2)
      else s2)"

section \<open>Wake-up sources\<close>

definition state_to_wait_wakeup :: "sm_power \<Rightarrow> bool" where
  "state_to_wait_wakeup s = in_standby (mv_sm_get_state s)"

definition sm_wifi_isr :: "sm_power \<Rightarrow> sm_power" where
  "sm_wifi_isr s = (if state_to_wait_wakeup s
     then mv_sm_power_setwakeupsource MV_SM_WAKEUP_SOURCE_WIFI (s\<lparr>is_wakeup := True\<rparr>) else s)"

definition sm_bt_isr :: "sm_power \<Rightarrow> sm_power" where
  "sm_bt_isr s = (if state_to_wait_wakeup s
     then mv_sm_power_setwakeupsource MV_SM_WAKEUP_SOURCE_BT (s\<lparr>is_wakeup := True\<rparr>) else s)"

definition sm_geth_isr :: "sm_power \<Rightarrow> sm_power" where
  "sm_geth_isr s = (if mv_sm_get_state s \<noteq> MV_SM_STATE_ACTIVE then s\<lparr>geth_wakeup := True\<rparr> else s)"

definition mv_sm_fpstby_isr :: "sm_power \<Rightarrow> sm_power" where
  "mv_sm_fpstby_isr s = (if mv_sm_get_state s \<noteq> MV_SM_STATE_ACTIVE then s\<lparr>fpbutton_wakeup := True\<rparr> else s)"

definition WOL_INT_MAGIC_PATTERN :: u8 where "WOL_INT_MAGIC_PATTERN = 0x03"
definition WOL_INT_INVALID :: u8 where "WOL_INT_INVALID = 0xFF"

definition mv_sm_wol_mp_intenable :: "bool \<Rightarrow> sm_power \<Rightarrow> sm_power" where
  "mv_sm_wol_mp_intenable en s =
     call (Wol_Int en) (s\<lparr>wol_int_type := (if en then WOL_INT_MAGIC_PATTERN else WOL_INT_INVALID)\<rparr>)"

definition mv_sm_wol_isr :: "(nat \<Rightarrow> u32) \<Rightarrow> sm_power \<Rightarrow> sm_power" where
  "mv_sm_wol_isr tm s =
     (if in_standby (mv_sm_get_state s) \<and> wol_int_type s \<noteq> WOL_INT_INVALID
      then case mv_sm_power_enterflow_bysmstate tm s of (ok, s1) \<Rightarrow>
        if ok then mv_sm_wol_mp_intenable False (mv_sm_power_setwakeupsource MV_SM_WAKEUP_SOURCE_WOL s1) else s1
      else s)"

definition sm_process_internal_wol_msg :: "SM_POWER_FLOW \<Rightarrow> POWER_STATUS \<Rightarrow> sm_power \<Rightarrow> sm_power" where
  "sm_process_internal_wol_msg flow status s =
     (if flow \<in> {FLOW_ACTIVE_2_LOWPOWERSTANDBY, FLOW_ACTIVE_2_NORMALSTANDBY, FLOW_ACTIVE_2_SUSPEND} \<and> status = STA_LEAVEFLOW
      then mv_sm_wol_mp_intenable True s else s)"

definition uart_wake_round :: "(nat \<Rightarrow> u32) \<Rightarrow> bool \<Rightarrow> sm_power \<Rightarrow> sm_power" where
  "uart_wake_round tm wake_signal s =
     (if in_standby (mv_sm_get_state s) \<and> wake_signal
      then case mv_sm_power_enterflow_bysmstate tm s of (ok, s1) \<Rightarrow>
        if ok then mv_sm_power_setwakeupsource MV_SM_WAKEUP_SOURCE_WOL s1 else s1
      else s)"

text \<open>The interrupt of the application watchdog (\<open>sm_wdt.c\<close>), and its view of the power flows.\<close>

definition sm_set_reboot_reason :: "u32 \<Rightarrow> sm_power \<Rightarrow> sm_power" where
  "sm_set_reboot_reason r s = call (Reboot_Reason r) s"

definition WATCHDOG :: u32 where "WATCHDOG = 4"

definition mv_sm_wdt_1_isr :: "(nat \<Rightarrow> u32) \<Rightarrow> sm_power \<Rightarrow> sm_power" where
  "mv_sm_wdt_1_isr tm s =
     (call Wdt1_Clear_Int (snd (mv_sm_power_enterflow tm FLOW_SYSRESET_2_ACTIVE (sm_set_reboot_reason WATCHDOG s))))
       \<lparr>is_appwdt_enable := False\<rparr>"

definition mv_sm_process_internal_wdt_msg :: "SM_POWER_FLOW \<Rightarrow> POWER_STATUS \<Rightarrow> sm_power \<Rightarrow> sm_power" where
  "mv_sm_process_internal_wdt_msg flow status s =
     (if flow \<in> {FLOW_ACTIVE_2_LOWPOWERSTANDBY, FLOW_ACTIVE_2_NORMALSTANDBY, FLOW_ACTIVE_2_SUSPEND} \<and> status = STA_LEAVEFLOW
      then s\<lparr>is_appwdt_enable := False\<rparr>
      else if flow = FLOW_SUSPEND_2_ACTIVE \<and> status = STA_LEAVEFLOW then s\<lparr>is_appwdt_enable := True\<rparr>
      else s)"

text \<open>The overheat reaction of \<open>mv_sm_temp_task\<close>.\<close>

definition overheat :: "(nat \<Rightarrow> u32) \<Rightarrow> sm_power \<Rightarrow> sm_power" where
  "overheat tm s = (if mv_sm_get_state s = MV_SM_STATE_ACTIVE
     then snd (mv_sm_power_enterflow tm FLOW_ACTIVE_2_LOWPOWERSTANDBY s) else s)"

section \<open>Messages from Linux and the boot loader\<close>

definition wakeup_info :: "sm_power \<Rightarrow> u32 list" where
  "wakeup_info s = of_int (wakeup_source s) # wakeup_payload s"

text \<open>
  The requests accepted in the active state; \<open>w\<close> is the third word of the message.  The
  answer to the time request has two words of which the code sets only the first; \<open>junk\<close>
  is what the stack holds in the second.
\<close>

definition process_active_msg :: "(nat \<Rightarrow> u32) \<Rightarrow> bool \<Rightarrow> bool \<Rightarrow> u32 \<Rightarrow> int \<Rightarrow> int \<Rightarrow> int \<Rightarrow> sm_power \<Rightarrow> sm_power" where
  "process_active_msg tm del_ok start_ok junk iMsgType iMsgContent w s =
     (if iMsgType = MV_SM_IR_Linuxready
      then let s1 = s\<lparr>is_linux_ready := True, is_wakeup := False, geth_wakeup := False, fpbutton_wakeup := False\<rparr> in
        if wakeup_source s1 = MV_SM_WAKEUP_SOURCE_TIMER then call (Send_Msg MV_SM_ID_POWER (wakeup_info s1)) s1 else s1
      else if iMsgType = MV_SM_POWER_LOWPOWERSTANDBY_REQUEST then s\<lparr>standby_type := MV_SM_POWER_LOWPOWERSTANDBY_REQUEST\<rparr>
      else if iMsgType = MV_SM_POWER_NORMALSTANDBY_REQUEST then s\<lparr>standby_type := MV_SM_POWER_NORMALSTANDBY_REQUEST\<rparr>
      else if iMsgType = MV_SM_POWER_STANDBY_REQUEST
      then snd (mv_sm_power_enterflow tm
             (if standby_type s = MV_SM_POWER_LOWPOWERSTANDBY_REQUEST
              then FLOW_ACTIVE_2_LOWPOWERSTANDBY else FLOW_ACTIVE_2_NORMALSTANDBY) s)
      else if iMsgType = MV_SM_POWER_SUSPEND_REQUEST
      then snd (mv_sm_power_enterflow tm FLOW_ACTIVE_2_SUSPEND
             (s\<lparr>linux_resume_addr := of_int iMsgContent, suspend_type := w\<rparr>))
      else if iMsgType = MV_SM_POWER_WAKEUP_SOURCE_REQUEST
      then let s1 = call (Send_Msg MV_SM_ID_POWER (wakeup_info s)) s in
        if iMsgContent \<noteq> 0 then mv_sm_power_setwakeuppayload 0 s1 else s1
      else if iMsgType = MV_SM_POWER_BOOTUP_FLAG_REQUEST
      then call (Send_Msg MV_SM_ID_POWER [mv_sm_get_boot_flag s]) s
      else if iMsgType = MV_SM_POWER_CURR_TIME_REQUEST
      then (case gettimems tm s of (cur, s1) \<Rightarrow> call (Send_Msg MV_SM_ID_POWER [cur, junk]) s1)
      else if iMsgType = MV_SM_POWER_WARMDOWN_TIME then snd (sm_setup_power_down_timer tm del_ok start_ok iMsgContent s)
      else if iMsgType = MV_SM_POWER_WARMUP_TIME_REQUEST
      then (case sm_get_warmup_remain_time tm s of (t, s1) \<Rightarrow> call (Send_Msg MV_SM_ID_POWER [of_int t]) s1)
      else if iMsgType = MV_SM_POWER_WARMUP_TIME then snd (sm_setup_power_up_timer tm del_ok start_ok iMsgContent s)
      else if iMsgType = MV_SM_POWER_SYS_RESET
      then snd (mv_sm_power_enterflow tm FLOW_SYSRESET_2_ACTIVE (sm_set_reboot_reason REBOOT s))
      else if iMsgType = MV_SM_POWER_FASTBOOT_ENABLE then s\<lparr>bFastboot := True\<rparr>
      else if iMsgType = MV_SM_POWER_FASTBOOT_DISABLE then s\<lparr>bFastboot := False\<rparr>
      else s)"

definition mv_sm_process_power_msg :: "(nat \<Rightarrow> u32) \<Rightarrow> bool \<Rightarrow> bool \<Rightarrow> u32 \<Rightarrow> int \<Rightarrow> int \<Rightarrow> int \<Rightarrow> sm_power \<Rightarrow> sm_power" where
  "mv_sm_process_power_msg tm del_ok start_ok junk iMsgType iMsgContent w s =
     (case mv_sm_get_state s of
        MV_SM_STATE_COLD \<Rightarrow>
          if iMsgType = MV_SoC_STATE_COLDBOOT then snd (mv_sm_power_enterflow tm FLOW_COLD_2_LOWPOWERSTANDBY s)
          else if iMsgType = MV_SoC_STATE_SYSPOWERON then s\<lparr>bRequest_Poweron := True\<rparr>
          else s
      | MV_SM_STATE_ACTIVE \<Rightarrow> process_active_msg tm del_ok start_ok junk iMsgType iMsgContent w s
      | MV_SM_STATE_ACTIVE_2_SUSPEND \<Rightarrow>
          if iMsgType = MV_SM_ACTIVE_2_SUSPEND_RESP
          then mv_sm_set_boot_flag MV_SOC_STATE_ACTIVE_2_SUSPEND (s\<lparr>is_get_rsp := True\<rparr>) else s
      | MV_SM_STATE_STANDBY_2_ACTIVE \<Rightarrow>
          if iMsgType = MV_SM_LOWPOWERSTANDBY_2_ACTIVE_RESP \<or> iMsgType = MV_SM_NORMALSTANDBY_2_ACTIVE_RESP \<or>
             iMsgType = MV_SM_SUSPEND_2_ACTIVE_RESP \<or> iMsgType = MV_SM_COLD_2_ACTIVE_RESP
          then s\<lparr>is_get_rsp := True\<rparr> else s
      | MV_SM_STATE_SUSPEND \<Rightarrow>
          if iMsgType = MV_SM_IR_Linuxready
          then snd (mv_sm_power_enterflow_bysmstate tm (mv_sm_power_setwakeupsource MV_SM_WAKEUP_SOURCE_INVALID s))
          else s
      | _ \<Rightarrow> s)"

end
