(* ===== verification/Sm_Power_Inv.thy ===== *)
theory Sm_Power_Inv
  imports Sm_Power
begin

text \<open>
  Reachable states of the power module: a step relation over task iterations, messages,
  timer callbacks and interrupts in any order, its invariant, the completion of a warm-up,
  and a reset flow that cannot complete.
\<close>

datatype power_event =
    Task
  | Power_Msg bool bool u32 int int int
  | Wakeup_Timer bool
  | Powerdown_Timer bool
  | Wifi_Isr | Bt_Isr | Geth_Isr | Fpstby_Isr | Wol_Isr | Uart_Wake bool | Wdt1_Isr | Overheat

fun power_step :: "(nat \<Rightarrow> u32) \<Rightarrow> power_event \<Rightarrow> sm_power \<Rightarrow> sm_power" where
  "power_step tm Task s = mv_sm_power_task tm s"
| "power_step tm (Power_Msg d st j t c w) s = mv_sm_process_power_msg tm d st j t c w s"
| "power_step tm (Wakeup_Timer d) s = wakeup_timer tm d s"
| "power_step tm (Powerdown_Timer d) s = powerdown_timer tm d s"
| "power_step tm Wifi_Isr s = sm_wifi_isr s"
| "power_step tm Bt_Isr s = sm_bt_isr s"
| "power_step tm Geth_Isr s = sm_geth_isr s"
| "power_step tm Fpstby_Isr s = mv_sm_fpstby_isr s"
| "power_step tm Wol_Isr s = mv_sm_wol_isr tm s"
| "power_step tm (Uart_Wake b) s = uart_wake_round tm b s"
| "power_step tm Wdt1_Isr s = mv_sm_wdt_1_isr tm s"
| "power_step tm Overheat s = overheat tm s"

text \<open>The static initial values, with the SoC running.\<close>

definition power_init :: "sm_power \<Rightarrow> bool" where
  "power_init s \<longleftrightarrow> power_mystatus s = STA_INVALID \<and> power_myflow s = FLOW_IDLE \<and> \<not> is_get_rsp s \<and>
     suspend_type s = MV_SM_POWER_SUSPEND_TYPE_PWROFF \<and> sys_state s = MV_SM_STATE_ACTIVE \<and>
     soc_on s \<and> \<not> soc_in_reset s"

definition power_boot :: sm_power where
  "power_boot = \<lparr>power_mystatus = STA_INVALID, power_myflow = FLOW_IDLE, power_lasttime = 0, is_get_rsp = False,
     is_linux_ready = False, standby_type = MV_SM_POWER_NORMALSTANDBY_REQUEST,
     suspend_type = MV_SM_POWER_SUSPEND_TYPE_PWROFF, linux_resume_addr = 0xFFFFFFFF,
     wakeup_source = MV_SM_WAKEUP_SOURCE_INVALID, wakeup_payload = [0, 0], bRequest_Poweron = False,
     bFastboot = False, is_wakeup = False, geth_wakeup = False, fpbutton_wakeup = False, wol_int_type = WOL_INT_INVALID,
     is_appwdt_enable = False, sys_state = MV_SM_STATE_ACTIVE, boot_flag = MV_SOC_STATE_POWERON,
     wmup = \<lparr>tm_handle = False, timer_enable = False, timer_begin = 0, timer_interval = 0\<rparr>,
     wmdn = \<lparr>tm_handle = False, timer_enable = False, timer_begin = 0, timer_interval = 0\<rparr>,
     soc_on = True, soc_in_reset = False, periph_in_reset = False, tm_reads = 0, calls = []\<rparr>"

inductive power_reach :: "(nat \<Rightarrow> u32) \<Rightarrow> sm_power \<Rightarrow> bool" for tm where
  init: "power_init s \<Longrightarrow> power_reach tm s"
| step: "power_reach tm s \<Longrightarrow> power_reach tm (power_step tm e s)"

section \<open>The invariant\<close>

text \<open>
  What holds in each stage of each flow, for the system state, the SoC's power and reset
  lines, whether the suspend type is WFI, and the boot flag.  A stage that is not listed
  is never reached.
\<close>

definition stage_ok :: "SM_POWER_FLOW \<Rightarrow> POWER_STATUS \<Rightarrow> MV_SM_STATE \<Rightarrow> bool \<Rightarrow> bool \<Rightarrow> bool \<Rightarrow> u32 \<Rightarrow> bool" where
  "stage_ok flow status sys on rst wfi bf \<longleftrightarrow> (rst \<or> on) \<and>
     (case flow of
        FLOW_IDLE \<Rightarrow> status = STA_INVALID \<and>
          (case sys of MV_SM_STATE_ACTIVE \<Rightarrow> on \<and> \<not> rst | MV_SM_STATE_SUSPEND \<Rightarrow> wfi \<longrightarrow> on \<and> \<not> rst
           | MV_SM_STATE_LOWPOWERSTANDBY \<Rightarrow> True | MV_SM_STATE_NORMALSTANDBY \<Rightarrow> True | _ \<Rightarrow> False)
      | FLOW_ACTIVE_2_LOWPOWERSTANDBY \<Rightarrow>
          (case status of STA_ENTERFLOW \<Rightarrow> sys = MV_SM_STATE_ACTIVE \<and> on \<and> \<not> rst
           | STA_POWEROFF \<Rightarrow> sys = MV_SM_STATE_ACTIVE_2_LOWPOWERSTANDBY
           | STA_LEAVEFLOW \<Rightarrow> sys = MV_SM_STATE_ACTIVE_2_LOWPOWERSTANDBY \<and> \<not> on | _ \<Rightarrow> False)
      | FLOW_ACTIVE_2_NORMALSTANDBY \<Rightarrow>
          (case status of STA_ENTERFLOW \<Rightarrow> sys = MV_SM_STATE_ACTIVE \<and> on \<and> \<not> rst
           | STA_POWEROFF \<Rightarrow> sys = MV_SM_STATE_ACTIVE_2_NORMALSTANDBY
           | STA_LEAVEFLOW \<Rightarrow> sys = MV_SM_STATE_ACTIVE_2_NORMALSTANDBY \<and> \<not> on | _ \<Rightarrow> False)
      | FLOW_ACTIVE_2_SUSPEND \<Rightarrow>
          (case status of STA_ENTERFLOW \<Rightarrow> sys = MV_SM_STATE_ACTIVE \<and> on \<and> \<not> rst
           | STA_WAITRSP \<Rightarrow> sys = MV_SM_STATE_ACTIVE_2_SUSPEND \<and> \<not> wfi
           | STA_POWEROFF \<Rightarrow> sys = MV_SM_STATE_ACTIVE_2_SUSPEND \<and> \<not> wfi
           | STA_LEAVEFLOW \<Rightarrow> sys = MV_SM_STATE_ACTIVE_2_SUSPEND \<and> (if wfi then on \<and> \<not> rst else \<not> on) | _ \<Rightarrow> False)
      | FLOW_SYSRESET_2_ACTIVE \<Rightarrow> (sys = MV_SM_STATE_ACTIVE \<or> in_standby sys) \<and>
          (case status of STA_ENTERFLOW \<Rightarrow> True | STA_ASSERT \<Rightarrow> True | STA_DEASSERT \<Rightarrow> True | STA_POWERON \<Rightarrow> True
           | STA_POWEROK \<Rightarrow> on | STA_WAITRSP \<Rightarrow> on \<and> \<not> rst | STA_LEAVEFLOW \<Rightarrow> on \<and> \<not> rst | _ \<Rightarrow> False)
      | FLOW_COLD_2_LOWPOWERSTANDBY \<Rightarrow> False
      | FLOW_SYSRESET_2_LOWPOWERSTANDBY \<Rightarrow> False
      | FLOW_SYSRESET_2_NORMALSTANDBY \<Rightarrow> False
      | warmup \<Rightarrow> (warmup = FLOW_SUSPEND_2_ACTIVE \<and> wfi \<longrightarrow> on \<and> \<not> rst) \<and>
          (case status of
             STA_ENTERFLOW \<Rightarrow> sys = (if warmup = FLOW_LOWPOWERSTANDBY_2_ACTIVE then MV_SM_STATE_LOWPOWERSTANDBY
               else if warmup = FLOW_NORMALSTANDBY_2_ACTIVE then MV_SM_STATE_NORMALSTANDBY else MV_SM_STATE_SUSPEND)
           | STA_POWEROFF \<Rightarrow> False | STA_INVALID \<Rightarrow> False
           | _ \<Rightarrow> sys = MV_SM_STATE_STANDBY_2_ACTIVE \<and>
               bf = (if warmup = FLOW_SUSPEND_2_ACTIVE then MV_SOC_STATE_SUSPEND_2_ACTIVE else MV_SOC_STATE_LOWPOWERSTANDBY_2_ACTIVE) \<and>
               (status = STA_POWEROK \<longrightarrow> on) \<and> (status = STA_WAITRSP \<or> status = STA_LEAVEFLOW \<longrightarrow> on \<and> \<not> rst)))"

definition power_inv :: "sm_power \<Rightarrow> bool" where
  "power_inv s \<longleftrightarrow> stage_ok (power_myflow s) (power_mystatus s) (sys_state s) (soc_on s) (soc_in_reset s)
     (suspend_type s = MV_SM_POWER_SUSPEND_TYPE_WFI) (boot_flag s)"

lemmas power_defs = mv_sm_power_leaveflow_def
  mv_sm_power_soc_assert_2_deassert_def mv_sm_power_soc_poweron_2_powerok_def waittime_def gettimems_def
  mv_sm_power_broadcast_power_state_def call_def mv_sm_set_state_def mv_sm_get_state_def
  mv_sm_set_boot_flag_def mv_sm_get_boot_flag_def soc_assert_def soc_deassert_def peripheral_assert_def
  peripheral_deassert_def mv_sm_power_socpoweron_def mv_sm_power_socpoweroff_def
  mv_sm_power_soc_power_status_def mv_sm_trigger_irq_2_soc_def


lemma enterflow_inv:
  assumes "power_inv s"
    and "power_myflow s = FLOW_IDLE \<Longrightarrow> power_mystatus s = STA_INVALID \<Longrightarrow>
      stage_ok flow STA_ENTERFLOW (sys_state s) (soc_on s) (soc_in_reset s)
        (suspend_type s = MV_SM_POWER_SUSPEND_TYPE_WFI) (boot_flag s)"
  shows "power_inv (snd (mv_sm_power_enterflow tm flow s))"
  using assms by (simp add: mv_sm_power_enterflow_def gettimems_def power_inv_def)

lemma idle_inv:
  assumes "power_inv s" and "power_myflow s = FLOW_IDLE"
  shows "power_mystatus s = STA_INVALID" and "sys_state s = MV_SM_STATE_ACTIVE \<or> in_standby (sys_state s)"
  using assms by (auto simp: power_inv_def stage_ok_def in_standby_def split: MV_SM_STATE.splits)

lemma enterflow_bysmstate_inv:
  assumes "power_inv s" and "power_myflow s = FLOW_IDLE \<Longrightarrow> in_standby (sys_state s)"
  shows "power_inv (snd (mv_sm_power_enterflow_bysmstate tm s))"
  unfolding mv_sm_power_enterflow_bysmstate_def mv_sm_get_state_def
proof (rule enterflow_inv [OF assms(1)])
  assume "power_myflow s = FLOW_IDLE" "power_mystatus s = STA_INVALID"
  moreover from this have "in_standby (sys_state s)" using assms(2) by simp
  ultimately show "stage_ok (case sys_state s of MV_SM_STATE_LOWPOWERSTANDBY \<Rightarrow> FLOW_LOWPOWERSTANDBY_2_ACTIVE
      | MV_SM_STATE_NORMALSTANDBY \<Rightarrow> FLOW_NORMALSTANDBY_2_ACTIVE
      | MV_SM_STATE_SUSPEND \<Rightarrow> FLOW_SUSPEND_2_ACTIVE | _ \<Rightarrow> FLOW_IDLE)
     STA_ENTERFLOW (sys_state s) (soc_on s) (soc_in_reset s) (suspend_type s = MV_SM_POWER_SUSPEND_TYPE_WFI) (boot_flag s)"
    using assms(1) by (auto simp: power_inv_def stage_ok_def in_standby_def)
qed

text \<open>The stages of each flow.\<close>

lemma warmdown_inv:
  assumes "power_inv s" and "power_myflow s \<in> {FLOW_ACTIVE_2_LOWPOWERSTANDBY, FLOW_ACTIVE_2_NORMALSTANDBY, FLOW_ACTIVE_2_SUSPEND}"
  shows "power_inv (mv_sm_power_flow_warmdown tm (power_myflow s) s)"
  using assms unfolding power_inv_def insert_iff empty_iff
  by - (elim disjE FalseE; cases "power_mystatus s"; simp add: stage_ok_def mv_sm_power_flow_warmdown_def power_defs Let_def; blast?)

lemma warmup_inv:
  assumes "power_inv s" and "power_myflow s \<in> {FLOW_LOWPOWERSTANDBY_2_ACTIVE, FLOW_NORMALSTANDBY_2_ACTIVE, FLOW_SUSPEND_2_ACTIVE}"
  shows "power_inv (mv_sm_power_flow_warmup tm (power_myflow s) s)"
  using assms unfolding power_inv_def insert_iff empty_iff
  by - (elim disjE FalseE; cases "power_mystatus s"; simp add: stage_ok_def mv_sm_power_flow_warmup_def power_defs Let_def
      MV_SOC_STATE_LOWPOWERSTANDBY_2_ACTIVE_def MV_SOC_STATE_SUSPEND_2_ACTIVE_def)

lemma sysreset_inv:
  assumes "power_inv s" and "power_myflow s = FLOW_SYSRESET_2_ACTIVE"
  shows "power_inv (mv_sm_power_flow_sysreset tm (power_myflow s) s)"
  using assms unfolding power_inv_def
  by - (cases "power_mystatus s"; simp add: stage_ok_def mv_sm_power_flow_sysreset_def power_defs Let_def;
      simp add: in_standby_def split: MV_SM_STATE.splits; auto)

text \<open>Fields outside the invariant may change freely.\<close>

lemma power_inv_frame [simp]:
  "power_inv (mv_sm_power_setwakeupsource ws s) = power_inv s"
  "power_inv (mv_sm_power_setwakeuppayload v s) = power_inv s"
  "power_inv (call c s) = power_inv s"
  "power_inv (snd (gettimems tm s)) = power_inv s"
  "power_inv (s\<lparr>is_wakeup := b\<rparr>) = power_inv s"
  "power_inv (s\<lparr>geth_wakeup := b\<rparr>) = power_inv s"
  "power_inv (s\<lparr>fpbutton_wakeup := b\<rparr>) = power_inv s"
  "power_inv (s\<lparr>is_appwdt_enable := b\<rparr>) = power_inv s"
  "power_inv (s\<lparr>wol_int_type := k\<rparr>) = power_inv s"
  "power_inv (s\<lparr>wmup := t\<rparr>) = power_inv s"
  "power_inv (s\<lparr>wmdn := t\<rparr>) = power_inv s"
  "power_inv (s\<lparr>is_get_rsp := b\<rparr>) = power_inv s"
  "power_inv (s\<lparr>is_linux_ready := b\<rparr>) = power_inv s"
  "power_inv (s\<lparr>standby_type := i\<rparr>) = power_inv s"
  "power_inv (s\<lparr>bFastboot := b\<rparr>) = power_inv s"
  "power_inv (s\<lparr>bRequest_Poweron := b\<rparr>) = power_inv s"
  "power_inv (s\<lparr>linux_resume_addr := a\<rparr>) = power_inv s"
  by (simp_all add: power_inv_def mv_sm_power_setwakeupsource_def mv_sm_power_setwakeuppayload_def call_def gettimems_def)

lemma power_fields_frame [simp]:
  "power_myflow (mv_sm_power_setwakeupsource ws s) = power_myflow s"
  "sys_state (mv_sm_power_setwakeupsource ws s) = sys_state s"
  "geth_wakeup (mv_sm_power_setwakeupsource ws s) = geth_wakeup s"
  "sys_state (snd (mv_sm_power_enterflow tm flow s)) = sys_state s"
  "sys_state (snd (mv_sm_power_enterflow_bysmstate tm s)) = sys_state s"
  "geth_wakeup (snd (mv_sm_power_enterflow_bysmstate tm s)) = geth_wakeup s"
  "sys_state (snd (gettimems tm s)) = sys_state s"
  "power_myflow (snd (gettimems tm s)) = power_myflow s"
  "sys_state (call c s) = sys_state s" "power_myflow (call c s) = power_myflow s"
  by (simp_all add: mv_sm_power_setwakeupsource_def mv_sm_power_enterflow_def mv_sm_power_enterflow_bysmstate_def
      gettimems_def call_def)

lemma eth_wifibt_wakeup_handler_inv:
  assumes "power_inv s" and "in_standby (sys_state s)"
  shows "power_inv (eth_wifibt_wakeup_handler tm s)" and "in_standby (sys_state (eth_wifibt_wakeup_handler tm s))"
  using assms by (simp_all add: eth_wifibt_wakeup_handler_def enterflow_bysmstate_inv Let_def)

lemma idle_flow_inv:
  assumes "power_inv s"
  shows "power_inv (mv_sm_power_flow_idle tm s)"
  using assms eth_wifibt_wakeup_handler_inv
  by (simp add: mv_sm_power_flow_idle_def fpbutton_wakeup_handler_def enterflow_bysmstate_inv mv_sm_get_state_def)

lemma task_inv:
  assumes "power_inv s"
  shows "power_inv (mv_sm_power_task tm s)"
  using assms warmdown_inv [OF assms] warmup_inv [OF assms] sysreset_inv [OF assms] idle_flow_inv [OF assms]
  by (cases "power_myflow s") (simp_all add: mv_sm_power_task_def power_inv_def stage_ok_def)

text \<open>Messages, timers and interrupts.\<close>

lemma stage_ok_active_wfi: "stage_ok f st MV_SM_STATE_ACTIVE on rst a bf = stage_ok f st MV_SM_STATE_ACTIVE on rst b bf"
  by (cases f; cases st; simp add: stage_ok_def)

lemma stage_ok_to_suspend_flag:
  "stage_ok f st MV_SM_STATE_ACTIVE_2_SUSPEND on rst wfi a = stage_ok f st MV_SM_STATE_ACTIVE_2_SUSPEND on rst wfi b"
  by (cases f; cases st; simp add: stage_ok_def)

lemma enterflow_active_inv:
  assumes "power_inv s" and "sys_state s = MV_SM_STATE_ACTIVE"
    and "flow \<in> {FLOW_ACTIVE_2_LOWPOWERSTANDBY, FLOW_ACTIVE_2_NORMALSTANDBY, FLOW_ACTIVE_2_SUSPEND, FLOW_SYSRESET_2_ACTIVE}"
  shows "power_inv (snd (mv_sm_power_enterflow tm flow s))"
  using assms by (intro enterflow_inv) (auto simp: power_inv_def stage_ok_def)

lemma enterflow_sysreset_inv:
  assumes "power_inv s"
  shows "power_inv (snd (mv_sm_power_enterflow tm FLOW_SYSRESET_2_ACTIVE s))"
  using assms idle_inv(2) [OF assms] by (intro enterflow_inv) (auto simp: power_inv_def stage_ok_def)

lemma power_timers_inv:
  assumes "power_inv s"
  shows "power_inv (snd (sm_setup_power_up_timer tm d st m s))" and "power_inv (snd (sm_setup_power_down_timer tm d st m s))"
    and "power_inv (snd (sm_get_warmup_remain_time tm s))"
  using assms by (simp_all add: sm_setup_power_up_timer_def sm_setup_power_down_timer_def setup_timer_def
      sm_get_warmup_remain_time_def gettimems_def power_inv_def Let_def)

lemma suspend_type_active_inv:
  assumes "power_inv s" and "sys_state s = MV_SM_STATE_ACTIVE"
  shows "power_inv (s\<lparr>linux_resume_addr := a, suspend_type := w\<rparr>)"
  using assms stage_ok_active_wfi [of "power_myflow s" "power_mystatus s" "soc_on s" "soc_in_reset s"
      "suspend_type s = MV_SM_POWER_SUSPEND_TYPE_WFI" "boot_flag s" "w = MV_SM_POWER_SUSPEND_TYPE_WFI"]
  by (simp add: power_inv_def)

lemma active_msg_inv:
  assumes "power_inv s" and "sys_state s = MV_SM_STATE_ACTIVE"
  shows "power_inv (process_active_msg tm d st j t c w s)"
  using assms power_timers_inv [OF assms(1)]
  by (simp add: process_active_msg_def Let_def enterflow_active_inv suspend_type_active_inv enterflow_sysreset_inv
      sm_set_reboot_reason_def case_prod_unfold)

lemma power_msg_inv:
  assumes "power_inv s"
  shows "power_inv (mv_sm_process_power_msg tm d st j t c w s)"
proof (cases "sys_state s")
  case MV_SM_STATE_ACTIVE_2_SUSPEND
  have "power_inv (mv_sm_set_boot_flag b s)" for b
    using assms MV_SM_STATE_ACTIVE_2_SUSPEND stage_ok_to_suspend_flag [of "power_myflow s" "power_mystatus s"
      "soc_on s" "soc_in_reset s" "suspend_type s = MV_SM_POWER_SUSPEND_TYPE_WFI" "boot_flag s" b]
    by (simp add: power_inv_def mv_sm_set_boot_flag_def)
  moreover have "mv_sm_set_boot_flag b (s\<lparr>is_get_rsp := True\<rparr>) = (mv_sm_set_boot_flag b s)\<lparr>is_get_rsp := True\<rparr>" for b
    by (simp add: mv_sm_set_boot_flag_def)
  ultimately show ?thesis using assms MV_SM_STATE_ACTIVE_2_SUSPEND
    by (simp add: mv_sm_process_power_msg_def mv_sm_get_state_def)
next
  case MV_SM_STATE_COLD
  then have False using assms
    by (cases "power_myflow s"; cases "power_mystatus s") (auto simp: power_inv_def stage_ok_def in_standby_def split: if_splits)
  then show ?thesis ..
qed (use assms in \<open>simp_all add: mv_sm_process_power_msg_def mv_sm_get_state_def active_msg_inv
      enterflow_bysmstate_inv in_standby_def\<close>)

lemma wakeup_timer_inv:
  assumes "power_inv s"
  shows "power_inv (wakeup_timer tm d s)"
  using assms idle_inv(2) [OF assms]
  by (auto simp: wakeup_timer_def mv_sm_get_state_def Let_def intro!: enterflow_bysmstate_inv)

lemma power_isrs_inv:
  assumes "power_inv s"
  shows "power_inv (sm_wifi_isr s)" "power_inv (sm_bt_isr s)" "power_inv (sm_geth_isr s)" "power_inv (mv_sm_fpstby_isr s)"
    "power_inv (powerdown_timer tm d s)" "power_inv (mv_sm_wdt_1_isr tm s)" "power_inv (overheat tm s)"
    "power_inv (mv_sm_wol_isr tm s)" "power_inv (uart_wake_round tm b s)"
  using assms enterflow_bysmstate_inv [OF assms, of tm]
  by (simp_all add: case_prod_unfold sm_wifi_isr_def sm_bt_isr_def sm_geth_isr_def mv_sm_fpstby_isr_def powerdown_timer_def Let_def
      mv_sm_wdt_1_isr_def sm_set_reboot_reason_def enterflow_sysreset_inv overheat_def enterflow_active_inv
      mv_sm_get_state_def mv_sm_wol_isr_def uart_wake_round_def mv_sm_wol_mp_intenable_def)

lemma power_step_inv: "power_inv s \<Longrightarrow> power_inv (power_step tm e s)"
  by (cases e) (simp_all add: task_inv power_msg_inv wakeup_timer_inv power_isrs_inv)

lemma power_reach_inv: "power_reach tm s \<Longrightarrow> power_inv s"
proof (induction rule: power_reach.induct)
  case (init s)
  then show ?case by (simp add: power_init_def power_inv_def stage_ok_def)
qed (rule power_step_inv)

section \<open>A reset that never completes\<close>

text \<open>
  The state of the reset flow before its answer: no message handled in this system state
  sets \<open>is_get_rsp\<close>.
\<close>

definition in_sysreset :: "sm_power \<Rightarrow> bool" where
  "in_sysreset s \<longleftrightarrow> power_myflow s = FLOW_SYSRESET_2_ACTIVE \<and> \<not> is_get_rsp s \<and>
     power_mystatus s \<in> {STA_ENTERFLOW, STA_ASSERT, STA_DEASSERT, STA_POWERON, STA_POWEROK, STA_WAITRSP} \<and>
     (sys_state s = MV_SM_STATE_ACTIVE \<or> in_standby (sys_state s))"



lemma in_sysreset_frame [simp]:
  "in_sysreset (mv_sm_power_setwakeupsource ws s) = in_sysreset s"
  "in_sysreset (mv_sm_power_setwakeuppayload v s) = in_sysreset s"
  "in_sysreset (call c s) = in_sysreset s"
  "in_sysreset (snd (gettimems tm s)) = in_sysreset s"
  "in_sysreset (s\<lparr>is_wakeup := b\<rparr>) = in_sysreset s"
  "in_sysreset (s\<lparr>geth_wakeup := b\<rparr>) = in_sysreset s"
  "in_sysreset (s\<lparr>fpbutton_wakeup := b\<rparr>) = in_sysreset s"
  "in_sysreset (s\<lparr>is_appwdt_enable := b\<rparr>) = in_sysreset s"
  "in_sysreset (s\<lparr>wol_int_type := k\<rparr>) = in_sysreset s"
  "in_sysreset (s\<lparr>wmup := t\<rparr>) = in_sysreset s"
  "in_sysreset (s\<lparr>wmdn := t\<rparr>) = in_sysreset s"
  "in_sysreset (s\<lparr>is_linux_ready := b\<rparr>) = in_sysreset s"
  "in_sysreset (s\<lparr>standby_type := i\<rparr>) = in_sysreset s"
  "in_sysreset (s\<lparr>bFastboot := b\<rparr>) = in_sysreset s"
  "in_sysreset (s\<lparr>suspend_type := i\<rparr>) = in_sysreset s"
  "in_sysreset (s\<lparr>linux_resume_addr := a\<rparr>) = in_sysreset s"
  by (simp_all add: in_sysreset_def mv_sm_power_setwakeupsource_def mv_sm_power_setwakeuppayload_def call_def gettimems_def)







section \<open>Completion of a warm-up\<close>

text \<open>
  The clock keeps running: after any read, some later read is at least 300 ms past a given
  time.  300 ms is the longest delay of a flow.
\<close>

definition clock_runs :: "(nat \<Rightarrow> u32) \<Rightarrow> bool" where
  "clock_runs tm \<longleftrightarrow> (\<forall>n t. \<exists>k. 300 \<le> tm (n + k) - t)"

definition warming_up :: "POWER_STATUS \<Rightarrow> sm_power \<Rightarrow> bool" where
  "warming_up st s \<longleftrightarrow> power_myflow s \<in> {FLOW_LOWPOWERSTANDBY_2_ACTIVE, FLOW_NORMALSTANDBY_2_ACTIVE, FLOW_SUSPEND_2_ACTIVE} \<and>
     power_mystatus s = st \<and> sys_state s = MV_SM_STATE_STANDBY_2_ACTIVE \<and>
     (boot_flag s = MV_SOC_STATE_SUSPEND_2_ACTIVE \<longrightarrow> suspend_type s \<noteq> MV_SM_POWER_SUSPEND_TYPE_WFI)"

lemma waittime_passes:
  assumes "\<And>s. P s \<Longrightarrow> f s = (case waittime tm i s of (True, s1) \<Rightarrow> g s1 | (False, s1) \<Rightarrow> s1)"
    and "\<And>s n. P s \<Longrightarrow> P (s\<lparr>tm_reads := n\<rparr>)" and "P s"
    and "of_int i \<le> tm (tm_reads s + k) - power_lasttime s"
  shows "\<exists>N n t. (f ^^ N) s = g (s\<lparr>tm_reads := n, power_lasttime := t\<rparr>)"
  using assms(3, 4)
proof (induction k arbitrary: s)
  case (Suc k)
  let ?s = "s\<lparr>tm_reads := Suc (tm_reads s)\<rparr>"
  show ?case
  proof (cases "of_int i \<le> tm (tm_reads s) - power_lasttime s")
    case True
    then have "(f ^^ 1) s = g (s\<lparr>tm_reads := Suc (tm_reads s), power_lasttime := tm (tm_reads s)\<rparr>)"
      using assms(1) [OF Suc.prems(1)] by (simp add: waittime_def gettimems_def)
    then show ?thesis by blast
  next
    case False
    then have f: "f s = ?s" using assms(1) [OF Suc.prems(1)] by (simp add: waittime_def gettimems_def)
    have "\<exists>N n t. (f ^^ N) ?s = g (?s\<lparr>tm_reads := n, power_lasttime := t\<rparr>)"
      by (rule Suc.IH [OF assms(2) [OF Suc.prems(1)]]) (use Suc.prems(2) in simp)
    then obtain N n t where "(f ^^ N) ?s = g (?s\<lparr>tm_reads := n, power_lasttime := t\<rparr>)" by (elim exE)
    then have "(f ^^ Suc N) s = g (s\<lparr>tm_reads := n, power_lasttime := t\<rparr>)" using f by (simp add: funpow_Suc_right del: funpow.simps)
    then show ?thesis by (intro exI)
  qed
next
  case 0
  then have "(f ^^ 1) s = g (s\<lparr>tm_reads := Suc (tm_reads s), power_lasttime := tm (tm_reads s)\<rparr>)"
    using assms(1) [OF 0(1)] by (simp add: waittime_def gettimems_def)
  then show ?case by blast
qed

lemma clock_passes:
  assumes "clock_runs tm" and "of_int i \<le> (300 :: u32)"
  shows "\<exists>k. of_int i \<le> tm (n + k) - t"
proof -
  obtain k where "300 \<le> tm (n + k) - t" using assms(1) by (auto simp: clock_runs_def)
  then have "of_int i \<le> tm (n + k) - t" using assms(2) by (rule order_trans [rotated])
  then show ?thesis ..
qed

lemma task_stage_passes:
  assumes "\<And>s. warming_up st s \<Longrightarrow> mv_sm_power_task tm s = (case waittime tm i s of (True, s1) \<Rightarrow> g s1 | (False, s1) \<Rightarrow> s1)"
    and "\<And>s. warming_up st s \<Longrightarrow> warming_up st' (g s)" and "clock_runs tm" and "of_int i \<le> (300 :: u32)"
    and "warming_up st s"
  shows "\<exists>N. warming_up st' ((mv_sm_power_task tm ^^ N) s)"
proof -
  obtain k where "of_int i \<le> tm (tm_reads s + k) - power_lasttime s" using clock_passes [OF assms(3, 4)] by blast
  moreover have "warming_up st (s\<lparr>tm_reads := n\<rparr>)" if "warming_up st s" for s n using that by (simp add: warming_up_def)
  ultimately have "\<exists>N n t. (mv_sm_power_task tm ^^ N) s = g (s\<lparr>tm_reads := n, power_lasttime := t\<rparr>)"
    using waittime_passes [where P = "warming_up st", OF assms(1) _ assms(5)] by simp
  then obtain N n t where "(mv_sm_power_task tm ^^ N) s = g (s\<lparr>tm_reads := n, power_lasttime := t\<rparr>)" by (elim exE)
  moreover have "warming_up st (s\<lparr>tm_reads := n, power_lasttime := t\<rparr>)" using assms(5) by (simp add: warming_up_def)
  ultimately have "warming_up st' ((mv_sm_power_task tm ^^ N) s)" using assms(2) by simp
  then show ?thesis ..
qed

lemma warmup_deassert:
  assumes "clock_runs tm" and "warming_up STA_DEASSERT s"
  shows "\<exists>N. warming_up STA_POWERON ((mv_sm_power_task tm ^^ N) s)"
  by (rule task_stage_passes [where i = ASSERT2DEASSERTTIME and
        g = "\<lambda>s1. (mv_sm_power_broadcast_power_state (peripheral_deassert s1))\<lparr>power_mystatus := STA_POWERON\<rparr>",
        OF _ _ assms(1) _ assms(2)])
    (auto simp: warming_up_def mv_sm_power_task_def mv_sm_power_flow_warmup_def ASSERT2DEASSERTTIME_def
      mv_sm_power_soc_assert_2_deassert_def mv_sm_power_broadcast_power_state_def call_def peripheral_deassert_def
      split: prod.splits bool.splits)

lemma warmup_poweron:
  assumes "clock_runs tm" and "warming_up STA_POWERON s"
  shows "\<exists>N. warming_up STA_POWEROK ((mv_sm_power_task tm ^^ N) s)"
  by (rule task_stage_passes [where i = POWEROFF2POWERON and
        g = "\<lambda>s1. (mv_sm_power_socpoweron (mv_sm_power_broadcast_power_state s1))\<lparr>power_mystatus := STA_POWEROK\<rparr>",
        OF _ _ assms(1) _ assms(2)])
    (auto simp: warming_up_def mv_sm_power_task_def mv_sm_power_flow_warmup_def POWEROFF2POWERON_def
      mv_sm_power_soc_poweron_2_powerok_def mv_sm_power_broadcast_power_state_def call_def mv_sm_power_socpoweron_def
      mv_sm_get_boot_flag_def
      split: prod.splits bool.splits)

lemma warmup_powerok:
  assumes "clock_runs tm" and "warming_up STA_POWEROK s"
  shows "\<exists>N. warming_up STA_WAITRSP ((mv_sm_power_task tm ^^ N) s)"
  by (rule task_stage_passes [where i = POWERON2OKTIME and
        g = "\<lambda>s1. (soc_deassert (mv_sm_power_broadcast_power_state s1))\<lparr>power_mystatus := STA_WAITRSP\<rparr>",
        OF _ _ assms(1) _ assms(2)])
    (auto simp: warming_up_def mv_sm_power_task_def mv_sm_power_flow_warmup_def POWERON2OKTIME_def
      mv_sm_power_soc_poweron_2_powerok_def mv_sm_power_broadcast_power_state_def call_def soc_deassert_def
      mv_sm_power_soc_power_status_def split: prod.splits bool.splits)

lemma warmup_enter:
  assumes "in_standby (sys_state s)" and "power_myflow s = FLOW_IDLE" and "power_mystatus s = STA_INVALID"
    and "\<not> (sys_state s = MV_SM_STATE_SUSPEND \<and> suspend_type s = MV_SM_POWER_SUSPEND_TYPE_WFI)"
  shows "warming_up STA_DEASSERT ((mv_sm_power_task tm ^^ 2) (uart_wake_round tm True s))"
  using assms by (auto simp: warming_up_def in_standby_def uart_wake_round_def mv_sm_power_enterflow_bysmstate_def
      mv_sm_get_state_def mv_sm_power_enterflow_def gettimems_def mv_sm_power_setwakeupsource_def numeral_2_eq_2
      mv_sm_power_task_def mv_sm_power_flow_warmup_def mv_sm_power_broadcast_power_state_def call_def
      mv_sm_set_state_def mv_sm_set_boot_flag_def Let_def MV_SOC_STATE_LOWPOWERSTANDBY_2_ACTIVE_def
      MV_SOC_STATE_SUSPEND_2_ACTIVE_def)

lemma warmup_answered:
  assumes "warming_up STA_WAITRSP s"
  shows "let s' = fold (power_step tm) [Power_Msg d st j MV_SM_SUSPEND_2_ACTIVE_RESP c w, Task, Task] s in
    sys_state s' = MV_SM_STATE_ACTIVE \<and> power_myflow s' = FLOW_IDLE \<and> power_mystatus s' = STA_INVALID \<and>
    boot_flag s' = MV_SOC_STATE_POWERON"
  using assms by (auto simp: warming_up_def mv_sm_process_power_msg_def mv_sm_get_state_def
      mv_sm_power_task_def mv_sm_power_flow_warmup_def power_defs Let_def)

lemma power_reach_task: "power_reach tm s \<Longrightarrow> power_reach tm ((mv_sm_power_task tm ^^ N) s)"
  using power_reach.step [of tm _ Task] by (induction N) auto

lemma warmup_reaches_waitrsp:
  assumes "clock_runs tm" and "warming_up STA_DEASSERT s"
  shows "\<exists>N. warming_up STA_WAITRSP ((mv_sm_power_task tm ^^ N) s)"
proof -
  obtain a b c where "warming_up STA_WAITRSP ((mv_sm_power_task tm ^^ c) ((mv_sm_power_task tm ^^ b) ((mv_sm_power_task tm ^^ a) s)))"
    using warmup_deassert [OF assms] warmup_poweron [OF assms(1)] warmup_powerok [OF assms(1)] by metis
  then have "warming_up STA_WAITRSP ((mv_sm_power_task tm ^^ (c + (b + a))) s)" by (simp add: funpow_add)
  then show ?thesis ..
qed

lemma waitrsp_powered:
  assumes "power_reach tm s" and "warming_up STA_WAITRSP s"
  shows "soc_on s \<and> \<not> soc_in_reset s"
  using power_reach_inv [OF assms(1)] assms(2) by (auto simp: warming_up_def power_inv_def stage_ok_def)

lemma power_reach_boot: "power_reach tm power_boot"
  by (rule power_reach.init) (simp add: power_init_def power_boot_def)

lemma power_reach_steps: "power_reach tm s \<Longrightarrow> power_reach tm (fold (power_step tm) es s)"
  by (induction es arbitrary: s) (simp_all add: power_reach.step)

lemma clock_runs_of_nat: "clock_runs of_nat"
proof (unfold clock_runs_def, intro allI)
  fix n and t :: u32
  have "of_nat (n + unat (t + 300 - of_nat n)) - t = (300 :: u32)" by simp
  then show "\<exists>k. 300 \<le> of_nat (n + k) - t" by (intro exI [of _ "unat (t + 300 - of_nat n)"]) simp
qed

section \<open>Theorems\<close>

text \<open>
  C19: In every state the power module can reach by task iterations, messages, timer callbacks
  and interrupts in any order, the SoC is never out of reset without power, its system state is
  never the cold state, an idle module in the active state has the SoC powered and out of reset, and
  no flow is idle with a pending stage.
\<close>

theorem power_safe:
  assumes "power_reach tm s"
  shows "(\<not> soc_in_reset s \<longrightarrow> soc_on s) \<and> sys_state s \<noteq> MV_SM_STATE_COLD \<and>
    (power_myflow s = FLOW_IDLE \<longrightarrow> power_mystatus s = STA_INVALID) \<and>
    (power_myflow s = FLOW_IDLE \<and> sys_state s = MV_SM_STATE_ACTIVE \<longrightarrow> soc_on s \<and> \<not> soc_in_reset s) \<and>
    (power_myflow s = FLOW_IDLE \<longrightarrow> sys_state s = MV_SM_STATE_ACTIVE \<or> in_standby (sys_state s))"
proof -
  have inv: "power_inv s" using power_reach_inv [OF assms] .
  have "sys_state s \<noteq> MV_SM_STATE_COLD"
    using inv by (cases "power_myflow s"; cases "power_mystatus s")
      (auto simp: power_inv_def stage_ok_def in_standby_def split: if_splits)
  moreover have "soc_in_reset s \<or> soc_on s" using inv unfolding power_inv_def stage_ok_def by (rule conjunct1)
  moreover have "power_myflow s = FLOW_IDLE \<and> sys_state s = MV_SM_STATE_ACTIVE \<longrightarrow> soc_on s \<and> \<not> soc_in_reset s"
    using inv by (auto simp: power_inv_def stage_ok_def)
  ultimately show ?thesis using idle_inv [OF inv] by blast
qed

theorem power_safe_witness:
  "let s = fold (power_step of_nat) [Wdt1_Isr, Task, Task] power_boot in
   power_myflow s = FLOW_SYSRESET_2_ACTIVE \<and> soc_in_reset s \<and> sys_state s \<noteq> MV_SM_STATE_COLD"
proof -
  have "power_reach of_nat (fold (power_step of_nat) [Wdt1_Isr, Task, Task] power_boot)"
    by (rule power_reach_steps [OF power_reach_boot])
  from power_safe [OF this] show ?thesis
    by (simp add: Let_def power_boot_def mv_sm_wdt_1_isr_def sm_set_reboot_reason_def mv_sm_power_enterflow_def power_defs
        mv_sm_power_task_def mv_sm_power_flow_sysreset_def)
qed



text \<open>
  C20: a warm-up completes: take any reachable idle standby state (low-power, normal or suspend,
  whatever suspends came before) that is not a suspend of the WFI type, and let the clock keep
  running.  A wake-up signal and enough task iterations bring the SoC to power, out of reset,
  waiting for its answer; the answer and two more iterations make the system active and idle
  again, with the boot flag back to power-on.
\<close>

theorem warmup_completes:
  assumes "power_reach tm s" and "power_myflow s = FLOW_IDLE" and "in_standby (sys_state s)"
    and "\<not> (sys_state s = MV_SM_STATE_SUSPEND \<and> suspend_type s = MV_SM_POWER_SUSPEND_TYPE_WFI)" and "clock_runs tm"
  shows "\<exists>N. let s1 = (power_step tm Task ^^ N) (power_step tm (Uart_Wake True) s);
      s2 = fold (power_step tm) [Power_Msg d st j MV_SM_SUSPEND_2_ACTIVE_RESP c w, Task, Task] s1 in
    power_mystatus s1 = STA_WAITRSP \<and> soc_on s1 \<and> \<not> soc_in_reset s1 \<and>
    sys_state s2 = MV_SM_STATE_ACTIVE \<and> power_myflow s2 = FLOW_IDLE \<and> power_mystatus s2 = STA_INVALID \<and>
    boot_flag s2 = MV_SOC_STATE_POWERON"
proof -
  let ?s = "uart_wake_round tm True s"
  have "power_mystatus s = STA_INVALID" using idle_inv(1) [OF power_reach_inv [OF assms(1)] assms(2)] .
  then obtain N where "warming_up STA_WAITRSP ((mv_sm_power_task tm ^^ N) ((mv_sm_power_task tm ^^ 2) ?s))"
    using warmup_reaches_waitrsp [OF assms(5) warmup_enter [OF assms(3, 2) _ assms(4)]] by blast
  then have w: "warming_up STA_WAITRSP ((mv_sm_power_task tm ^^ (N + 2)) ?s)"
    unfolding funpow_add comp_apply .
  have "power_reach tm ?s" using power_reach.step [OF assms(1), of "Uart_Wake True"] by simp
  then have "power_reach tm ((mv_sm_power_task tm ^^ (N + 2)) ?s)" by (rule power_reach_task)
  note on = waitrsp_powered [OF this w] and ans = warmup_answered [OF w, of tm d st j c w]
  have "power_mystatus ((mv_sm_power_task tm ^^ (N + 2)) ?s) = STA_WAITRSP" using w by (simp add: warming_up_def)
  with on ans show ?thesis unfolding Let_def power_step.simps by (intro exI [of _ "N + 2"] conjI) simp_all
qed

lemma suspend_request:
  "process_active_msg tm d st j MV_SM_POWER_SUSPEND_REQUEST c w s =
     snd (mv_sm_power_enterflow tm FLOW_ACTIVE_2_SUSPEND (s\<lparr>linux_resume_addr := of_int c, suspend_type := w\<rparr>))"
  by (simp add: process_active_msg_def MV_SM_POWER_SUSPEND_REQUEST_def MV_SM_IR_Linuxready_def
      MV_SM_POWER_LOWPOWERSTANDBY_REQUEST_def MV_SM_POWER_NORMALSTANDBY_REQUEST_def MV_SM_POWER_STANDBY_REQUEST_def)

text \<open>A suspend request that comes while another flow runs is refused but sets the suspend type.\<close>

lemma late_suspend_request:
  assumes "sys_state s = MV_SM_STATE_ACTIVE" and "power_myflow s = FLOW_ACTIVE_2_LOWPOWERSTANDBY"
  shows "power_step tm (Power_Msg d st j MV_SM_POWER_SUSPEND_REQUEST c w) s = s\<lparr>linux_resume_addr := of_int c, suspend_type := w\<rparr>"
  using assms by (simp add: mv_sm_process_power_msg_def mv_sm_get_state_def suspend_request mv_sm_power_enterflow_def)

text \<open>The witness is a low-power standby in which the suspend type is WFI, from a request that came too late.\<close>

theorem warmup_completes_witness:
  "let s = fold (power_step of_nat)
      [Overheat, Power_Msg True True 0 MV_SM_POWER_SUSPEND_REQUEST 0 MV_SM_POWER_SUSPEND_TYPE_WFI, Task, Task, Task] power_boot in
   sys_state s = MV_SM_STATE_LOWPOWERSTANDBY \<and> suspend_type s = MV_SM_POWER_SUSPEND_TYPE_WFI \<and>
   (\<exists>N. sys_state (fold (power_step of_nat) [Power_Msg True True 0 MV_SM_SUSPEND_2_ACTIVE_RESP 0 0, Task, Task]
      ((power_step of_nat Task ^^ N) (power_step of_nat (Uart_Wake True) s))) = MV_SM_STATE_ACTIVE)"
proof -
  let ?s = "fold (power_step of_nat)
      [Overheat, Power_Msg True True 0 MV_SM_POWER_SUSPEND_REQUEST 0 MV_SM_POWER_SUSPEND_TYPE_WFI, Task, Task, Task] power_boot"
  let ?o = "power_step of_nat Overheat power_boot"
  have "sys_state ?o = MV_SM_STATE_ACTIVE" "power_myflow ?o = FLOW_ACTIVE_2_LOWPOWERSTANDBY"
    by (simp_all add: power_boot_def overheat_def mv_sm_power_enterflow_def power_defs)
  note late = late_suspend_request [OF this, of of_nat True True 0 0 MV_SM_POWER_SUSPEND_TYPE_WFI]
  have s: "power_myflow ?s = FLOW_IDLE \<and> sys_state ?s = MV_SM_STATE_LOWPOWERSTANDBY \<and>
      suspend_type ?s = MV_SM_POWER_SUSPEND_TYPE_WFI"
    unfolding fold.simps comp_apply id_apply late
    by (simp add: power_boot_def overheat_def mv_sm_power_enterflow_def power_defs mv_sm_power_task_def
        mv_sm_power_flow_warmdown_def Let_def)
  have "power_reach of_nat ?s" by (rule power_reach_steps [OF power_reach_boot])
  from warmup_completes [OF this _ _ _ clock_runs_of_nat, of True True 0 0 0] s show ?thesis
    unfolding Let_def by (auto simp: in_standby_def)
qed

end
