(* ===== verification/Mmgr.thy ===== *)
theory Mmgr
  imports Boot_Prelude
begin

text \<open>
  The heap of the boot loader, \<^verbatim>\<open>src/boot/common/lib/mmgr.c\<close>: a first-fit allocator whose
  blocks are described by nodes of a fixed pool, linked into a free list ordered by address
  and a list of allocated blocks.

  A \<open>Mnode *\<close> is an index into the pool or null; following a null pointer is \<open>None\<close>.  The
  bytes of the heap itself are only touched by \<open>mmgr_calloc\<close>, as a function of the address.
\<close>

section \<open>Data\<close>

definition RESERVE_MEM_SIZE :: nat where "RESERVE_MEM_SIZE = 8 * 1024"
definition MAXNUM_POOL :: nat where "MAXNUM_POOL = 200"
definition PAGE :: int where "PAGE = 4096"
definition PAGE_MASK :: int where "PAGE_MASK = PAGE - 1"

definition NODE_FREE :: u32 where "NODE_FREE = 0"
definition NODE_USED :: u32 where "NODE_USED = 1"

record Mnode =
  nd_prev :: "nat option"
  nd_next :: "nat option"
  nd_base :: u64
  nd_size :: u32
  isused :: u32

definition zero_node :: Mnode where
  "zero_node = \<lparr>nd_prev = None, nd_next = None, nd_base = 0, nd_size = 0, isused = 0\<rparr>"

record Memmgr =
  membase :: u64
  totalsize :: u32
  num :: u32
  p_free :: "nat option"
  p_alloc :: "nat option"
  pool :: "Mnode list"

datatype MEM_TYPE = MEM_COMMON | MEM_ION_CACHEABLE | MEM_ION_NONCACHEABLE

type_synonym g_mmgr = "MEM_TYPE \<Rightarrow> Memmgr option"

text \<open>Reading and updating the node a pointer refers to.\<close>

definition node_rd :: "Mnode list \<Rightarrow> nat option \<Rightarrow> Mnode option" where
  "node_rd pl p = (case p of None \<Rightarrow> None | Some i \<Rightarrow> rd pl i)"

definition node_upd :: "Mnode list \<Rightarrow> nat option \<Rightarrow> (Mnode \<Rightarrow> Mnode) \<Rightarrow> Mnode list option" where
  "node_upd pl p f = (case p of None \<Rightarrow> None | Some i \<Rightarrow> do { x \<leftarrow> rd pl i; wr pl i (f x) })"

section \<open>The node pool\<close>

text \<open>The loop index \<open>i\<close> counts up to the size of the pool.\<close>

fun find_node_loop :: "nat \<Rightarrow> Mnode list \<Rightarrow> nat option" where
  "find_node_loop i [] = None"
| "find_node_loop i (x # xs) = (if isused x = NODE_FREE then Some i else find_node_loop (Suc i) xs)"

definition find_valid_node_from_pool :: "Memmgr \<Rightarrow> nat option \<times> Memmgr" where
  "find_valid_node_from_pool mm =
     (case find_node_loop 0 (pool mm) of None \<Rightarrow> (None, mm)
      | Some i \<Rightarrow> (Some i, mm\<lparr>pool := (pool mm)[i := (pool mm ! i)\<lparr>isused := NODE_USED\<rparr>], num := num mm + 1\<rparr>))"

definition return_node_2_pool :: "Memmgr \<Rightarrow> nat option \<Rightarrow> Memmgr option" where
  "return_node_2_pool mm p =
     do { pl \<leftarrow> node_upd (pool mm) p (\<lambda>_. zero_node);
          Some (mm\<lparr>pool := pl, num := num mm - 1\<rparr>) }"

section \<open>Initialisation\<close>

definition init_mmgr_by_type :: "MEM_TYPE \<Rightarrow> u64 \<Rightarrow> u32 \<Rightarrow> g_mmgr \<Rightarrow> g_mmgr option" where
  "init_mmgr_by_type type mstart bytes g =
     (if g type \<noteq> None then Some g
      else
        let mm = \<lparr>membase = mstart + of_nat RESERVE_MEM_SIZE, totalsize = bytes - of_nat RESERVE_MEM_SIZE,
                  num = 0, p_free = None, p_alloc = None, pool = replicate MAXNUM_POOL zero_node\<rparr>;
            (p, mm) = find_valid_node_from_pool mm in
        do { pl \<leftarrow> node_upd (pool mm) p
               (\<lambda>x. x\<lparr>nd_base := membase mm, nd_size := totalsize mm, nd_prev := None, nd_next := None\<rparr>);
             Some (g(type \<mapsto> mm\<lparr>pool := pl, p_free := p, p_alloc := None\<rparr>)) })"

definition init_mmgr :: "u64 \<Rightarrow> u32 \<Rightarrow> g_mmgr \<Rightarrow> g_mmgr option" where
  "init_mmgr mstart bytes g = init_mmgr_by_type MEM_COMMON mstart bytes g"

section \<open>Allocation\<close>

text \<open>Rounding a positive size up; the addition may overflow \<open>int\<close>.\<close>

definition int_ok :: "int \<Rightarrow> int option" where
  "int_ok v = (if - (2 ^ 31) \<le> v \<and> v < 2 ^ 31 then Some v else None)"

definition round_size :: "MEM_TYPE \<Rightarrow> int \<Rightarrow> int option" where
  "round_size type bytes =
     (if type = MEM_ION_CACHEABLE \<or> type = MEM_ION_NONCACHEABLE
      then if bytes AND PAGE_MASK \<noteq> 0 then int_ok ((bytes AND NOT PAGE_MASK) + PAGE) else Some bytes
      else if bytes AND 0x3f \<noteq> 0 then int_ok ((bytes AND NOT 0x3f) + 64) else Some bytes)"

text \<open>
  Taking a node out of a list with head pointer \<open>head\<close>: the statements are the same for the
  free list in \<open>mmgr_alloc_by_type\<close> and for the list of allocated blocks in
  \<open>mmgr_free_by_type\<close>.
\<close>

definition unlink :: "nat option \<Rightarrow> nat \<Rightarrow> Mnode list \<Rightarrow> (nat option \<times> Mnode list) option" where
  "unlink head i pl =
     do { x \<leftarrow> rd pl i;
          if nd_prev x = None \<and> nd_next x = None then Some (None, pl)
          else do {
            (head, pl) \<leftarrow>
              (if Some i = head
               then do { pl \<leftarrow> node_upd pl (nd_next x) (\<lambda>y. y\<lparr>nd_prev := None\<rparr>); Some (nd_next x, pl) }
               else Some (head, pl));
            x \<leftarrow> rd pl i;
            pl \<leftarrow> (if nd_prev x \<noteq> None then node_upd pl (nd_prev x) (\<lambda>y. y\<lparr>nd_next := nd_next x\<rparr>) else Some pl);
            x \<leftarrow> rd pl i;
            pl \<leftarrow> (if nd_next x \<noteq> None then node_upd pl (nd_next x) (\<lambda>y. y\<lparr>nd_prev := nd_prev x\<rparr>) else Some pl);
            Some (head, pl) } }"

text \<open>
  The first free node that is large enough.  The loops over linked lists run on fuel: a
  cyclic list would make the code run forever.
\<close>

fun find_fit :: "nat \<Rightarrow> Mnode list \<Rightarrow> u32 \<Rightarrow> nat option \<Rightarrow> nat option option" where
  "find_fit 0 pl sz p = None"
| "find_fit (Suc fuel) pl sz p =
     (case p of None \<Rightarrow> Some None
      | Some i \<Rightarrow> do { x \<leftarrow> rd pl i; if sz \<le> nd_size x then Some (Some i) else find_fit fuel pl sz (nd_next x) })"

text \<open>What happens once the free node \<open>p\<close> is found.\<close>

definition take_block :: "u32 \<Rightarrow> nat \<Rightarrow> Memmgr \<Rightarrow> (u64 \<times> Memmgr) option" where
  "take_block alloc_size p mm =
     (case find_valid_node_from_pool mm of (new, mm) \<Rightarrow>
      do { x \<leftarrow> rd (pool mm) p;
           pl \<leftarrow> node_upd (pool mm) new (\<lambda>y. y\<lparr>nd_base := nd_base x, nd_size := alloc_size, nd_next := p_alloc mm\<rparr>);
           let mm = mm\<lparr>pool := pl, p_alloc := new\<rparr>;
           y \<leftarrow> node_rd (pool mm) new;
           pl \<leftarrow> (if nd_next y \<noteq> None then node_upd (pool mm) (nd_next y) (\<lambda>z. z\<lparr>nd_prev := new\<rparr>) else Some (pool mm));
           let mm = mm\<lparr>pool := pl\<rparr>;
           x \<leftarrow> rd (pool mm) p;
           mm \<leftarrow>
             (if nd_size x = alloc_size
              then do { (head, pl) \<leftarrow> unlink (p_free mm) p (pool mm);
                        return_node_2_pool (mm\<lparr>p_free := head, pool := pl\<rparr>) (Some p) }
              else do { pl \<leftarrow> node_upd (pool mm) (Some p)
                          (\<lambda>z. z\<lparr>nd_base := nd_base z + ucast alloc_size, nd_size := nd_size z - alloc_size\<rparr>);
                        Some (mm\<lparr>pool := pl\<rparr>) });
           y \<leftarrow> node_rd (pool mm) (p_alloc mm);
           Some (nd_base y, mm) })"

definition mmgr_alloc_by_type :: "MEM_TYPE \<Rightarrow> int \<Rightarrow> g_mmgr \<Rightarrow> (u64 \<times> g_mmgr) option" where
  "mmgr_alloc_by_type type bytes g =
     (case g type of None \<Rightarrow> Some (0, g)
      | Some mm \<Rightarrow>
          if bytes \<le> 0 then Some (0, g)
          else do { sz \<leftarrow> round_size type bytes;
                    let alloc_size = of_int sz;
                    if of_nat MAXNUM_POOL < num mm then Some (0, g)
                    else do { f \<leftarrow> find_fit (Suc MAXNUM_POOL) (pool mm) alloc_size (p_free mm);
                              case f of None \<Rightarrow> Some (0, g)
                              | Some p \<Rightarrow> do { (a, mm') \<leftarrow> take_block alloc_size p mm; Some (a, g(type \<mapsto> mm')) } } })"

definition mmgr_alloc :: "int \<Rightarrow> g_mmgr \<Rightarrow> (u64 \<times> g_mmgr) option" where
  "mmgr_alloc bytes g = mmgr_alloc_by_type MEM_COMMON bytes g"

text \<open>\<open>memset\<close> does nothing on a null pointer.\<close>

definition mmgr_calloc :: "int \<Rightarrow> int \<Rightarrow> g_mmgr \<times> (u64 \<Rightarrow> u8) \<Rightarrow> (u64 \<times> g_mmgr \<times> (u64 \<Rightarrow> u8)) option" where
  "mmgr_calloc n bytes s =
     (case s of (g, heap) \<Rightarrow>
      do { k \<leftarrow> int_ok (n * bytes);
           (p, g') \<leftarrow> mmgr_alloc k g;
           Some (p, g', if p = 0 then heap
                        else (\<lambda>a. if unat p \<le> unat a \<and> unat a < unat p + nat k then 0 else heap a)) })"

section \<open>Release\<close>

definition check_prevnode_and_merge :: "Memmgr \<Rightarrow> nat option \<Rightarrow> (nat option \<times> Memmgr) option" where
  "check_prevnode_and_merge mm p =
     do { x \<leftarrow> node_rd (pool mm) p;
          if nd_prev x \<noteq> None
          then do { v \<leftarrow> node_rd (pool mm) (nd_prev x);
                    if nd_base v + ucast (nd_size v) = nd_base x
                    then do { pl \<leftarrow> node_upd (pool mm) (nd_prev x)
                                (\<lambda>y. y\<lparr>nd_size := nd_size y + nd_size x, nd_next := nd_next x\<rparr>);
                              pl \<leftarrow> (if nd_next x \<noteq> None then node_upd pl (nd_next x) (\<lambda>y. y\<lparr>nd_prev := nd_prev x\<rparr>)
                                    else Some pl);
                              mm' \<leftarrow> return_node_2_pool (mm\<lparr>pool := pl\<rparr>) p;
                              Some (nd_prev x, mm') }
                    else Some (p, mm) }
          else Some (p, mm) }"

text \<open>The node before or after which the loop of \<open>insert_node_2_free\<close> stops.\<close>

fun find_place :: "nat \<Rightarrow> Mnode list \<Rightarrow> u64 \<Rightarrow> nat \<Rightarrow> nat option" where
  "find_place 0 pl b pf = None"
| "find_place (Suc fuel) pl b pf =
     do { y \<leftarrow> rd pl pf;
          if nd_base y < b
          then (case nd_next y of Some n \<Rightarrow> find_place fuel pl b n | None \<Rightarrow> Some pf)
          else Some pf }"

definition link_free :: "Memmgr \<Rightarrow> nat \<Rightarrow> nat \<Rightarrow> Memmgr option" where
  "link_free mm p pf =
     do { x \<leftarrow> rd (pool mm) p;
          y \<leftarrow> rd (pool mm) pf;
          if nd_base y < nd_base x
          then do { pl \<leftarrow> node_upd (pool mm) (Some pf) (\<lambda>y. y\<lparr>nd_next := Some p\<rparr>);
                    pl \<leftarrow> node_upd pl (Some p) (\<lambda>x. x\<lparr>nd_prev := Some pf, nd_next := None\<rparr>);
                    Some (mm\<lparr>pool := pl\<rparr>) }
          else do { let mm = (if nd_prev y = None then mm\<lparr>p_free := Some p\<rparr> else mm);
                    pl \<leftarrow> node_upd (pool mm) (Some p) (\<lambda>x. x\<lparr>nd_prev := nd_prev y\<rparr>);
                    pl \<leftarrow> (if nd_prev y \<noteq> None then node_upd pl (nd_prev y) (\<lambda>z. z\<lparr>nd_next := Some p\<rparr>) else Some pl);
                    pl \<leftarrow> node_upd pl (Some p) (\<lambda>x. x\<lparr>nd_next := Some pf\<rparr>);
                    pl \<leftarrow> node_upd pl (Some pf) (\<lambda>y. y\<lparr>nd_prev := Some p\<rparr>);
                    Some (mm\<lparr>pool := pl\<rparr>) } }"

definition insert_node_2_free :: "Memmgr \<Rightarrow> nat \<Rightarrow> Memmgr option" where
  "insert_node_2_free mm p =
     (case p_free mm of
        None \<Rightarrow> do { pl \<leftarrow> node_upd (pool mm) (Some p) (\<lambda>x. x\<lparr>nd_prev := None, nd_next := None\<rparr>);
                     Some (mm\<lparr>pool := pl, p_free := Some p\<rparr>) }
      | Some h \<Rightarrow>
          do { x \<leftarrow> rd (pool mm) p;
               pf \<leftarrow> find_place (Suc MAXNUM_POOL) (pool mm) (nd_base x) h;
               mm \<leftarrow> link_free mm p pf;
               (pf, mm) \<leftarrow> check_prevnode_and_merge mm (Some p);
               y \<leftarrow> node_rd (pool mm) pf;
               (_, mm) \<leftarrow> check_prevnode_and_merge mm (nd_next y);
               Some mm })"

fun find_base :: "nat \<Rightarrow> Mnode list \<Rightarrow> u64 \<Rightarrow> nat option \<Rightarrow> nat option option" where
  "find_base 0 pl b p = None"
| "find_base (Suc fuel) pl b p =
     (case p of None \<Rightarrow> Some None
      | Some i \<Rightarrow> do { x \<leftarrow> rd pl i; if nd_base x = b then Some (Some i) else find_base fuel pl b (nd_next x) })"

definition mmgr_free_by_type :: "MEM_TYPE \<Rightarrow> u64 \<Rightarrow> g_mmgr \<Rightarrow> g_mmgr option" where
  "mmgr_free_by_type type m g =
     (case g type of None \<Rightarrow> Some g
      | Some mm \<Rightarrow>
          do { f \<leftarrow> find_base (Suc MAXNUM_POOL) (pool mm) m (p_alloc mm);
               case f of None \<Rightarrow> Some g
               | Some p \<Rightarrow> do { (head, pl) \<leftarrow> unlink (p_alloc mm) p (pool mm);
                                mm' \<leftarrow> insert_node_2_free (mm\<lparr>p_alloc := head, pool := pl\<rparr>) p;
                                Some (g(type \<mapsto> mm')) } })"

definition mmgr_free :: "u64 \<Rightarrow> g_mmgr \<Rightarrow> g_mmgr option" where
  "mmgr_free m g = mmgr_free_by_type MEM_COMMON m g"

end
