(* ===== verification/Mmgr_Lists.thy ===== *)
theory Mmgr_Lists
  imports Mmgr
begin

text \<open>
  The linked lists of the heap: \<open>seg\<close> describes a doubly linked segment of pool nodes,
  \<open>repr\<close> the whole structure of a heap, with lemmas for each list operation of \<open>Mmgr\<close>.
\<close>

section \<open>Segments\<close>

primrec hdo :: "'a list \<Rightarrow> 'a option \<Rightarrow> 'a option" where
  "hdo [] q = q"
| "hdo (x # xs) q = Some x"

definition lasto :: "'a list \<Rightarrow> 'a option \<Rightarrow> 'a option" where
  "lasto xs p = (if xs = [] then p else Some (last xs))"

primrec seg :: "Mnode list \<Rightarrow> nat option \<Rightarrow> nat list \<Rightarrow> nat option \<Rightarrow> bool" where
  "seg pl p [] q \<longleftrightarrow> True"
| "seg pl p (i # js) q \<longleftrightarrow> i < length pl \<and> nd_prev (pl ! i) = p \<and> nd_next (pl ! i) = hdo js q \<and> seg pl (Some i) js q"

lemma hdo_append: "hdo (xs @ ys) q = hdo xs (hdo ys q)"
  by (cases xs) simp_all

lemma hdo_None_iff [simp]: "hdo xs None = None \<longleftrightarrow> xs = []"
  by (cases xs) simp_all

lemma lasto_simps [simp]: "lasto [] p = p" "lasto (xs @ [x]) p = Some x"
  by (simp_all add: lasto_def)

lemma lasto_Cons [simp]: "lasto (x # xs) p = lasto xs (Some x)"
  by (simp add: lasto_def)

lemma seg_append: "seg pl p (xs @ ys) q \<longleftrightarrow> seg pl p xs (hdo ys q) \<and> seg pl (lasto xs p) ys q"
  by (induction xs arbitrary: p) (auto simp: hdo_append)

lemma seg_index: "seg pl p xs q \<Longrightarrow> i \<in> set xs \<Longrightarrow> i < length pl"
  by (induction xs arbitrary: p) auto

lemma seg_frame: "seg pl p xs q \<Longrightarrow> (\<And>i. i \<in> set xs \<Longrightarrow> pl' ! i = pl ! i) \<Longrightarrow> length pl' = length pl \<Longrightarrow> seg pl' p xs q"
  by (induction xs arbitrary: p) auto

lemma seg_upd [simp]: "i \<notin> set xs \<Longrightarrow> seg (pl[i := v]) p xs q = seg pl p xs q"
  by (induction xs arbitrary: p) auto

lemma seg_prev: "seg pl p (y # ys) q \<Longrightarrow> y \<notin> set ys \<Longrightarrow> seg (pl[y := (pl ! y)\<lparr>nd_prev := p'\<rparr>]) p' (y # ys) q"
  by simp

lemma seg_next:
  assumes "seg pl p (us @ [u]) q" and "u \<notin> set us"
  shows "seg (pl[u := (pl ! u)\<lparr>nd_next := q'\<rparr>]) p (us @ [u]) q'"
  using assms by (simp add: seg_append)

text \<open>Updates that keep the block data of every node and change only links inside a set of nodes.\<close>

definition relinked :: "nat set \<Rightarrow> Mnode list \<Rightarrow> Mnode list \<Rightarrow> bool" where
  "relinked A pl pl' \<longleftrightarrow> length pl' = length pl \<and> (\<forall>j. j \<notin> A \<longrightarrow> pl' ! j = pl ! j) \<and>
     (\<forall>j. nd_base (pl' ! j) = nd_base (pl ! j) \<and> nd_size (pl' ! j) = nd_size (pl ! j) \<and> isused (pl' ! j) = isused (pl ! j))"

lemma relinked_refl [simp]: "relinked A pl pl"
  by (simp add: relinked_def)

lemma relinked_upd:
  assumes "relinked A pl pl'" and "j \<in> A"
    and "\<And>x. nd_base (f x) = nd_base x \<and> nd_size (f x) = nd_size x \<and> isused (f x) = isused x"
  shows "relinked A pl (pl'[j := f (pl' ! j)])"
  using assms by (cases "j < length pl'") (auto simp: relinked_def nth_list_update list_update_beyond)

lemma node_upd_Some [simp]: "i < length pl \<Longrightarrow> node_upd pl (Some i) f = Some (pl[i := f (pl ! i)])"
  by (simp add: node_upd_def)

lemma node_rd_Some [simp]: "i < length pl \<Longrightarrow> node_rd pl (Some i) = Some (pl ! i)"
  by (simp add: node_rd_def)

lemma node_None [simp]: "node_rd pl None = None" "node_upd pl None f = None"
  by (simp_all add: node_rd_def node_upd_def)

lemma unlink_seg:
  assumes "seg pl None (xs @ i # ys) None" and "distinct (xs @ i # ys)" and "head = hdo (xs @ i # ys) None"
  shows "\<exists>pl'. unlink head i pl = Some (hdo (xs @ ys) None, pl') \<and> seg pl' None (xs @ ys) None \<and>
    relinked (set (xs @ ys)) pl pl'"
proof -
  have i: "i < length pl" "nd_prev (pl ! i) = lasto xs None" "nd_next (pl ! i) = hdo ys None"
    using assms(1) by (simp_all add: seg_append)
  show ?thesis
  proof (cases xs rule: rev_cases)
    case Nil
    show ?thesis
    proof (cases ys)
      case (Cons y zs)
      have y: "y < length pl" "y \<noteq> i" using assms(1, 2) Nil Cons by auto
      let ?pl = "pl[y := (pl ! y)\<lparr>nd_prev := None\<rparr>]"
      have "unlink head i pl = Some (Some y, ?pl)"
        using assms(3) Nil Cons i y by (simp add: unlink_def)
      moreover have "seg ?pl None (y # zs) None"
        using assms(1, 2) Nil Cons by simp
      moreover have "relinked (set (y # zs)) pl ?pl"
        by (rule relinked_upd [where f = "\<lambda>x. x\<lparr>nd_prev := None\<rparr>"]) simp_all
      ultimately show ?thesis using Nil Cons by auto
    qed (use Nil i in \<open>simp add: unlink_def\<close>)
  next
    case (snoc us u)
    have u: "u < length pl" "u \<noteq> i" "u \<notin> set us" "i \<notin> set us"
      and su: "seg pl None (us @ [u]) (Some i)" "seg pl (Some i) ys None"
      using assms(1, 2) snoc by (auto simp: seg_append)
    have hd: "head = hdo (us @ [u]) None" "head \<noteq> Some i"
      using assms(2, 3) snoc by (cases us, auto)+
    let ?pl = "pl[u := (pl ! u)\<lparr>nd_next := hdo ys None\<rparr>]"
    have s1: "seg ?pl None (us @ [u]) (hdo ys None)" using seg_next [OF su(1)] u by simp
    have r1: "relinked (set (xs @ ys)) pl ?pl"
      by (rule relinked_upd [where f = "\<lambda>x. x\<lparr>nd_next := hdo ys None\<rparr>"]) (simp_all add: snoc)
    show ?thesis
    proof (cases ys)
      case Nil
      have "unlink head i pl = Some (hdo (xs @ ys) None, ?pl)" using i u hd snoc Nil by (simp add: unlink_def)
      moreover have "seg ?pl None (xs @ ys) None" using s1 unfolding snoc Nil append_Nil2 hdo.simps .
      ultimately show ?thesis using r1 by blast
    next
      case (Cons y zs)
      have y: "y < length pl" "y \<noteq> i" "y \<noteq> u" "y \<notin> set us" "y \<notin> set zs" "u \<notin> set ys"
        using assms(1, 2) snoc Cons by (auto simp: seg_append)
      let ?pl2 = "?pl[y := (?pl ! y)\<lparr>nd_prev := Some u\<rparr>]"
      have "unlink head i pl = Some (hdo (xs @ ys) None, ?pl2)" using i u hd snoc Cons y by (simp add: unlink_def hdo_append)
      moreover have "seg ?pl2 None (us @ [u]) (Some y)" using s1 Cons y by simp
      moreover have "seg ?pl (Some i) (y # zs) None" using su(2) Cons y(6) by simp
      then have "seg ?pl2 (Some u) (y # zs) None" by (rule seg_prev) (use y in simp)
      moreover have "relinked (set (xs @ ys)) pl ?pl2"
        by (rule relinked_upd [where f = "\<lambda>x. x\<lparr>nd_prev := Some u\<rparr>", OF r1]) (simp_all add: Cons)
      moreover from calculation have "seg ?pl2 None (xs @ ys) None"
        unfolding snoc Cons by (simp only: seg_append [of _ _ "us @ [u]"] lasto_simps hdo.simps)
      ultimately show ?thesis by blast
    qed
  qed
qed

lemma link_before_seg:
  assumes "seg pl None (xs @ f # ys) None" and "distinct (p # xs @ f # ys)" and "p < length pl"
  shows "\<exists>pl'. seg pl' None (xs @ p # f # ys) None \<and> relinked (set (p # xs @ f # ys)) pl pl' \<and>
    (do { pl \<leftarrow> node_upd pl (Some p) (\<lambda>x. x\<lparr>nd_prev := lasto xs None\<rparr>);
          pl \<leftarrow> (if lasto xs None \<noteq> None then node_upd pl (lasto xs None) (\<lambda>z. z\<lparr>nd_next := Some p\<rparr>) else Some pl);
          pl \<leftarrow> node_upd pl (Some p) (\<lambda>x. x\<lparr>nd_next := Some f\<rparr>);
          node_upd pl (Some f) (\<lambda>y. y\<lparr>nd_prev := Some p\<rparr>) }) = Some pl'"
proof -
  have f: "f < length pl" "f \<noteq> p" "f \<notin> set ys" "p \<notin> set ys" and sf: "seg pl (Some f) ys None" "nd_next (pl ! f) = hdo ys None"
    using assms(1, 2) by (auto simp: seg_append)
  let ?A = "set (p # xs @ f # ys)"
  let ?p1 = "pl[p := (pl ! p)\<lparr>nd_prev := lasto xs None\<rparr>]"
  have r1: "relinked ?A pl ?p1" by (rule relinked_upd [where f = "\<lambda>x. x\<lparr>nd_prev := lasto xs None\<rparr>"]) simp_all
  show ?thesis
  proof (cases xs rule: rev_cases)
    case Nil
    let ?p2 = "?p1[p := (?p1 ! p)\<lparr>nd_next := Some f\<rparr>]"
    let ?p3 = "?p2[f := (?p2 ! f)\<lparr>nd_prev := Some p\<rparr>]"
    have r2: "relinked ?A pl ?p2" by (rule relinked_upd [where f = "\<lambda>x. x\<lparr>nd_next := Some f\<rparr>", OF r1]) simp_all
    have r3: "relinked ?A pl ?p3" by (rule relinked_upd [where f = "\<lambda>x. x\<lparr>nd_prev := Some p\<rparr>", OF r2]) simp_all
    have "seg ?p3 None (xs @ p # f # ys) None" using Nil f sf assms(2, 3) by simp
    with r3 show ?thesis using Nil f assms(3) by (intro exI [of _ ?p3]) simp
  next
    case (snoc us u)
    have u: "u < length pl" "u \<noteq> p" "u \<noteq> f" "u \<notin> set us" "u \<notin> set ys" "p \<notin> set us" "f \<notin> set us"
      and su: "seg pl None (us @ [u]) (Some f)"
      using assms(1, 2) snoc by (auto simp: seg_append)
    let ?q = "?p1[u := (?p1 ! u)\<lparr>nd_next := Some p\<rparr>]"
    let ?p2 = "?q[p := (?q ! p)\<lparr>nd_next := Some f\<rparr>]"
    let ?p3 = "?p2[f := (?p2 ! f)\<lparr>nd_prev := Some p\<rparr>]"
    have rq: "relinked ?A pl ?q"
      by (rule relinked_upd [where f = "\<lambda>x. x\<lparr>nd_next := Some p\<rparr>", OF r1]) (simp_all add: snoc)
    have r2: "relinked ?A pl ?p2" by (rule relinked_upd [where f = "\<lambda>x. x\<lparr>nd_next := Some f\<rparr>", OF rq]) simp_all
    have r3: "relinked ?A pl ?p3" by (rule relinked_upd [where f = "\<lambda>x. x\<lparr>nd_prev := Some p\<rparr>", OF r2]) simp_all
    have "seg ?p1 None (us @ [u]) (Some f)" using su u by simp
    then have "seg ?q None (us @ [u]) (Some p)" by (rule seg_next) (use u in simp)
    then have "seg ?p3 None (us @ [u]) (Some p)" using u by simp
    moreover have "seg ?p3 (Some u) (p # f # ys) None" using snoc u f sf assms(3) by simp
    ultimately have "seg ?p3 None (xs @ p # f # ys) None" unfolding snoc by (simp only: seg_append lasto_simps hdo.simps)
    with r3 show ?thesis using snoc u f assms(3) by (intro exI [of _ ?p3]) simp
  qed
qed

section \<open>The structure of a heap\<close>

text \<open>
  The nodes of the free list, of the list of allocated blocks, and the nodes in use outside
  both (during an operation).
\<close>

definition repr :: "Memmgr \<Rightarrow> nat list \<Rightarrow> nat list \<Rightarrow> nat list \<Rightarrow> bool" where
  "repr mm fs as xt \<longleftrightarrow> length (pool mm) = MAXNUM_POOL \<and> distinct (fs @ as @ xt) \<and>
     seg (pool mm) None fs None \<and> p_free mm = hdo fs None \<and>
     seg (pool mm) None as None \<and> p_alloc mm = hdo as None \<and> (\<forall>i\<in>set xt. i < MAXNUM_POOL) \<and>
     (\<forall>i < MAXNUM_POOL. i \<notin> set (fs @ as @ xt) \<longrightarrow> pool mm ! i = zero_node) \<and>
     (\<forall>i\<in>set (fs @ as @ xt). isused (pool mm ! i) = NODE_USED) \<and>
     num mm = of_nat (length (fs @ as @ xt))"

type_synonym block = "u64 \<times> u32"

definition blk :: "Memmgr \<Rightarrow> nat \<Rightarrow> block" where
  "blk mm i = (nd_base (pool mm ! i), nd_size (pool mm ! i))"

lemma reprD:
  assumes "repr mm fs as xt"
  shows "length (pool mm) = MAXNUM_POOL" "distinct (fs @ as @ xt)" "seg (pool mm) None fs None" "p_free mm = hdo fs None"
    "seg (pool mm) None as None" "p_alloc mm = hdo as None" "i \<in> set (fs @ as @ xt) \<Longrightarrow> i < MAXNUM_POOL"
    "i < MAXNUM_POOL \<Longrightarrow> i \<notin> set (fs @ as @ xt) \<Longrightarrow> pool mm ! i = zero_node"
    "i \<in> set (fs @ as @ xt) \<Longrightarrow> isused (pool mm ! i) = NODE_USED" "num mm = of_nat (length (fs @ as @ xt))"
  using assms unfolding repr_def by (auto dest: seg_index)

lemma repr_bound: "repr mm fs as xt \<Longrightarrow> length (fs @ as @ xt) \<le> MAXNUM_POOL"
  using card_mono [of "{..<MAXNUM_POOL}" "set (fs @ as @ xt)"] reprD(2, 7) [of mm fs as xt]
  by (metis card_lessThan distinct_card finite_lessThan lessThan_iff subsetI)

text \<open>Changing links inside one of the lists.\<close>

lemma repr_free_links:
  assumes "repr mm fs as xt" and "relinked A (pool mm) pl" and "seg pl None fs' None" and "A \<inter> set as = {}"
    and "set (fs @ xt) = set (fs' @ xt')" and "distinct (fs' @ xt')" and "A \<subseteq> set (fs @ xt)"
  shows "repr (mm\<lparr>p_free := hdo fs' None, pool := pl\<rparr>) fs' as xt'"
proof -
  note r = reprD [OF assms(1)]
  have "seg pl None as None" by (rule seg_frame [OF r(5)]) (use assms(2, 4) in \<open>auto simp: relinked_def\<close>)
  moreover have "distinct (fs' @ as @ xt')" using r(2) assms(5, 6) by auto
  moreover have "set (fs' @ as @ xt') = set (fs @ as @ xt)" using assms(5) by auto
  moreover from calculation have "length (fs' @ as @ xt') = length (fs @ as @ xt)"
    using r(2) by (metis distinct_card)
  then have "num mm = of_nat (length (fs' @ as @ xt'))" using r(10) by (simp only:)
  moreover have "pl ! i = zero_node" if "i < MAXNUM_POOL" "i \<notin> set (fs @ as @ xt)" for i
    using r(8) [OF that] assms(2, 7) that(2) by (auto simp: relinked_def)
  moreover have "isused (pl ! i) = NODE_USED" if "i \<in> set (fs @ as @ xt)" for i
    using r(9) [OF that] assms(2) by (simp add: relinked_def)
  moreover have "\<forall>i\<in>set xt'. i < MAXNUM_POOL" using r(7) assms(5) by auto
  ultimately show ?thesis
    using r(1, 6) assms(2, 3) unfolding repr_def by (simp add: relinked_def)
qed

lemma repr_alloc_links:
  assumes "repr mm fs as xt" and "relinked A (pool mm) pl" and "seg pl None as' None" and "A \<inter> set fs = {}"
    and "set (as @ xt) = set (as' @ xt')" and "distinct (as' @ xt')" and "A \<subseteq> set (as @ xt)"
  shows "repr (mm\<lparr>p_alloc := hdo as' None, pool := pl\<rparr>) fs as' xt'"
proof -
  note r = reprD [OF assms(1)]
  have "seg pl None fs None" by (rule seg_frame [OF r(3)]) (use assms(2, 4) in \<open>auto simp: relinked_def\<close>)
  moreover have "distinct (fs @ as' @ xt')" using r(2) assms(5, 6) by auto
  moreover have "set (fs @ as' @ xt') = set (fs @ as @ xt)" using assms(5) by auto
  moreover from calculation have "length (fs @ as' @ xt') = length (fs @ as @ xt)"
    using r(2) by (metis distinct_card)
  then have "num mm = of_nat (length (fs @ as' @ xt'))" using r(10) by (simp only:)
  moreover have "pl ! i = zero_node" if "i < MAXNUM_POOL" "i \<notin> set (fs @ as @ xt)" for i
    using r(8) [OF that] assms(2, 7) that(2) by (auto simp: relinked_def)
  moreover have "isused (pl ! i) = NODE_USED" if "i \<in> set (fs @ as @ xt)" for i
    using r(9) [OF that] assms(2) by (simp add: relinked_def)
  moreover have "\<forall>i\<in>set xt'. i < MAXNUM_POOL" using r(7) assms(5) by auto
  ultimately show ?thesis
    using r(1, 4) assms(2, 3) unfolding repr_def by (simp add: relinked_def)
qed

lemma relinked_blk: "relinked A (pool mm) pl \<Longrightarrow> blk (mm\<lparr>p_free := h, pool := pl\<rparr>) i = blk mm i"
  "relinked A (pool mm) pl \<Longrightarrow> blk (mm\<lparr>p_alloc := h, pool := pl\<rparr>) i = blk mm i"
  by (simp_all add: blk_def relinked_def)

lemma unlink_free:
  assumes "repr mm (xs @ i # ys) as xt"
  shows "\<exists>head pl. unlink (p_free mm) i (pool mm) = Some (head, pl) \<and>
    repr (mm\<lparr>p_free := head, pool := pl\<rparr>) (xs @ ys) as (i # xt) \<and> (\<forall>j. blk (mm\<lparr>p_free := head, pool := pl\<rparr>) j = blk mm j)"
proof -
  note r = reprD [OF assms]
  from r(2) have d: "distinct (xs @ i # ys)" by auto
  obtain pl where u: "unlink (p_free mm) i (pool mm) = Some (hdo (xs @ ys) None, pl)" "seg pl None (xs @ ys) None"
      "relinked (set (xs @ ys)) (pool mm) pl"
    using unlink_seg [OF r(3) d r(4)] by blast
  have "repr (mm\<lparr>p_free := hdo (xs @ ys) None, pool := pl\<rparr>) (xs @ ys) as (i # xt)"
    by (rule repr_free_links [OF assms u(3, 2)]) (use r(2) in auto)
  with u show ?thesis using relinked_blk(1) [OF u(3)] by blast
qed

lemma unlink_alloc:
  assumes "repr mm fs (xs @ i # ys) xt"
  shows "\<exists>head pl. unlink (p_alloc mm) i (pool mm) = Some (head, pl) \<and>
    repr (mm\<lparr>p_alloc := head, pool := pl\<rparr>) fs (xs @ ys) (i # xt) \<and> (\<forall>j. blk (mm\<lparr>p_alloc := head, pool := pl\<rparr>) j = blk mm j)"
proof -
  note r = reprD [OF assms]
  from r(2) have d: "distinct (xs @ i # ys)" by auto
  obtain pl where u: "unlink (p_alloc mm) i (pool mm) = Some (hdo (xs @ ys) None, pl)" "seg pl None (xs @ ys) None"
      "relinked (set (xs @ ys)) (pool mm) pl"
    using unlink_seg [OF r(5) d r(6)] by blast
  have "repr (mm\<lparr>p_alloc := hdo (xs @ ys) None, pool := pl\<rparr>) fs (xs @ ys) (i # xt)"
    by (rule repr_alloc_links [OF assms u(3, 2)]) (use r(2) in auto)
  with u show ?thesis using relinked_blk(2) [OF u(3)] by blast
qed

section \<open>The operations on a well-formed heap\<close>

lemma find_node_loop_Some:
  "find_node_loop k pl = Some i \<Longrightarrow> k \<le> i \<and> i < k + length pl \<and> isused (pl ! (i - k)) = NODE_FREE"
proof (induction pl arbitrary: k)
  case (Cons x pl)
  show ?case
  proof (cases "isused x = NODE_FREE")
    case False
    then have "find_node_loop (Suc k) pl = Some i" using Cons.prems by simp
    from Cons.IH [OF this] have h: "Suc k \<le> i" "i < Suc k + length pl" "isused (pl ! (i - Suc k)) = NODE_FREE" by auto
    then have "(x # pl) ! (i - k) = pl ! (i - Suc k)" by (simp add: nth_Cons')
    then show ?thesis using h by simp
  qed (use Cons.prems in simp)
qed simp

lemma find_node_loop_None: "find_node_loop k pl = None \<longleftrightarrow> (\<forall>x\<in>set pl. isused x \<noteq> NODE_FREE)"
  by (induction pl arbitrary: k) auto

lemma find_valid_node:
  assumes "repr mm fs as xt" and "length (fs @ as @ xt) < MAXNUM_POOL"
  shows "\<exists>n mm'. find_valid_node_from_pool mm = (Some n, mm') \<and> n \<notin> set (fs @ as @ xt) \<and> repr mm' fs as (n # xt) \<and>
    nd_prev (pool mm' ! n) = None \<and> (\<forall>j. j \<noteq> n \<longrightarrow> blk mm' j = blk mm j)"
proof -
  note r = reprD [OF assms(1)]
  obtain i where i: "i < MAXNUM_POOL" "i \<notin> set (fs @ as @ xt)"
  proof (rule ccontr)
    assume "\<not> thesis"
    with that have "{..<MAXNUM_POOL} \<subseteq> set (fs @ as @ xt)" by blast
    from card_mono [OF _ this] have "MAXNUM_POOL \<le> card (set (fs @ as @ xt))" by simp
    with card_length [of "fs @ as @ xt"] assms(2) show False by simp
  qed
  have "isused (pool mm ! i) = NODE_FREE" using r(8) [OF i] by (simp add: zero_node_def NODE_FREE_def)
  then have "find_node_loop 0 (pool mm) \<noteq> None" using i(1) r(1) by (auto simp: find_node_loop_None)
  then obtain n where n: "find_node_loop 0 (pool mm) = Some n" by blast
  from find_node_loop_Some [OF this] have n': "n < MAXNUM_POOL" "isused (pool mm ! n) = NODE_FREE" using r(1) by auto
  have free: "n \<notin> set (fs @ as @ xt)"
  proof
    assume "n \<in> set (fs @ as @ xt)"
    from r(9) [OF this] n'(2) show False by (simp add: NODE_FREE_def NODE_USED_def)
  qed
  define mm' where "mm' = mm\<lparr>pool := (pool mm)[n := (pool mm ! n)\<lparr>isused := NODE_USED\<rparr>], num := num mm + 1\<rparr>"
  have "find_valid_node_from_pool mm = (Some n, mm')" using n by (simp add: find_valid_node_from_pool_def mm'_def)
  moreover have "repr mm' fs as (n # xt)"
  proof -
    have "\<forall>i\<in>set (fs @ as @ n # xt). isused (pool mm' ! i) = NODE_USED"
      using r(1, 9) n'(1) by (auto simp: mm'_def nth_list_update)
    moreover have "\<forall>i<MAXNUM_POOL. i \<notin> set (fs @ as @ n # xt) \<longrightarrow> pool mm' ! i = zero_node"
      using r(1, 8) by (auto simp: mm'_def nth_list_update)
    moreover have "num mm' = of_nat (length (fs @ as @ n # xt))" using r(10) by (simp add: mm'_def)
    moreover have "\<forall>i\<in>set (n # xt). i < MAXNUM_POOL" using r(7) n'(1) by simp
    moreover have "distinct (fs @ as @ n # xt)" using r(2) free by auto
    moreover have "seg (pool mm') None fs None" "seg (pool mm') None as None" using r(3, 5) free by (simp_all add: mm'_def)
    ultimately show ?thesis using r(1, 4, 6) unfolding repr_def by (simp add: mm'_def)
  qed
  moreover have "nd_prev (pool mm' ! n) = None" using r(1) r(8) [OF n'(1) free] n'(1) by (simp add: mm'_def zero_node_def)
  moreover have "\<forall>j. j \<noteq> n \<longrightarrow> blk mm' j = blk mm j" by (simp add: mm'_def blk_def)
  ultimately show ?thesis using free by blast
qed

lemma find_valid_node_exhausted:
  assumes "repr mm fs as xt" and "length (fs @ as @ xt) = MAXNUM_POOL"
  shows "find_valid_node_from_pool mm = (None, mm)"
proof -
  note r = reprD [OF assms(1)]
  have "set (fs @ as @ xt) = {..<MAXNUM_POOL}"
    using distinct_card [OF r(2)] assms(2) r(7) by (intro card_subset_eq) auto
  then have "i \<in> set (fs @ as @ xt)" if "i < MAXNUM_POOL" for i using that by blast
  then have "\<forall>x\<in>set (pool mm). isused x \<noteq> NODE_FREE"
    using r(9) r(1) by (auto simp: in_set_conv_nth NODE_FREE_def NODE_USED_def)
  then show ?thesis by (simp add: find_valid_node_from_pool_def find_node_loop_None [THEN iffD2])
qed

lemma return_node:
  assumes "repr mm fs as (i # xt)"
  shows "\<exists>mm'. return_node_2_pool mm (Some i) = Some mm' \<and> repr mm' fs as xt \<and>
    (\<forall>j. j \<noteq> i \<longrightarrow> pool mm' ! j = pool mm ! j) \<and> p_free mm' = p_free mm \<and> p_alloc mm' = p_alloc mm"
proof -
  note r = reprD [OF assms]
  have i: "i < MAXNUM_POOL" "i \<notin> set (fs @ as @ xt)" using r(2, 7) by auto
  define mm' where "mm' = mm\<lparr>pool := (pool mm)[i := zero_node], num := num mm - 1\<rparr>"
  have "return_node_2_pool mm (Some i) = Some mm'" using r(1) i(1) by (simp add: return_node_2_pool_def mm'_def)
  moreover have "repr mm' fs as xt"
  proof -
    have "\<forall>j\<in>set (fs @ as @ xt). isused (pool mm' ! j) = NODE_USED"
      using r(1, 9) i by (auto simp: mm'_def nth_list_update)
    moreover have "\<forall>j<MAXNUM_POOL. j \<notin> set (fs @ as @ xt) \<longrightarrow> pool mm' ! j = zero_node"
      using r(1, 8) i(1) by (auto simp: mm'_def nth_list_update)
    moreover have "num mm' = of_nat (length (fs @ as @ xt))" using r(10) by (simp add: mm'_def)
    moreover have "seg (pool mm') None fs None" "seg (pool mm') None as None" using r(3, 5) i by (simp_all add: mm'_def)
    ultimately show ?thesis using r(1, 2, 4, 6, 7) unfolding repr_def by (simp add: mm'_def)
  qed
  ultimately show ?thesis by (auto simp: mm'_def)
qed

text \<open>Changing the block of one node.\<close>

lemma repr_block:
  assumes "repr mm fs as xt" and "i \<in> set (fs @ as @ xt)"
  shows "repr (mm\<lparr>pool := (pool mm)[i := (pool mm ! i)\<lparr>nd_base := b, nd_size := s\<rparr>]\<rparr>) fs as xt"
proof -
  note r = reprD [OF assms(1)]
  let ?pl = "(pool mm)[i := (pool mm ! i)\<lparr>nd_base := b, nd_size := s\<rparr>]"
  have l: "nd_prev (?pl ! j) = nd_prev (pool mm ! j)" "nd_next (?pl ! j) = nd_next (pool mm ! j)" "isused (?pl ! j) = isused (pool mm ! j)" for j
    by (cases "i < length (pool mm)"; cases "j = i"; simp add: list_update_beyond)+
  have "seg ?pl p js q = seg (pool mm) p js q" for p js q by (induction js arbitrary: p) (simp_all add: l)
  moreover have "?pl ! j = zero_node" if "j < MAXNUM_POOL" "j \<notin> set (fs @ as @ xt)" for j
  proof -
    have "j \<noteq> i" using that(2) assms(2) by blast
    then show ?thesis using r(8) [OF that] by simp
  qed
  ultimately show ?thesis using r(1-7, 9-10) l unfolding repr_def by simp
qed

text \<open>A fresh node becomes the head of the list of allocated blocks.\<close>

lemma push_alloc:
  assumes "repr mm fs as (n # xt)" and "nd_prev (pool mm ! n) = None"
  shows "\<exists>pl mm'. node_upd (pool mm) (Some n) (\<lambda>y. y\<lparr>nd_base := b, nd_size := s, nd_next := p_alloc mm\<rparr>) = Some pl \<and>
    nd_next (pl ! n) = p_alloc mm \<and> n < length pl \<and>
    (if p_alloc mm \<noteq> None then node_upd pl (p_alloc mm) (\<lambda>z. z\<lparr>nd_prev := Some n\<rparr>) else Some pl) = Some (pool mm') \<and>
    mm' = mm\<lparr>p_alloc := Some n, pool := pool mm'\<rparr> \<and>
    repr mm' fs (n # as) xt \<and> blk mm' n = (b, s) \<and> (\<forall>j. j \<noteq> n \<longrightarrow> blk mm' j = blk mm j)"
proof -
  note r = reprD [OF assms(1)]
  have n: "n < length (pool mm)" "n \<notin> set fs" "n \<notin> set as" using r(1, 2, 7) by auto
  define m1 where "m1 = mm\<lparr>pool := (pool mm)[n := (pool mm ! n)\<lparr>nd_base := b, nd_size := s\<rparr>]\<rparr>"
  have m1: "repr m1 fs as (n # xt)" unfolding m1_def by (rule repr_block [OF assms(1)]) simp
  note q = reprD [OF m1]
  have mn: "nd_prev (pool m1 ! n) = None" "blk m1 n = (b, s)" "p_alloc m1 = p_alloc mm" "j \<noteq> n \<Longrightarrow> blk m1 j = blk mm j" for j
    using assms(2) n by (simp_all add: m1_def blk_def)
  define pl where "pl = (pool m1)[n := (pool m1 ! n)\<lparr>nd_next := p_alloc mm\<rparr>]"
  have p1: "node_upd (pool mm) (Some n) (\<lambda>y. y\<lparr>nd_base := b, nd_size := s, nd_next := p_alloc mm\<rparr>) = Some pl"
    using n by (simp add: pl_def m1_def)
  have len: "n < length pl" "nd_next (pl ! n) = p_alloc mm" using n by (simp_all add: pl_def m1_def)
  have rl: "relinked (set (n # as)) (pool m1) pl"
    unfolding pl_def by (rule relinked_upd [where f = "\<lambda>x. x\<lparr>nd_next := p_alloc mm\<rparr>"]) simp_all
  have "\<exists>pl2. (if p_alloc mm \<noteq> None then node_upd pl (p_alloc mm) (\<lambda>z. z\<lparr>nd_prev := Some n\<rparr>) else Some pl) = Some pl2 \<and>
    relinked (set (n # as)) (pool m1) pl2 \<and> seg pl2 None (n # as) None"
  proof (cases as)
    case Nil
    then show ?thesis using r(6) rl mn(1) n by (simp add: pl_def m1_def)
  next
    case (Cons a bs)
    have a: "a < length (pool m1)" "a \<noteq> n" "a \<notin> set bs" "n \<notin> set bs" using q(1, 2, 7) Cons n by auto
    let ?pl = "pl[a := (pl ! a)\<lparr>nd_prev := Some n\<rparr>]"
    have "relinked (set (n # as)) (pool m1) ?pl"
      by (rule relinked_upd [where f = "\<lambda>x. x\<lparr>nd_prev := Some n\<rparr>", OF rl]) (simp_all add: Cons)
    moreover have "seg ?pl None (n # as) None"
      using q(5) mn(1) a n len r(6) Cons by (simp add: pl_def m1_def)
    moreover have "node_upd pl (p_alloc mm) (\<lambda>z. z\<lparr>nd_prev := Some n\<rparr>) = Some ?pl"
      using r(6) Cons a by (simp add: pl_def)
    moreover have "p_alloc mm \<noteq> None" using r(6) Cons by simp
    ultimately show ?thesis by (metis (no_types))
  qed
  then obtain pl2 where p2: "(if p_alloc mm \<noteq> None then node_upd pl (p_alloc mm) (\<lambda>z. z\<lparr>nd_prev := Some n\<rparr>) else Some pl) = Some pl2"
    and rl2: "relinked (set (n # as)) (pool m1) pl2" and sg2: "seg pl2 None (n # as) None" by blast
  let ?m = "m1\<lparr>p_alloc := hdo (n # as) None, pool := pl2\<rparr>"
  have rp: "repr ?m fs (n # as) xt"
    by (rule repr_alloc_links [OF m1 rl2 sg2]) (use r(2) n in auto)
  have bl: "blk ?m j = blk m1 j" for j using relinked_blk(2) [OF rl2] by simp
  have "?m = mm\<lparr>p_alloc := Some n, pool := pl2\<rparr>" by (simp add: m1_def)
  then show ?thesis using p1 p2 len rp bl mn by (intro exI [of _ pl] exI [of _ ?m]) simp
qed

lemma link_free_before:
  assumes "repr mm (xs @ f # ys) as (p # xt)" and "\<not> nd_base (pool mm ! f) < nd_base (pool mm ! p)"
  shows "\<exists>mm'. link_free mm p f = Some mm' \<and> repr mm' (xs @ p # f # ys) as xt \<and> (\<forall>j. blk mm' j = blk mm j)"
proof -
  note r = reprD [OF assms(1)]
  have p: "p < length (pool mm)" and f: "f < length (pool mm)" "nd_prev (pool mm ! f) = lasto xs None"
    using r(1, 3, 7) by (auto simp: seg_append)
  have d: "distinct (p # xs @ f # ys)" using r(2) by auto
  obtain pl where sg: "seg pl None (xs @ p # f # ys) None" and rl: "relinked (set (p # xs @ f # ys)) (pool mm) pl"
    and eq: "(do { pl \<leftarrow> node_upd (pool mm) (Some p) (\<lambda>x. x\<lparr>nd_prev := lasto xs None\<rparr>);
          pl \<leftarrow> (if lasto xs None \<noteq> None then node_upd pl (lasto xs None) (\<lambda>z. z\<lparr>nd_next := Some p\<rparr>) else Some pl);
          pl \<leftarrow> node_upd pl (Some p) (\<lambda>x. x\<lparr>nd_next := Some f\<rparr>);
          node_upd pl (Some f) (\<lambda>y. y\<lparr>nd_prev := Some p\<rparr>) }) = Some pl"
    using link_before_seg [OF r(3) d p] by blast
  let ?m = "mm\<lparr>p_free := hdo (xs @ p # f # ys) None, pool := pl\<rparr>"
  have "repr ?m (xs @ p # f # ys) as xt"
    by (rule repr_free_links [OF assms(1) rl sg]) (use r(2) in auto)
  moreover have "blk ?m j = blk mm j" for j using relinked_blk(1) [OF rl] .
  moreover have "link_free mm p f = Some ?m"
  proof -
    have h: "p_free (if lasto xs None = None then mm\<lparr>p_free := Some p\<rparr> else mm) = hdo (xs @ p # f # ys) None"
      using r(4) by (cases xs) (simp_all add: lasto_def)
    have "link_free mm p f = map_option (\<lambda>pl. (if lasto xs None = None then mm\<lparr>p_free := Some p\<rparr> else mm)\<lparr>pool := pl\<rparr>) (Some pl)"
      unfolding eq [symmetric] using p f assms(2)
      by (simp add: link_free_def Let_def bind_map_option map_option_bind comp_def cong: if_cong split: option.splits bind_splits)
    then show ?thesis using h by (auto split: if_splits)
  qed
  ultimately show ?thesis by blast
qed

lemma link_free_tail:
  assumes "repr mm (xs @ [f]) as (p # xt)" and "nd_base (pool mm ! f) < nd_base (pool mm ! p)"
  shows "\<exists>mm'. link_free mm p f = Some mm' \<and> repr mm' (xs @ [f, p]) as xt \<and> (\<forall>j. blk mm' j = blk mm j)"
proof -
  note r = reprD [OF assms(1)]
  have p: "p < length (pool mm)" "p \<noteq> f" "p \<notin> set xs" and f: "f < length (pool mm)" "f \<notin> set xs"
    using r(1, 2, 3, 7) by (auto simp: seg_append)
  let ?p1 = "(pool mm)[f := (pool mm ! f)\<lparr>nd_next := Some p\<rparr>]"
  let ?p2 = "?p1[p := (?p1 ! p)\<lparr>nd_prev := Some f, nd_next := None\<rparr>]"
  have "seg ?p1 None (xs @ [f]) (Some p)" by (rule seg_next [OF r(3)]) (use f in simp)
  then have "seg ?p2 None (xs @ [f]) (Some p)" using p by simp
  moreover have "seg ?p2 (Some f) [p] None" using p by simp
  ultimately have sg: "seg ?p2 None ((xs @ [f]) @ [p]) None" by (simp only: seg_append [of _ _ "xs @ [f]"] hdo.simps lasto_simps)
  have r1: "relinked (set (p # xs @ [f])) (pool mm) ?p1"
    by (rule relinked_upd [where f = "\<lambda>x. x\<lparr>nd_next := Some p\<rparr>"]) simp_all
  have rl: "relinked (set (p # xs @ [f])) (pool mm) ?p2"
    by (rule relinked_upd [where f = "\<lambda>x. x\<lparr>nd_prev := Some f, nd_next := None\<rparr>", OF r1]) simp_all
  let ?m = "mm\<lparr>p_free := hdo ((xs @ [f]) @ [p]) None, pool := ?p2\<rparr>"
  have "repr ?m ((xs @ [f]) @ [p]) as xt"
    by (rule repr_free_links [OF assms(1) rl sg]) (use r(2) in auto)
  moreover have "blk ?m j = blk mm j" for j using relinked_blk(1) [OF rl] .
  moreover have "link_free mm p f = Some ?m"
    using p f assms(2) r(4) by (simp add: link_free_def hdo_append)
  ultimately show ?thesis by (metis append.assoc append_Cons append_Nil)
qed

text \<open>Merging a free node into its predecessor.\<close>

definition adjacent :: "block \<Rightarrow> block \<Rightarrow> bool" where
  "adjacent x y \<longleftrightarrow> fst x + ucast (snd x) = fst y"

definition join :: "block \<Rightarrow> block \<Rightarrow> block" where
  "join x y = (fst x, snd x + snd y)"

lemma merge_first:
  assumes "repr mm (p # ys) as xt"
  shows "check_prevnode_and_merge mm (Some p) = Some (Some p, mm)"
  using reprD(1, 3, 7) [OF assms] by (simp add: check_prevnode_and_merge_def)

lemma merge_apart:
  assumes "repr mm (us @ u # p # ys) as xt" and "\<not> adjacent (blk mm u) (blk mm p)"
  shows "check_prevnode_and_merge mm (Some p) = Some (Some p, mm)"
  using reprD(1, 3, 7) [OF assms(1)] assms(2) by (simp add: check_prevnode_and_merge_def seg_append adjacent_def blk_def)

lemma merge_adjacent:
  assumes "repr mm (us @ u # p # ys) as xt" and "adjacent (blk mm u) (blk mm p)"
  shows "\<exists>mm'. check_prevnode_and_merge mm (Some p) = Some (Some u, mm') \<and> repr mm' (us @ u # ys) as xt \<and>
    blk mm' u = join (blk mm u) (blk mm p) \<and> (\<forall>j. j \<noteq> u \<and> j \<noteq> p \<longrightarrow> blk mm' j = blk mm j)"
proof -
  note r = reprD [OF assms(1)]
  have p: "p < length (pool mm)" "nd_prev (pool mm ! p) = Some u" "nd_next (pool mm ! p) = hdo ys None"
    and u: "u < length (pool mm)" "u \<noteq> p" "u \<notin> set us" "u \<notin> set ys" "p \<notin> set us" "p \<notin> set ys"
    using r(1, 2, 3, 7) by (auto simp: seg_append)
  let ?x = "pool mm ! p"
  define s where "s = nd_size (pool mm ! u) + nd_size ?x"
  define m1 where "m1 = mm\<lparr>pool := (pool mm)[u := (pool mm ! u)\<lparr>nd_base := nd_base (pool mm ! u), nd_size := s\<rparr>]\<rparr>"
  have m1: "repr m1 (us @ u # p # ys) as xt" unfolding m1_def by (rule repr_block [OF assms(1)]) simp
  note q = reprD [OF m1]
  define pl where "pl = (pool m1)[u := (pool m1 ! u)\<lparr>nd_next := hdo ys None\<rparr>]"
  have pl: "node_upd (pool mm) (Some u) (\<lambda>y. y\<lparr>nd_size := nd_size y + nd_size ?x, nd_next := hdo ys None\<rparr>) = Some pl"
    using u by (simp add: pl_def m1_def s_def)
  have rl: "relinked (set (us @ u # ys)) (pool m1) pl"
    unfolding pl_def by (rule relinked_upd [where f = "\<lambda>x. x\<lparr>nd_next := hdo ys None\<rparr>"]) simp_all
  have su: "seg (pool m1) None (us @ [u]) (Some p)" "seg (pool m1) (Some p) ys None" using q(3) by (simp_all add: seg_append)
  have s1: "seg pl None (us @ [u]) (hdo ys None)" unfolding pl_def by (rule seg_next [OF su(1)]) (use u in simp)
  have "\<exists>pl2. (if hdo ys None \<noteq> None then node_upd pl (hdo ys None) (\<lambda>y. y\<lparr>nd_prev := Some u\<rparr>) else Some pl) = Some pl2 \<and>
    relinked (set (us @ u # ys)) (pool m1) pl2 \<and> seg pl2 None (us @ u # ys) None"
  proof (cases ys)
    case Nil
    then show ?thesis using rl s1 by (metis hdo.simps(1))
  next
    case (Cons y zs)
    have y: "y < length pl" "y \<noteq> u" "y \<notin> set us" "y \<notin> set zs" "u \<notin> set zs"
      using q(1, 2, 7) Cons by (auto simp: pl_def)
    let ?pl = "pl[y := (pl ! y)\<lparr>nd_prev := Some u\<rparr>]"
    have "seg ?pl None (us @ [u]) (Some y)" using s1 Cons y by simp
    moreover have "seg pl (Some p) (y # zs) None" using su(2) Cons u by (simp add: pl_def)
    then have "seg ?pl (Some u) (y # zs) None" by (rule seg_prev) (use y in simp)
    ultimately have "seg ?pl None ((us @ [u]) @ (y # zs)) None"
      by (simp only: seg_append [of _ _ "us @ [u]"] hdo.simps lasto_simps)
    then have "seg ?pl None (us @ u # ys) None" using Cons by (metis append.assoc append_Cons append_Nil)
    moreover have "relinked (set (us @ u # ys)) (pool m1) ?pl"
      by (rule relinked_upd [where f = "\<lambda>x. x\<lparr>nd_prev := Some u\<rparr>", OF rl]) (simp_all add: Cons)
    ultimately show ?thesis using Cons y(1) by (metis hdo.simps(2) node_upd_Some option.distinct(1))
  qed
  then obtain pl2 where p2: "(if hdo ys None \<noteq> None then node_upd pl (hdo ys None) (\<lambda>y. y\<lparr>nd_prev := Some u\<rparr>) else Some pl) = Some pl2"
    and rl2: "relinked (set (us @ u # ys)) (pool m1) pl2" and sg: "seg pl2 None (us @ u # ys) None" by blast
  let ?m = "m1\<lparr>p_free := hdo (us @ u # ys) None, pool := pl2\<rparr>"
  have "repr ?m (us @ u # ys) as (p # xt)"
    by (rule repr_free_links [OF m1 rl2 sg]) (use r(2) in auto)
  from return_node [OF this] obtain mm' where ret: "return_node_2_pool ?m (Some p) = Some mm'" "repr mm' (us @ u # ys) as xt"
      "\<forall>j. j \<noteq> p \<longrightarrow> pool mm' ! j = pool ?m ! j" by blast
  have "?m = mm\<lparr>pool := pl2\<rparr>" using r(4) by (simp add: m1_def hdo_append)
  then have ret1: "return_node_2_pool (mm\<lparr>pool := pl2\<rparr>) (Some p) = Some mm'" using ret(1) by simp
  have "check_prevnode_and_merge mm (Some p) = Some (Some u, mm')"
    using p u assms(2) pl p2 ret1 by (cases "ys = []") (simp_all add: check_prevnode_and_merge_def adjacent_def blk_def)
  moreover have "blk mm' j = blk m1 j" if "j \<noteq> p" for j
    using ret(3) that relinked_blk(1) [OF rl2, of _ j] by (simp add: blk_def)
  moreover have "blk m1 u = join (blk mm u) (blk mm p)" "\<forall>j. j \<noteq> u \<longrightarrow> blk m1 j = blk mm j"
    using u by (simp_all add: m1_def blk_def join_def s_def)
  ultimately show ?thesis using ret(2) u(2) by simp
qed

text \<open>The searches.\<close>

lemma find_fit_seg:
  assumes "seg pl p js None" and "length js < fuel"
  shows "find_fit fuel pl sz (hdo js None) = Some (find (\<lambda>i. sz \<le> nd_size (pl ! i)) js)"
  using assms
proof (induction js arbitrary: p fuel)
  case (Cons i js)
  then show ?case by (cases fuel) auto
qed (auto simp: gr0_conv_Suc)

lemma find_base_seg:
  assumes "seg pl p js None" and "length js < fuel"
  shows "find_base fuel pl b (hdo js None) = Some (find (\<lambda>i. nd_base (pl ! i) = b) js)"
  using assms
proof (induction js arbitrary: p fuel)
  case (Cons i js)
  then show ?case by (cases fuel) auto
qed (auto simp: gr0_conv_Suc)

lemma find_place_before:
  assumes "seg pl p (xs @ f # ys) None" and "length xs < fuel" and "\<forall>i\<in>set xs. nd_base (pl ! i) < b" and "\<not> nd_base (pl ! f) < b"
  shows "find_place fuel pl b (hd (xs @ [f])) = Some f"
  using assms
proof (induction xs arbitrary: p fuel)
  case (Cons i xs)
  then obtain k where k: "fuel = Suc k" by (cases fuel) auto
  have "find_place k pl b (hd (xs @ [f])) = Some f"
    using Cons.prems k by (intro Cons.IH [of "Some i"]) auto
  moreover have "hdo (xs @ f # ys) None = Some (hd (xs @ [f]))" by (cases xs) simp_all
  ultimately show ?case using Cons.prems k by simp
qed (auto simp: gr0_conv_Suc)

lemma find_place_tail:
  assumes "seg pl p (xs @ [f]) None" and "length xs < fuel" and "\<forall>i\<in>set (xs @ [f]). nd_base (pl ! i) < b"
  shows "find_place fuel pl b (hd (xs @ [f])) = Some f"
  using assms
proof (induction xs arbitrary: p fuel)
  case (Cons i xs)
  then obtain k where k: "fuel = Suc k" by (cases fuel) auto
  have "find_place k pl b (hd (xs @ [f])) = Some f"
    using Cons.prems k by (intro Cons.IH [of "Some i"]) auto
  moreover have "hdo (xs @ [f]) None = Some (hd (xs @ [f]))" by (cases xs) simp_all
  ultimately show ?case using Cons.prems k by simp
qed (auto simp: gr0_conv_Suc)

end
