(* ===== verification/Mmgr_Heap.thy ===== *)
theory Mmgr_Heap
  imports Mmgr_Lists
begin

text \<open>
  What the heap promises: its two lists of blocks are changed by first fit and by ordered
  insertion with merging, and the blocks always tile the managed memory.
\<close>

section \<open>Allocation and release on lists of blocks\<close>

text \<open>The first half of an allocation, up to the new head of the list of allocated blocks.\<close>

lemma take_block_front:
  assumes "repr mm (xs @ p # ys) as []" and "length (xs @ p # ys @ as) < MAXNUM_POOL"
  shows "\<exists>n m2. repr m2 (xs @ p # ys) (n # as) [] \<and> n \<notin> set (xs @ p # ys @ as) \<and> blk m2 n = (fst (blk mm p), sz) \<and>
    (\<forall>j. j \<noteq> n \<longrightarrow> blk m2 j = blk mm j) \<and>
    take_block sz p mm =
      do { mm \<leftarrow>
             (if nd_size (pool m2 ! p) = sz
              then do { (head, pl) \<leftarrow> unlink (p_free m2) p (pool m2);
                        return_node_2_pool (m2\<lparr>p_free := head, pool := pl\<rparr>) (Some p) }
              else Some (m2\<lparr>pool := (pool m2)[p := (pool m2 ! p)\<lparr>nd_base := nd_base (pool m2 ! p) + ucast sz,
                               nd_size := nd_size (pool m2 ! p) - sz\<rparr>]\<rparr>));
           y \<leftarrow> node_rd (pool mm) (p_alloc mm);
           Some (nd_base y, mm) }"
proof -
  obtain n m1 where n: "find_valid_node_from_pool mm = (Some n, m1)" "n \<notin> set (xs @ p # ys @ as)"
      "repr m1 (xs @ p # ys) as [n]" "nd_prev (pool m1 ! n) = None" "\<forall>j. j \<noteq> n \<longrightarrow> blk m1 j = blk mm j"
    using find_valid_node [OF assms(1)] assms(2) by auto
  have p: "p \<noteq> n" "p < length (pool m1)" using n(2) reprD(1, 7) [OF n(3)] by auto
  obtain pl m2 where pl: "node_upd (pool m1) (Some n) (\<lambda>y. y\<lparr>nd_base := fst (blk mm p), nd_size := sz, nd_next := p_alloc m1\<rparr>) = Some pl"
      "nd_next (pl ! n) = p_alloc m1" "n < length pl"
      "(if p_alloc m1 \<noteq> None then node_upd pl (p_alloc m1) (\<lambda>z. z\<lparr>nd_prev := Some n\<rparr>) else Some pl) = Some (pool m2)"
      "m2 = m1\<lparr>p_alloc := Some n, pool := pool m2\<rparr>" "repr m2 (xs @ p # ys) (n # as) []"
      "blk m2 n = (fst (blk mm p), sz)" "\<forall>j. j \<noteq> n \<longrightarrow> blk m2 j = blk m1 j"
    using push_alloc [OF n(3, 4)] by metis
  have p2: "p < length (pool m2)" using reprD(1, 7) [OF pl(6)] by auto
  have x: "nd_base (pool m1 ! p) = fst (blk mm p)" using n(5) p(1) by (auto simp: blk_def)
  have 2: "m1\<lparr>p_alloc := Some n, pool := pool m2\<rparr> = m2" using pl(5) by (rule sym)
  show ?thesis
    using n(2, 5) pl(6-8) p(1)
  proof (intro exI [of _ n] exI [of _ m2] conjI)
    show "take_block sz p mm =
      do { mm \<leftarrow>
             (if nd_size (pool m2 ! p) = sz
              then do { (head, pl) \<leftarrow> unlink (p_free m2) p (pool m2);
                        return_node_2_pool (m2\<lparr>p_free := head, pool := pl\<rparr>) (Some p) }
              else Some (m2\<lparr>pool := (pool m2)[p := (pool m2 ! p)\<lparr>nd_base := nd_base (pool m2 ! p) + ucast sz,
                               nd_size := nd_size (pool m2 ! p) - sz\<rparr>]\<rparr>));
           y \<leftarrow> node_rd (pool mm) (p_alloc mm);
           Some (nd_base y, mm) }"
      using p(2) p2 pl(1-4)
      by (cases "p_alloc m1") (simp_all add: take_block_def n(1) x Let_def 2)
  qed auto
qed

lemma take_block_shrink:
  assumes "repr mm (xs @ p # ys) as []" and "length (xs @ p # ys @ as) < MAXNUM_POOL" and "snd (blk mm p) \<noteq> sz"
  shows "\<exists>n mm'. take_block sz p mm = Some (fst (blk mm p), mm') \<and> repr mm' (xs @ p # ys) (n # as) [] \<and>
    map (blk mm') (n # as) = (fst (blk mm p), sz) # map (blk mm) as \<and>
    map (blk mm') (xs @ p # ys) = map (blk mm) xs @ (fst (blk mm p) + ucast sz, snd (blk mm p) - sz) # map (blk mm) ys"
proof -
  obtain n m2 where m2: "repr m2 (xs @ p # ys) (n # as) []" "n \<notin> set (xs @ p # ys @ as)" "blk m2 n = (fst (blk mm p), sz)"
      "\<forall>j. j \<noteq> n \<longrightarrow> blk m2 j = blk mm j" and tk: "take_block sz p mm =
      do { mm \<leftarrow>
             (if nd_size (pool m2 ! p) = sz
              then do { (head, pl) \<leftarrow> unlink (p_free m2) p (pool m2);
                        return_node_2_pool (m2\<lparr>p_free := head, pool := pl\<rparr>) (Some p) }
              else Some (m2\<lparr>pool := (pool m2)[p := (pool m2 ! p)\<lparr>nd_base := nd_base (pool m2 ! p) + ucast sz,
                               nd_size := nd_size (pool m2 ! p) - sz\<rparr>]\<rparr>));
           y \<leftarrow> node_rd (pool mm) (p_alloc mm);
           Some (nd_base y, mm) }"
    using take_block_front [OF assms(1, 2)] by blast
  note r = reprD [OF m2(1)]
  have p: "p < length (pool m2)" "p \<noteq> n" "blk m2 p = blk mm p" "n < length (pool m2)" using r(1, 7) m2(2, 4) by auto
  define m3 where "m3 = m2\<lparr>pool := (pool m2)[p := (pool m2 ! p)\<lparr>nd_base := nd_base (pool m2 ! p) + ucast sz,
      nd_size := nd_size (pool m2 ! p) - sz\<rparr>]\<rparr>"
  have r3: "repr m3 (xs @ p # ys) (n # as) []" unfolding m3_def by (rule repr_block [OF m2(1)]) simp
  have b3: "blk m3 p = (fst (blk mm p) + ucast sz, snd (blk mm p) - sz)" "j \<noteq> p \<Longrightarrow> blk m3 j = blk m2 j" for j
    unfolding p(3) [symmetric] using p(1) by (auto simp: m3_def blk_def)
  have "nd_size (pool m2 ! p) \<noteq> sz" using p(3) assms(3) by (auto simp: blk_def)
  moreover have "node_rd (pool m3) (p_alloc m3) = Some (pool m3 ! n)" "nd_base (pool m3 ! n) = fst (blk mm p)"
    using reprD(6) [OF r3] b3(2) [of n] p(2, 4) m2(3) by (auto simp: blk_def m3_def)
  ultimately have "take_block sz p mm = Some (fst (blk mm p), m3)" unfolding tk by (simp add: m3_def)
  moreover have bl: "blk m3 j = blk mm j" if "j \<in> set (xs @ ys @ as)" for j
  proof -
    have "j \<noteq> p" "j \<noteq> n" using that r(2) m2(2) by auto
    then show ?thesis using b3(2) m2(4) by simp
  qed
  moreover have "map (blk m3) (n # as) = (fst (blk mm p), sz) # map (blk mm) as"
    using bl b3(2) [of n] m2(3) p(2) by simp
  moreover have "map (blk m3) (xs @ p # ys) = map (blk mm) xs @ (fst (blk mm p) + ucast sz, snd (blk mm p) - sz) # map (blk mm) ys"
    using bl b3(1) by simp
  ultimately show ?thesis using r3 by (intro exI [of _ n] exI [of _ m3] conjI)
qed

lemma take_block_whole:
  assumes "repr mm (xs @ p # ys) as []" and "length (xs @ p # ys @ as) < MAXNUM_POOL" and "snd (blk mm p) = sz"
  shows "\<exists>n mm'. take_block sz p mm = Some (fst (blk mm p), mm') \<and> repr mm' (xs @ ys) (n # as) [] \<and>
    map (blk mm') (n # as) = (fst (blk mm p), sz) # map (blk mm) as \<and> map (blk mm') (xs @ ys) = map (blk mm) (xs @ ys)"
proof -
  obtain n m2 where m2: "repr m2 (xs @ p # ys) (n # as) []" "n \<notin> set (xs @ p # ys @ as)" "blk m2 n = (fst (blk mm p), sz)"
      "\<forall>j. j \<noteq> n \<longrightarrow> blk m2 j = blk mm j" and tk: "take_block sz p mm =
      do { mm \<leftarrow>
             (if nd_size (pool m2 ! p) = sz
              then do { (head, pl) \<leftarrow> unlink (p_free m2) p (pool m2);
                        return_node_2_pool (m2\<lparr>p_free := head, pool := pl\<rparr>) (Some p) }
              else Some (m2\<lparr>pool := (pool m2)[p := (pool m2 ! p)\<lparr>nd_base := nd_base (pool m2 ! p) + ucast sz,
                               nd_size := nd_size (pool m2 ! p) - sz\<rparr>]\<rparr>));
           y \<leftarrow> node_rd (pool mm) (p_alloc mm);
           Some (nd_base y, mm) }"
    using take_block_front [OF assms(1, 2)] by blast
  note r = reprD [OF m2(1)]
  have p: "p < length (pool m2)" "p \<noteq> n" "blk m2 p = blk mm p" "n < length (pool m2)" using r(1, 7) m2(2, 4) by auto
  obtain head pl where ul: "unlink (p_free m2) p (pool m2) = Some (head, pl)"
      "repr (m2\<lparr>p_free := head, pool := pl\<rparr>) (xs @ ys) (n # as) [p]" "\<forall>j. blk (m2\<lparr>p_free := head, pool := pl\<rparr>) j = blk m2 j"
    using unlink_free [OF m2(1)] by blast
  obtain m3 where m3: "return_node_2_pool (m2\<lparr>p_free := head, pool := pl\<rparr>) (Some p) = Some m3" "repr m3 (xs @ ys) (n # as) []"
      "\<forall>j. j \<noteq> p \<longrightarrow> pool m3 ! j = pool (m2\<lparr>p_free := head, pool := pl\<rparr>) ! j"
    using return_node [OF ul(2)] by blast
  have b3: "blk m3 j = blk m2 j" if "j \<noteq> p" for j using that m3(3) ul(3) by (simp add: blk_def)
  have "nd_size (pool m2 ! p) = sz" using p(3) assms(3) by (auto simp: blk_def)
  moreover have "node_rd (pool m3) (p_alloc m3) = Some (pool m3 ! n)" "nd_base (pool m3 ! n) = fst (blk mm p)"
    using reprD(1, 6, 7) [OF m3(2)] b3 [of n] p(2) m2(3) by (auto simp: blk_def)
  ultimately have "take_block sz p mm = Some (fst (blk mm p), m3)" unfolding tk using ul(1) m3(1) by simp
  moreover have bl: "blk m3 j = blk mm j" if "j \<in> set (xs @ ys @ as)" for j
  proof -
    have "j \<noteq> p" "j \<noteq> n" using that r(2) m2(2) by auto
    then show ?thesis using b3 m2(4) by simp
  qed
  moreover have "map (blk m3) (n # as) = (fst (blk mm p), sz) # map (blk mm) as"
    using bl b3 [of n] m2(3) p(2) by simp
  ultimately show ?thesis using m3(2) by (intro exI [of _ n] exI [of _ m3]) simp
qed

text \<open>Ordered insertion of a block between two runs of free blocks, with merging on both sides.\<close>

definition glue_left :: "block list \<Rightarrow> block \<Rightarrow> block list" where
  "glue_left xs x = (if xs \<noteq> [] \<and> adjacent (last xs) x then butlast xs @ [join (last xs) x] else xs @ [x])"

definition glue_right :: "block list \<Rightarrow> block \<Rightarrow> block list \<Rightarrow> block list" where
  "glue_right xs y ys = (if adjacent (last xs) y then butlast xs @ join (last xs) y # ys else xs @ y # ys)"

lemma merge_left:
  assumes "repr mm (xs @ p # zs) as []"
  shows "\<exists>c us mm'. check_prevnode_and_merge mm (Some p) = Some (Some c, mm') \<and> repr mm' (us @ c # zs) as [] \<and>
    map (blk mm') (us @ [c]) = glue_left (map (blk mm) xs) (blk mm p) \<and>
    map (blk mm') zs = map (blk mm) zs \<and> map (blk mm') as = map (blk mm) as"
proof (cases xs rule: rev_cases)
  case Nil
  then show ?thesis using merge_first [of mm p zs as "[]"] assms by (intro exI [of _ p] exI [of _ "[]"] exI [of _ mm]) (simp add: glue_left_def)
next
  case (snoc us u)
  have r: "repr mm (us @ u # p # zs) as []" using assms snoc by simp
  show ?thesis
  proof (cases "adjacent (blk mm u) (blk mm p)")
    case True
    obtain mm' where m: "check_prevnode_and_merge mm (Some p) = Some (Some u, mm')" "repr mm' (us @ u # zs) as []"
        "blk mm' u = join (blk mm u) (blk mm p)" "\<forall>j. j \<noteq> u \<and> j \<noteq> p \<longrightarrow> blk mm' j = blk mm j"
      using merge_adjacent [OF r True] by blast
    have "blk mm' j = blk mm j" if "j \<in> set (us @ zs @ as)" for j
    proof -
      have "j \<noteq> u \<and> j \<noteq> p" using that reprD(2) [OF r] by auto
      then show ?thesis using m(4) by blast
    qed
    then show ?thesis using m(1-3) True snoc by (intro exI [of _ u] exI [of _ us] exI [of _ mm']) (simp add: glue_left_def)
  next
    case False
    then show ?thesis using merge_apart [OF r False] assms snoc
      by (intro exI [of _ p] exI [of _ xs] exI [of _ mm]) (simp add: glue_left_def)
  qed
qed

lemma merge_right:
  assumes "repr mm (xs @ c # f # ys) as []"
  shows "\<exists>q fs mm'. check_prevnode_and_merge mm (Some f) = Some (q, mm') \<and> repr mm' fs as [] \<and>
    map (blk mm') fs = glue_right (map (blk mm) (xs @ [c])) (blk mm f) (map (blk mm) ys) \<and> map (blk mm') as = map (blk mm) as"
proof (cases "adjacent (blk mm c) (blk mm f)")
  case True
  obtain mm' where m: "check_prevnode_and_merge mm (Some f) = Some (Some c, mm')" "repr mm' (xs @ c # ys) as []"
      "blk mm' c = join (blk mm c) (blk mm f)" "\<forall>j. j \<noteq> c \<and> j \<noteq> f \<longrightarrow> blk mm' j = blk mm j"
    using merge_adjacent [OF assms True] by blast
  have "blk mm' j = blk mm j" if "j \<in> set (xs @ ys @ as)" for j
  proof -
    have "j \<noteq> c \<and> j \<noteq> f" using that reprD(2) [OF assms] by auto
    then show ?thesis using m(4) by blast
  qed
  then show ?thesis using m(1-3) True
    by (intro exI [of _ "Some c"] exI [of _ "xs @ c # ys"] exI [of _ mm']) (simp add: glue_right_def butlast_append)
next
  case False
  then show ?thesis using merge_apart [OF assms False] assms
    by (intro exI [of _ "Some f"] exI [of _ "xs @ c # f # ys"] exI [of _ mm]) (simp add: glue_right_def)
qed

lemma insert_before:
  assumes "repr mm (xs @ f # ys) as [p]" and "\<forall>i\<in>set xs. fst (blk mm i) < fst (blk mm p)" and "\<not> fst (blk mm f) < fst (blk mm p)"
  shows "\<exists>fs mm'. insert_node_2_free mm p = Some mm' \<and> repr mm' fs as [] \<and> map (blk mm') as = map (blk mm) as \<and>
    map (blk mm') fs = glue_right (glue_left (map (blk mm) xs) (blk mm p)) (blk mm f) (map (blk mm) ys)"
proof -
  note r = reprD [OF assms(1)]
  have p: "p < length (pool mm)" using r(1, 7) by simp
  have hd: "p_free mm = Some (hd (xs @ [f]))" using r(4) by (cases xs) simp_all
  have place: "find_place (Suc MAXNUM_POOL) (pool mm) (nd_base (pool mm ! p)) (hd (xs @ [f])) = Some f"
    by (rule find_place_before [OF r(3)]) (use repr_bound [OF assms(1)] assms(2, 3) in \<open>auto simp: blk_def\<close>)
  obtain m1 where m1: "link_free mm p f = Some m1" "repr m1 (xs @ p # f # ys) as []" "\<forall>j. blk m1 j = blk mm j"
    using link_free_before [OF assms(1)] assms(3) by (auto simp: blk_def)
  obtain c us m2 where m2: "check_prevnode_and_merge m1 (Some p) = Some (Some c, m2)" "repr m2 (us @ c # f # ys) as []"
      "map (blk m2) (us @ [c]) = glue_left (map (blk m1) xs) (blk m1 p)"
      "map (blk m2) (f # ys) = map (blk m1) (f # ys)" "map (blk m2) as = map (blk m1) as"
    using merge_left [OF m1(2)] by blast
  have c: "node_rd (pool m2) (Some c) = Some (pool m2 ! c)" "nd_next (pool m2 ! c) = Some f"
    using reprD(1, 3, 7) [OF m2(2)] by (auto simp: seg_append)
  obtain q fs m3 where m3: "check_prevnode_and_merge m2 (Some f) = Some (q, m3)" "repr m3 fs as []"
      "map (blk m3) fs = glue_right (map (blk m2) (us @ [c])) (blk m2 f) (map (blk m2) ys)" "map (blk m3) as = map (blk m2) as"
    using merge_right [OF m2(2)] by blast
  have "insert_node_2_free mm p = Some m3"
    unfolding insert_node_2_free_def hd using p place m1(1) m2(1) c m3(1)
    by (simp del: find_place.simps)
  moreover have "map (blk m3) fs = glue_right (glue_left (map (blk mm) xs) (blk mm p)) (blk mm f) (map (blk mm) ys)"
    using m3(3) m2(3, 4) m1(3) by (simp cong: map_cong)
  moreover have "map (blk m3) as = map (blk mm) as" using m3(4) m2(5) m1(3) by (simp cong: map_cong)
  ultimately show ?thesis using m3(2) by (intro exI conjI)
qed

lemma insert_empty:
  assumes "repr mm [] as [p]"
  shows "\<exists>mm'. insert_node_2_free mm p = Some mm' \<and> repr mm' [p] as [] \<and> (\<forall>j. blk mm' j = blk mm j)"
proof -
  note r = reprD [OF assms]
  have p: "p < length (pool mm)" using r(1, 7) by simp
  let ?pl = "(pool mm)[p := (pool mm ! p)\<lparr>nd_prev := None, nd_next := None\<rparr>]"
  have rl: "relinked {p} (pool mm) ?pl"
    by (rule relinked_upd [where f = "\<lambda>x. x\<lparr>nd_prev := None, nd_next := None\<rparr>"]) simp_all
  have "repr (mm\<lparr>p_free := hdo [p] None, pool := ?pl\<rparr>) [p] as []"
    by (rule repr_free_links [OF assms rl]) (use r(2) p in auto)
  moreover have "insert_node_2_free mm p = Some (mm\<lparr>p_free := hdo [p] None, pool := ?pl\<rparr>)"
    using r(4) p by (simp add: insert_node_2_free_def)
  ultimately show ?thesis using relinked_blk(1) [OF rl] by blast
qed

text \<open>Inserting behind the last free block follows the null pointer after it.\<close>

lemma insert_tail_faults:
  assumes "repr mm fs as [p]" and "fs \<noteq> []" and "\<forall>i\<in>set fs. fst (blk mm i) < fst (blk mm p)"
  shows "insert_node_2_free mm p = None"
proof -
  note r = reprD [OF assms(1)]
  obtain xs f where fs: "fs = xs @ [f]" using assms(2) by (metis append_butlast_last_id)
  have p: "p < length (pool mm)" using r(1, 7) by simp
  have hd: "p_free mm = Some (hd (xs @ [f]))" using r(4) fs by (cases xs) simp_all
  have place: "find_place (Suc MAXNUM_POOL) (pool mm) (nd_base (pool mm ! p)) (hd (xs @ [f])) = Some f"
    by (rule find_place_tail [OF r(3) [unfolded fs]]) (use repr_bound [OF assms(1)] assms(3) fs in \<open>auto simp: blk_def\<close>)
  obtain m1 where m1: "link_free mm p f = Some m1" "repr m1 (xs @ [f, p]) as []" "\<forall>j. blk m1 j = blk mm j"
    using link_free_tail [of mm xs f as p "[]"] assms(1, 3) fs by (auto simp: blk_def)
  have "repr m1 ((xs @ [f]) @ p # []) as []" using m1(2) by simp
  from merge_left [OF this] obtain c us m2 where m2: "check_prevnode_and_merge m1 (Some p) = Some (Some c, m2)" "repr m2 (us @ [c]) as []"
    by auto
  have "node_rd (pool m2) (Some c) = Some (pool m2 ! c)" "nd_next (pool m2 ! c) = None"
    using reprD(1, 3, 7) [OF m2(2)] by (auto simp: seg_append)
  moreover have "check_prevnode_and_merge m2 None = None" by (simp add: check_prevnode_and_merge_def)
  ultimately show ?thesis
    unfolding insert_node_2_free_def hd using p place m1(1) m2(1)
    by (simp del: find_place.simps)
qed

section \<open>The operations, as functions on lists of blocks\<close>

definition heap_is :: "Memmgr \<Rightarrow> block list \<Rightarrow> block list \<Rightarrow> bool" where
  "heap_is mm free alloc \<longleftrightarrow> (\<exists>fs as. repr mm fs as [] \<and> map (blk mm) fs = free \<and> map (blk mm) as = alloc)"

text \<open>First fit: the address, and the free blocks that remain.\<close>

fun fit :: "u32 \<Rightarrow> block list \<Rightarrow> (u64 \<times> block list) option" where
  "fit sz [] = None"
| "fit sz ((b, s) # fs) =
     (if sz \<le> s then Some (b, if s = sz then fs else (b + ucast sz, s - sz) # fs)
      else map_option (\<lambda>(a, fs'). (a, (b, s) # fs')) (fit sz fs))"

lemma fit_None: "fit sz fs = None \<longleftrightarrow> (\<forall>x\<in>set fs. \<not> sz \<le> snd x)"
  by (induction fs) (auto split: if_splits)

lemma find_split: "find P xs = Some x \<Longrightarrow> \<exists>us vs. xs = us @ x # vs \<and> P x \<and> (\<forall>u\<in>set us. \<not> P u)"
proof (induction xs)
  case (Cons y xs)
  show ?case
  proof (cases "P y")
    case True
    then show ?thesis using Cons.prems by (intro exI [of _ "[]"] exI [of _ xs]) simp
  next
    case False
    then obtain us vs where "xs = us @ x # vs" "P x" "\<forall>u\<in>set us. \<not> P u" using Cons by auto
    then show ?thesis using False by (intro exI [of _ "y # us"] exI [of _ vs]) simp
  qed
qed simp

lemma fit_split:
  assumes "\<forall>x\<in>set us. \<not> sz \<le> snd x" and "sz \<le> s"
  shows "fit sz (us @ (b, s) # vs) = Some (b, us @ (if s = sz then vs else (b + ucast sz, s - sz) # vs))"
  using assms by (induction us) auto

lemma take_block_region:
  "take_block sz p mm = Some (a, mm') \<Longrightarrow> membase mm' = membase mm \<and> totalsize mm' = totalsize mm"
  by (auto simp: take_block_def find_valid_node_from_pool_def return_node_2_pool_def Let_def
      split: option.splits if_splits bind_splits prod.splits)

lemma merge_region:
  "check_prevnode_and_merge mm p = Some (q, mm') \<Longrightarrow> membase mm' = membase mm \<and> totalsize mm' = totalsize mm"
  by (auto simp: check_prevnode_and_merge_def return_node_2_pool_def split: option.splits if_splits bind_splits)

lemma insert_region:
  "insert_node_2_free mm p = Some mm' \<Longrightarrow> membase mm' = membase mm \<and> totalsize mm' = totalsize mm"
  by (auto simp: insert_node_2_free_def link_free_def Let_def dest!: merge_region
      split: option.splits if_splits bind_splits)

lemma take_block_heap:
  assumes "repr mm (xs @ p # ys) as []" and "length (xs @ p # ys @ as) < MAXNUM_POOL" and "\<forall>i\<in>set xs. \<not> sz \<le> snd (blk mm i)"
    and "sz \<le> snd (blk mm p)"
  shows "\<exists>a free' mm'. fit sz (map (blk mm) (xs @ p # ys)) = Some (a, free') \<and> take_block sz p mm = Some (a, mm') \<and>
    heap_is mm' free' ((a, sz) # map (blk mm) as)"
proof -
  obtain b s where b: "blk mm p = (b, s)" by (cases "blk mm p")
  have f: "fit sz (map (blk mm) (xs @ p # ys)) =
      Some (b, map (blk mm) xs @ (if s = sz then map (blk mm) ys else (b + ucast sz, s - sz) # map (blk mm) ys))"
    using fit_split [of "map (blk mm) xs" sz s b "map (blk mm) ys"] assms(3, 4) b by simp
  show ?thesis
  proof (cases "s = sz")
    case True
    then have "snd (blk mm p) = sz" using b by simp
    from take_block_whole [OF assms(1, 2) this] obtain n mm' where "take_block sz p mm = Some (fst (blk mm p), mm')"
        "repr mm' (xs @ ys) (n # as) []" "map (blk mm') (n # as) = (fst (blk mm p), sz) # map (blk mm) as"
        "map (blk mm') (xs @ ys) = map (blk mm) (xs @ ys)" by (elim exE conjE)
    then show ?thesis using f True b unfolding heap_is_def by fastforce
  next
    case False
    then have "snd (blk mm p) \<noteq> sz" using b by simp
    from take_block_shrink [OF assms(1, 2) this] obtain n mm' where "take_block sz p mm = Some (fst (blk mm p), mm')"
        "repr mm' (xs @ p # ys) (n # as) []" "map (blk mm') (n # as) = (fst (blk mm p), sz) # map (blk mm) as"
        "map (blk mm') (xs @ p # ys) = map (blk mm) xs @ (fst (blk mm p) + ucast sz, snd (blk mm p) - sz) # map (blk mm) ys"
      by (elim exE conjE)
    then show ?thesis using f False b unfolding heap_is_def by fastforce
  qed
qed

lemma heap_is_num:
  assumes "heap_is mm free alloc"
  shows "unat (num mm) = length free + length alloc" and "length free + length alloc \<le> MAXNUM_POOL"
proof -
  obtain fs as where r: "repr mm fs as []" "map (blk mm) fs = free" "map (blk mm) as = alloc"
    using assms by (auto simp: heap_is_def)
  have l: "length fs = length free" "length as = length alloc" using r(2, 3) by auto
  show b: "length free + length alloc \<le> MAXNUM_POOL" using repr_bound [OF r(1)] l by simp
  have "num mm = of_nat (length free + length alloc)" using reprD(10) [OF r(1)] l by simp
  then show "unat (num mm) = length free + length alloc"
    using b by (simp add: unat_of_nat MAXNUM_POOL_def del: of_nat_add)
qed

lemma num_not_above:
  assumes "heap_is mm free alloc"
  shows "\<not> of_nat MAXNUM_POOL < num mm"
  using heap_is_num [OF assms] by (simp add: word_less_nat_alt MAXNUM_POOL_def)

lemma alloc_heap:
  assumes "heap_is mm free alloc" and "g t = Some mm" and "0 < bytes" and "round_size t bytes = Some r"
  shows "fit (of_int r) free = None \<Longrightarrow> mmgr_alloc_by_type t bytes g = Some (0, g)"
    and "fit (of_int r) free = Some (a, free') \<Longrightarrow> length free + length alloc < MAXNUM_POOL \<Longrightarrow>
      \<exists>mm'. mmgr_alloc_by_type t bytes g = Some (a, g(t \<mapsto> mm')) \<and> heap_is mm' free' ((a, of_int r) # alloc) \<and>
        membase mm' = membase mm \<and> totalsize mm' = totalsize mm"
    and "fit (of_int r) free = Some (a, free') \<Longrightarrow> length free + length alloc = MAXNUM_POOL \<Longrightarrow> mmgr_alloc_by_type t bytes g = None"
proof -
  obtain fs as where h: "repr mm fs as []" "map (blk mm) fs = free" "map (blk mm) as = alloc"
    using assms(1) by (auto simp: heap_is_def)
  note q = reprD [OF h(1)]
  let ?sz = "of_int r :: u32"
  have len: "length fs = length free" "length as = length alloc" using h(2, 3) by auto
  have ff: "find_fit (Suc MAXNUM_POOL) (pool mm) ?sz (p_free mm) = Some (find (\<lambda>i. ?sz \<le> snd (blk mm i)) fs)"
    unfolding q(4) using find_fit_seg [OF q(3), of "Suc MAXNUM_POOL" ?sz] repr_bound [OF h(1)]
    by (simp add: blk_def del: find_fit.simps)
  have al: "mmgr_alloc_by_type t bytes g =
      (case find (\<lambda>i. ?sz \<le> snd (blk mm i)) fs of None \<Rightarrow> Some (0, g)
       | Some p \<Rightarrow> do { (a, mm') \<leftarrow> take_block ?sz p mm; Some (a, g(t \<mapsto> mm')) })"
    using assms(2-4) num_not_above [OF assms(1)] ff
    by (simp add: mmgr_alloc_by_type_def Let_def del: find_fit.simps)
  show "mmgr_alloc_by_type t bytes g = Some (0, g)" if "fit ?sz free = None"
  proof -
    have "find (\<lambda>i. ?sz \<le> snd (blk mm i)) fs = None" using that h(2) by (auto simp: fit_None find_None_iff)
    then show ?thesis using al by simp
  qed
  have found: "\<exists>xs p ys. fs = xs @ p # ys \<and> find (\<lambda>i. ?sz \<le> snd (blk mm i)) fs = Some p \<and>
      (\<forall>i\<in>set xs. \<not> ?sz \<le> snd (blk mm i)) \<and> ?sz \<le> snd (blk mm p)" if "fit ?sz free = Some (a, free')"
  proof -
    have "\<exists>x\<in>set (map (blk mm) fs). ?sz \<le> snd x" using that fit_None [of ?sz free] h(2) by (metis option.distinct(1))
    then obtain i where "i \<in> set fs" "?sz \<le> snd (blk mm i)" by (auto simp del: split_paired_Ex)
    then have "find (\<lambda>i. ?sz \<le> snd (blk mm i)) fs \<noteq> None" unfolding find_None_iff by blast
    then obtain p where p: "find (\<lambda>i. ?sz \<le> snd (blk mm i)) fs = Some p" by blast
    from find_split [OF this] p show ?thesis by (elim exE conjE) (intro exI conjI)
  qed
  show "\<exists>mm'. mmgr_alloc_by_type t bytes g = Some (a, g(t \<mapsto> mm')) \<and> heap_is mm' free' ((a, ?sz) # alloc) \<and>
        membase mm' = membase mm \<and> totalsize mm' = totalsize mm"
    if f: "fit ?sz free = Some (a, free')" and l: "length free + length alloc < MAXNUM_POOL"
  proof -
    obtain xs p ys where p: "fs = xs @ p # ys" "find (\<lambda>i. ?sz \<le> snd (blk mm i)) fs = Some p"
        "\<forall>i\<in>set xs. \<not> ?sz \<le> snd (blk mm i)" "?sz \<le> snd (blk mm p)" using found [OF f] by blast
    have "length (xs @ p # ys @ as) < MAXNUM_POOL" using l len p(1) by simp
    from take_block_heap [OF h(1) [unfolded p(1)] this p(3, 4)] obtain mm' where
      tk: "take_block ?sz p mm = Some (a, mm')" "heap_is mm' free' ((a, ?sz) # alloc)"
      using f h(2, 3) p(1) by auto
    then show ?thesis using al p(2) take_block_region [OF tk(1)] by auto
  qed
  show "mmgr_alloc_by_type t bytes g = None"
    if f: "fit ?sz free = Some (a, free')" and l: "length free + length alloc = MAXNUM_POOL"
  proof -
    obtain p where p: "find (\<lambda>i. ?sz \<le> snd (blk mm i)) fs = Some p" using found [OF f] by blast
    have "find_valid_node_from_pool mm = (None, mm)" using find_valid_node_exhausted [OF h(1)] l len by simp
    then have "take_block ?sz p mm = None" by (auto simp: take_block_def split: bind_splits)
    then show ?thesis using al p by simp
  qed
qed

text \<open>Release: the block leaves the allocated list and enters the free list at its address.\<close>

lemma map_split_nodes: "map f js = us @ x # vs \<Longrightarrow> \<exists>is i ks. js = is @ i # ks \<and> map f is = us \<and> f i = x \<and> map f ks = vs"
  by (auto simp: map_eq_append_conv map_eq_Cons_conv)

lemma free_absent:
  assumes "heap_is mm free alloc" and "g t = Some mm" and "a \<notin> fst ` set alloc"
  shows "mmgr_free_by_type t a g = Some g"
proof -
  obtain fs as where h: "repr mm fs as []" "map (blk mm) as = alloc" using assms(1) by (auto simp: heap_is_def)
  note q = reprD [OF h(1)]
  have "find (\<lambda>i. nd_base (pool mm ! i) = a) as = None" using assms(3) h(2) by (force simp: find_None_iff blk_def)
  then have "find_base (Suc MAXNUM_POOL) (pool mm) a (p_alloc mm) = Some None"
    unfolding q(6) using find_base_seg [OF q(5), of "Suc MAXNUM_POOL" a] repr_bound [OF h(1)] by simp
  then show ?thesis using assms(2) by (simp add: mmgr_free_by_type_def del: find_base.simps)
qed

lemma free_front:
  assumes "heap_is mm free (us @ (a, s) # vs)" and "a \<notin> fst ` set us" and "g t = Some mm"
  shows "\<exists>p m1 fs as. repr m1 fs as [p] \<and> blk m1 p = (a, s) \<and> map (blk m1) fs = free \<and> map (blk m1) as = us @ vs \<and>
    membase m1 = membase mm \<and> totalsize m1 = totalsize mm \<and>
    mmgr_free_by_type t a g = do { mm' \<leftarrow> insert_node_2_free m1 p; Some (g(t \<mapsto> mm')) }"
proof -
  obtain fs as where h: "repr mm fs as []" "map (blk mm) fs = free" "map (blk mm) as = us @ (a, s) # vs"
    using assms(1) by (auto simp: heap_is_def)
  note q = reprD [OF h(1)]
  obtain xs p ys where p: "as = xs @ p # ys" "map (blk mm) xs = us" "blk mm p = (a, s)" "map (blk mm) ys = vs"
    using map_split_nodes [OF h(3)] by blast
  have n: "nd_base (pool mm ! i) \<noteq> a" if "i \<in> set xs" for i
    using assms(2) that unfolding p(2) [symmetric] by (force simp: blk_def)
  have "find (\<lambda>i. nd_base (pool mm ! i) = a) as = Some p"
    unfolding p(1) using n p(3) by (induction xs) (auto simp: blk_def)
  then have "find_base (Suc MAXNUM_POOL) (pool mm) a (p_alloc mm) = Some (Some p)"
    unfolding q(6) using find_base_seg [OF q(5), of "Suc MAXNUM_POOL" a] repr_bound [OF h(1)] by simp
  moreover obtain head pl where ul: "unlink (p_alloc mm) p (pool mm) = Some (head, pl)"
      "repr (mm\<lparr>p_alloc := head, pool := pl\<rparr>) fs (xs @ ys) [p]" "\<forall>j. blk (mm\<lparr>p_alloc := head, pool := pl\<rparr>) j = blk mm j"
    using unlink_alloc [OF h(1) [unfolded p(1)]] by blast
  ultimately have "mmgr_free_by_type t a g =
      do { mm' \<leftarrow> insert_node_2_free (mm\<lparr>p_alloc := head, pool := pl\<rparr>) p; Some (g(t \<mapsto> mm')) }"
    using assms(3) by (simp add: mmgr_free_by_type_def del: find_base.simps)
  then show ?thesis using ul(2, 3) h(2) p by (intro exI [of _ p] exI [of _ "mm\<lparr>p_alloc := head, pool := pl\<rparr>"] exI [of _ fs] exI [of _ "xs @ ys"])
      (simp cong: map_cong)
qed

lemma free_heap:
  assumes "heap_is mm free (us @ (a, s) # vs)" and "a \<notin> fst ` set us" and "g t = Some mm"
  shows "free = [] \<Longrightarrow> \<exists>mm'. mmgr_free_by_type t a g = Some (g(t \<mapsto> mm')) \<and> heap_is mm' [(a, s)] (us @ vs) \<and>
      membase mm' = membase mm \<and> totalsize mm' = totalsize mm"
    and "free = xs @ f # ys \<Longrightarrow> \<forall>x\<in>set xs. fst x < a \<Longrightarrow> \<not> fst f < a \<Longrightarrow>
      \<exists>mm'. mmgr_free_by_type t a g = Some (g(t \<mapsto> mm')) \<and> heap_is mm' (glue_right (glue_left xs (a, s)) f ys) (us @ vs) \<and>
      membase mm' = membase mm \<and> totalsize mm' = totalsize mm"
    and "free \<noteq> [] \<Longrightarrow> \<forall>x\<in>set free. fst x < a \<Longrightarrow> mmgr_free_by_type t a g = None"
proof -
  obtain p m1 fs as where m1: "repr m1 fs as [p]" "blk m1 p = (a, s)" "map (blk m1) fs = free" "map (blk m1) as = us @ vs"
      "membase m1 = membase mm" "totalsize m1 = totalsize mm"
      and fr: "mmgr_free_by_type t a g = do { mm' \<leftarrow> insert_node_2_free m1 p; Some (g(t \<mapsto> mm')) }"
    using free_front [where g = g and t = t, OF assms] by blast
  show "\<exists>mm'. mmgr_free_by_type t a g = Some (g(t \<mapsto> mm')) \<and> heap_is mm' [(a, s)] (us @ vs) \<and>
      membase mm' = membase mm \<and> totalsize mm' = totalsize mm" if "free = []"
  proof -
    have "repr m1 [] as [p]" using m1(1, 3) that by simp
    from insert_empty [OF this] obtain mm' where i: "insert_node_2_free m1 p = Some mm'" "repr mm' [p] as []" "\<forall>j. blk mm' j = blk m1 j"
      by blast
    then have "heap_is mm' [(a, s)] (us @ vs)" unfolding heap_is_def using m1(2, 4) by (intro exI [of _ "[p]"] exI [of _ as]) (simp cong: map_cong)
    then show ?thesis using fr i(1) insert_region [OF i(1)] m1(5, 6) by (intro exI [of _ mm']) simp
  qed
  show "\<exists>mm'. mmgr_free_by_type t a g = Some (g(t \<mapsto> mm')) \<and> heap_is mm' (glue_right (glue_left xs (a, s)) f ys) (us @ vs) \<and>
      membase mm' = membase mm \<and> totalsize mm' = totalsize mm"
    if sp: "free = xs @ f # ys" and lt: "\<forall>x\<in>set xs. fst x < a" and nl: "\<not> fst f < a"
  proof -
    obtain ws i ks where k: "fs = ws @ i # ks" "map (blk m1) ws = xs" "blk m1 i = f" "map (blk m1) ks = ys"
      using map_split_nodes [OF m1(3) [unfolded sp]] by blast
    have "\<forall>j\<in>set ws. fst (blk m1 j) < fst (blk m1 p)" using lt k(2) m1(2) by auto
    moreover have "\<not> fst (blk m1 i) < fst (blk m1 p)" using nl k(3) m1(2) by simp
    ultimately obtain fs' mm' where i: "insert_node_2_free m1 p = Some mm'" "repr mm' fs' as []" "map (blk mm') as = map (blk m1) as"
        "map (blk mm') fs' = glue_right (glue_left (map (blk m1) ws) (blk m1 p)) (blk m1 i) (map (blk m1) ks)"
      using insert_before [OF m1(1) [unfolded k(1)]] by blast
    then have "heap_is mm' (glue_right (glue_left xs (a, s)) f ys) (us @ vs)"
      unfolding heap_is_def using m1(2, 4) k(2-4) by (intro exI [of _ fs'] exI [of _ as]) simp
    then show ?thesis using fr i(1) insert_region [OF i(1)] m1(5, 6) by (intro exI [of _ mm']) simp
  qed
  show "mmgr_free_by_type t a g = None" if "free \<noteq> []" "\<forall>x\<in>set free. fst x < a"
  proof -
    have "insert_node_2_free m1 p = None"
      by (rule insert_tail_faults [OF m1(1)]) (use that m1(2, 3) in auto)
    then show ?thesis using fr by simp
  qed
qed

end
