(* ===== verification/Mmgr_Safe.thy ===== *)
theory Mmgr_Safe
  imports Mmgr_Heap "HOL-Library.Multiset"
begin

text \<open>
  The blocks of the heap tile the managed memory: allocated blocks never overlap, for every
  sequence of calls from initialisation on.
\<close>

section \<open>Tilings\<close>

definition lo :: "block \<Rightarrow> nat" where "lo x = unat (fst x)"
definition hi :: "block \<Rightarrow> nat" where "hi x = unat (fst x) + unat (snd x)"

definition cells :: "block \<Rightarrow> nat set" where "cells x = {lo x..<hi x}"

definition tiles :: "nat \<Rightarrow> nat \<Rightarrow> block list \<Rightarrow> bool" where
  "tiles B T bs \<longleftrightarrow> (\<Union>x\<in>set bs. cells x) = {B..<B + T} \<and> (\<Sum>x\<leftarrow>bs. hi x - lo x) = T"

lemma card_cells: "card (cells x) = hi x - lo x"
  by (simp add: cells_def)

lemma tiles_mset: "mset bs = mset bs' \<Longrightarrow> tiles B T bs = tiles B T bs'"
  using mset_eq_setD [of bs bs'] by (simp add: tiles_def flip: sum_mset_sum_list)

lemma card_cover: "card (\<Union>x\<in>set bs. cells x) \<le> (\<Sum>x\<leftarrow>bs. hi x - lo x)"
proof (induction bs)
  case (Cons b bs)
  have "card (cells b \<union> (\<Union>x\<in>set bs. cells x)) \<le> card (cells b) + card (\<Union>x\<in>set bs. cells x)" by (rule card_Un_le)
  then show ?case using Cons by (simp add: card_cells)
qed simp

lemma tiles_disjoint:
  assumes "tiles B T (x # bs)" and "y \<in> set bs"
  shows "cells x \<inter> cells y = {}"
proof (rule ccontr)
  let ?U = "\<Union>z\<in>set bs. cells z"
  assume "cells x \<inter> cells y \<noteq> {}"
  then have ne: "cells x \<inter> ?U \<noteq> {}" using assms(2) by blast
  have fin: "finite (cells x)" "finite ?U" by (simp_all add: cells_def)
  have "card (cells x) + card ?U = card (cells x \<union> ?U) + card (cells x \<inter> ?U)" by (rule card_Un_Int [OF fin])
  moreover have "0 < card (cells x \<inter> ?U)" using ne fin by (simp add: card_gt_0_iff)
  moreover have "card (cells x \<union> ?U) = T" using assms(1) by (simp add: tiles_def)
  moreover have "hi x - lo x + (\<Sum>z\<leftarrow>bs. hi z - lo z) = T" using assms(1) by (simp add: tiles_def)
  ultimately show False using card_cover [of bs] by (simp add: card_cells)
qed

lemma tiles_bound:
  assumes "tiles B T bs" and "x \<in> set bs" and "lo x < hi x"
  shows "B \<le> lo x \<and> hi x \<le> B + T"
proof -
  have "cells x \<subseteq> {B..<B + T}" using assms(1, 2) by (auto simp: tiles_def)
  then show ?thesis using assms(3) by (simp add: cells_def)
qed

lemma unat_ucast64: "unat (ucast (s :: u32) :: u64) = unat s"
  using u32_bound [of s] by (simp add: unsigned_ucast_eq take_bit_nat_eq_self)

text \<open>Splitting a block and joining two keep the tiling.\<close>

lemma tiles_replace2:
  assumes "cells x = cells y \<union> cells z" and "hi x - lo x = (hi y - lo y) + (hi z - lo z)"
  shows "tiles B T (x # bs) = tiles B T (y # z # bs)"
  using assms by (auto simp: tiles_def)

lemma tiles_split:
  assumes "tiles B T (us @ (b, s) # vs)" and "unat b + unat s < 2 ^ 64" and "sz \<le> s"
  shows "tiles B T (us @ (b, sz) # (b + ucast sz, s - sz) # vs)"
proof -
  have le: "unat sz \<le> unat s" using assms(3) by (simp add: word_le_nat_alt)
  have s: "unat (s - sz) = unat s - unat sz" by (rule unat_sub_small [OF le])
  have u: "unat (ucast sz :: u64) = unat sz" by (rule unat_ucast64)
  have a: "unat (b + ucast sz) = unat b + unat sz" using assms(2) le u by (subst unat_add_small) simp_all
  have c: "cells (b, s) = cells (b, sz) \<union> cells (b + ucast sz, s - sz)" using a s le by (auto simp: cells_def lo_def hi_def)
  have d: "hi (b, s) - lo (b, s) = (hi (b, sz) - lo (b, sz)) + (hi (b + ucast sz, s - sz) - lo (b + ucast sz, s - sz))"
    using a s le by (simp add: lo_def hi_def)
  have "tiles B T ((b, s) # us @ vs)" using assms(1) tiles_mset [of "us @ (b, s) # vs" "(b, s) # us @ vs"] by simp
  then have "tiles B T ((b, sz) # (b + ucast sz, s - sz) # us @ vs)" using tiles_replace2 [OF c d] by simp
  then show ?thesis using tiles_mset [of "(b, sz) # (b + ucast sz, s - sz) # us @ vs" "us @ (b, sz) # (b + ucast sz, s - sz) # vs"] by simp
qed

lemma adjacent_iff:
  assumes "hi x < 2 ^ 64"
  shows "adjacent x y \<longleftrightarrow> hi x = lo y"
proof -
  have u: "unat (ucast (snd x) :: u64) = unat (snd x)" by (rule unat_ucast64)
  have "unat (fst x + ucast (snd x)) = hi x" using assms u by (subst unat_add_small) (simp_all add: hi_def)
  then show ?thesis unfolding adjacent_def lo_def by (metis word_unat_eq_iff)
qed

lemma join_ends:
  assumes "hi x = lo y" and "unat (snd x) + unat (snd y) < 2 ^ 32"
  shows "lo (join x y) = lo x" and "hi (join x y) = hi y"
  using assms by (simp_all add: join_def lo_def hi_def unat_add_small)

lemma tiles_join:
  assumes "tiles B T (us @ x # y # vs)" and "hi x = lo y" and "unat (snd x) + unat (snd y) < 2 ^ 32"
  shows "tiles B T (us @ join x y # vs)"
proof -
  note j = join_ends [OF assms(2, 3)]
  have o: "lo x \<le> hi x" "lo y \<le> hi y" by (simp_all add: lo_def hi_def)
  have c: "cells (join x y) = cells x \<union> cells y" using j assms(2) o by (auto simp: cells_def)
  have d: "hi (join x y) - lo (join x y) = (hi x - lo x) + (hi y - lo y)" using j assms(2) o by simp
  have "tiles B T (x # y # us @ vs)" using assms(1) tiles_mset [of "us @ x # y # vs" "x # y # us @ vs"] by simp
  then have "tiles B T (join x y # us @ vs)" using tiles_replace2 [OF c d] by simp
  then show ?thesis using tiles_mset [of "join x y # us @ vs" "us @ join x y # vs"] by simp
qed

lemma tiles_two: "tiles B T (us @ x # y # vs) \<Longrightarrow> unat (snd x) + unat (snd y) \<le> T"
  by (simp add: tiles_def lo_def hi_def)

section \<open>The invariant\<close>

abbreviation before :: "block \<Rightarrow> block \<Rightarrow> bool" where
  "before x y \<equiv> hi x < lo y"

text \<open>
  \<open>al\<close> is the alignment of the addresses the allocator returns.  The free list is ordered
  and never holds two adjacent blocks.
\<close>

definition heap_ok :: "nat \<Rightarrow> nat \<Rightarrow> nat \<Rightarrow> block list \<Rightarrow> block list \<Rightarrow> bool" where
  "heap_ok al B T free alloc \<longleftrightarrow> B + T < 2 ^ 64 \<and> T < 2 ^ 32 \<and> tiles B T (free @ alloc) \<and> sorted_wrt before free \<and>
     (\<forall>x\<in>set (free @ alloc). 0 < snd x \<and> al dvd (lo x - B))"

lemma lo_le_hi [simp]: "lo x \<le> hi x"
  by (simp add: lo_def hi_def)

lemma lo_less_hi: "0 < snd x \<longleftrightarrow> lo x < hi x"
  by (simp add: lo_def hi_def word_less_nat_alt)

lemma heap_ok_block:
  assumes "heap_ok al B T free alloc" and "x \<in> set (free @ alloc)"
  shows "lo x < hi x" and "B \<le> lo x" and "hi x \<le> B + T" and "hi x < 2 ^ 64" and "al dvd (lo x - B)"
proof -
  show x: "lo x < hi x" and "al dvd (lo x - B)" using assms by (auto simp: heap_ok_def lo_less_hi)
  have t: "tiles B T (free @ alloc)" using assms(1) by (simp add: heap_ok_def)
  from tiles_bound [OF t assms(2) x] show "B \<le> lo x" "hi x \<le> B + T" by auto
  then show "hi x < 2 ^ 64" using assms(1) by (simp add: heap_ok_def)
qed

lemma heap_ok_disjoint:
  assumes "heap_ok al B T free alloc" and "mset (free @ alloc) = mset (x # bs)" and "y \<in> set bs"
  shows "hi x \<le> lo y \<or> hi y \<le> lo x"
proof -
  have "tiles B T (x # bs)" using assms(1) tiles_mset [OF assms(2)] by (simp add: heap_ok_def)
  from tiles_disjoint [OF this assms(3)] have "cells x \<inter> cells y = {}" .
  moreover have "x \<in> set (free @ alloc)" "y \<in> set (free @ alloc)" using mset_eq_setD [OF assms(2)] assms(3) by auto
  from this [THEN heap_ok_block(1) [OF assms(1)]] have "lo x < hi x" "lo y < hi y" by auto
  ultimately show ?thesis unfolding cells_def by (metis Int_iff atLeastLessThan_iff empty_iff linorder_not_le nle_le)
qed

text \<open>Allocation keeps it.\<close>

lemma fit_SomeD:
  "fit sz free = Some (a, free') \<Longrightarrow> \<exists>us s vs. free = us @ (a, s) # vs \<and> sz \<le> s \<and>
     free' = us @ (if s = sz then vs else (a + ucast sz, s - sz) # vs)"
proof (induction free arbitrary: free')
  case (Cons x free)
  obtain b s where x: "x = (b, s)" by (cases x)
  show ?case
  proof (cases "sz \<le> s")
    case True
    then show ?thesis using Cons.prems x by (intro exI [of _ "[]"] exI [of _ s] exI [of _ free]) auto
  next
    case False
    then obtain f' where f': "fit sz free = Some (a, f')" "free' = x # f'" using Cons.prems x by auto
    from Cons.IH [OF f'(1)] obtain us s' vs where "free = us @ (a, s') # vs" "sz \<le> s'"
        "f' = us @ (if s' = sz then vs else (a + ucast sz, s' - sz) # vs)" by (elim exE conjE)
    then show ?thesis using f'(2) by (intro exI [of _ "x # us"] exI [of _ s'] exI [of _ vs]) simp
  qed
qed simp

lemma fit_ok:
  assumes "heap_ok al B T free alloc" and "fit sz free = Some (a, free')" and "0 < sz" and "al dvd unat sz"
  shows "heap_ok al B T free' ((a, sz) # alloc)"
proof -
  obtain us s vs where f: "free = us @ (a, s) # vs" "sz \<le> s" "free' = us @ (if s = sz then vs else (a + ucast sz, s - sz) # vs)"
    using fit_SomeD [OF assms(2)] by blast
  note b = heap_ok_block [OF assms(1), of "(a, s)"]
  have w: "unat a + unat s < 2 ^ 64" using b(4) f(1) by (simp add: hi_def)
  show ?thesis
  proof (cases "s = sz")
    case True
    have "tiles B T (free' @ (a, sz) # alloc)"
      using assms(1) f True tiles_mset [of "free @ alloc" "free' @ (a, sz) # alloc"] by (simp add: heap_ok_def)
    then show ?thesis using assms(1) f True by (simp add: heap_ok_def sorted_wrt_append)
  next
    case False
    have le: "unat sz < unat s" using f(2) False by (simp add: word_le_nat_alt) (metis le_neq_implies_less word_unat_eq_iff)
    let ?y = "(a + ucast sz, s - sz) :: block"
    have lo: "lo ?y = lo (a, s) + unat sz" using w le by (simp add: lo_def unat_add_small unat_ucast64)
    have sz: "unat (s - sz) = unat s - unat sz" using le by (simp add: unat_sub_small)
    have hi: "hi ?y = hi (a, s)" using lo le sz by (simp add: lo_def hi_def)
    have "tiles B T (us @ (a, sz) # ?y # vs @ alloc)"
      using tiles_split [of B T us a s "vs @ alloc" sz] w f assms(1) by (simp add: heap_ok_def)
    then have "tiles B T (free' @ (a, sz) # alloc)"
      using tiles_mset [of "us @ (a, sz) # ?y # vs @ alloc" "free' @ (a, sz) # alloc"] f(3) False by simp
    moreover have "sorted_wrt before free'"
      using assms(1) f False lo hi by (auto simp: heap_ok_def sorted_wrt_append)
    moreover have "0 < s - sz" using sz le by (simp add: word_less_nat_alt)
    moreover have "lo ?y - B = (lo (a, s) - B) + unat sz" using b(2) f(1) lo by simp
    then have "al dvd (lo ?y - B)" using b(5) f(1) assms(4) by (simp add: dvd_add)
    moreover have "al dvd (lo (a, sz) - B)" using b(5) f(1) by (simp add: lo_def)
    ultimately show ?thesis using assms(1, 3) f False by (auto simp: heap_ok_def)
  qed
qed

text \<open>Release keeps it.\<close>

lemma glue_left_cases:
  assumes "sorted_wrt before xs" and "\<forall>u\<in>set xs. hi u \<le> lo x" and "hi x < 2 ^ 64"
  obtains "glue_left xs x = xs @ [x]" "\<forall>u\<in>set xs. hi u < lo x"
    | us u where "xs = us @ [u]" "hi u = lo x" "glue_left xs x = us @ [join u x]"
proof (cases xs rule: rev_cases)
  case (snoc us u)
  have "hi u \<le> lo x" using assms(2) snoc by simp
  then have "hi u < 2 ^ 64" using assms(3) lo_le_hi [of x] by (meson le_less_trans)
  note au = adjacent_iff [OF this, of x]
  show thesis
  proof (cases "hi u = lo x")
    case True
    then show thesis using that(2) [of us u] snoc au by (simp add: glue_left_def)
  next
    case False
    have "hi v < lo x" if "v \<in> set xs" for v
    proof (cases "v = u")
      case True
      then show ?thesis using \<open>hi u \<le> lo x\<close> False by simp
    next
      case no: False
      then have "hi v < lo u" using that assms(1) snoc by (auto simp: sorted_wrt_append)
      then show ?thesis using \<open>hi u \<le> lo x\<close> lo_le_hi [of u] by linarith
    qed
    then show thesis using that(1) snoc au False by (simp add: glue_left_def)
  qed
qed (use that(1) in \<open>simp add: glue_left_def\<close>)

lemma glue_left_ok:
  assumes "tiles B T (xs @ x # rest)" and "T < 2 ^ 32" and "sorted_wrt before xs" and "\<forall>u\<in>set xs. hi u \<le> lo x"
    and "\<forall>u\<in>set (x # xs). 0 < snd u" and "hi x < 2 ^ 64"
  shows "tiles B T (glue_left xs x @ rest) \<and> sorted_wrt before (glue_left xs x) \<and> glue_left xs x \<noteq> [] \<and>
    hi (last (glue_left xs x)) = hi x \<and> (\<forall>z\<in>set (glue_left xs x). 0 < snd z \<and> (\<exists>w\<in>set (xs @ [x]). lo z = lo w))"
proof (rule glue_left_cases [OF assms(3, 4, 6)])
  assume "glue_left xs x = xs @ [x]" "\<forall>u\<in>set xs. hi u < lo x"
  then show ?thesis using assms(1, 3, 5) by (auto simp: sorted_wrt_append)
next
  fix us u
  assume joined: "xs = us @ [u]" "hi u = lo x" "glue_left xs x = us @ [join u x]"
  have t: "tiles B T (us @ u # x # rest)" using assms(1) joined(1) by simp
  have l: "unat (snd u) + unat (snd x) < 2 ^ 32" using tiles_two [OF t] assms(2) by simp
  note j = join_ends [OF joined(2) l]
  have p: "0 < snd (join u x)" using assms(5) joined(1) l by (simp add: join_def word_less_nat_alt unat_add_small)
  have ti: "tiles B T (us @ join u x # rest)" by (rule tiles_join [OF t joined(2) l])
  have so: "sorted_wrt before (us @ [join u x])" using assms(3) joined(1) j(1) by (simp add: sorted_wrt_append)
  show ?thesis unfolding joined(3) using ti so p j joined(1) assms(5) by auto
qed

lemma glue_right_ok:
  assumes "tiles B T (xs @ f # ys @ rest)" and "T < 2 ^ 32" and "sorted_wrt before xs" and "sorted_wrt before (f # ys)" and "xs \<noteq> []"
    and "hi (last xs) \<le> lo f" and "\<forall>u\<in>set (xs @ f # ys). 0 < snd u" and "hi f < 2 ^ 64"
  shows "tiles B T (glue_right xs f ys @ rest) \<and> sorted_wrt before (glue_right xs f ys) \<and>
    (\<forall>z\<in>set (glue_right xs f ys). 0 < snd z \<and> (\<exists>w\<in>set (xs @ f # ys). lo z = lo w))"
proof -
  obtain us u where xs: "xs = us @ [u]" using assms(5) by (metis append_butlast_last_id)
  have "hi u \<le> lo f" using assms(6) xs by simp
  then have "hi u < 2 ^ 64" using assms(8) lo_le_hi [of f] by (meson le_less_trans)
  note au = adjacent_iff [OF this, of f]
  have us: "hi v < lo u" if "v \<in> set us" for v using that assms(3) xs by (auto simp: sorted_wrt_append)
  have ys: "hi f < lo v" if "v \<in> set ys" for v using that assms(4) by simp
  have fy: "sorted_wrt before ys" "sorted_wrt before us" using assms(3, 4) xs by (simp_all add: sorted_wrt_append)
  have uf: "hi u \<le> lo f" "lo u \<le> hi u" "lo f \<le> hi f" using assms(6) xs by simp_all
  show ?thesis
  proof (cases "hi u = lo f")
    case True
    have g: "glue_right xs f ys = us @ join u f # ys" using True au xs by (simp add: glue_right_def)
    have t: "tiles B T (us @ u # f # ys @ rest)" using assms(1) xs by simp
    have l: "unat (snd u) + unat (snd f) < 2 ^ 32" using tiles_two [OF t] assms(2) by simp
    note j = join_ends [OF True l]
    have p: "0 < snd (join u f)" using assms(7) xs l by (simp add: join_def word_less_nat_alt unat_add_small)
    have ti: "tiles B T (us @ join u f # ys @ rest)" by (rule tiles_join [OF t True l])
    have uy: "hi v < lo w" if "v \<in> set us" "w \<in> set ys" for v w using us [OF that(1)] ys [OF that(2)] uf by linarith
    have so: "sorted_wrt before (us @ join u f # ys)"
      unfolding sorted_wrt_append sorted_wrt.simps(2) using fy j us ys uy by simp
    show ?thesis unfolding g using p ti so j assms(7) xs by auto
  next
    case False
    then have lt: "hi u < lo f" using uf by simp
    have g: "glue_right xs f ys = xs @ f # ys" using False au xs by (simp add: glue_right_def)
    have "hi v < lo w" if "v \<in> set xs" "w \<in> set (f # ys)" for v w
    proof -
      from that(1) consider "v = u" | "v \<in> set us" using xs by auto
      then have "hi v \<le> hi u"
      proof cases
        case 2
        then show ?thesis using us [OF 2] uf(2) by linarith
      qed simp
      moreover from that(2) consider "w = f" | "w \<in> set ys" by auto
      then have "lo f \<le> lo w"
      proof cases
        case 2
        then show ?thesis using ys [OF 2] uf(3) by linarith
      qed simp
      ultimately show ?thesis using lt by linarith
    qed
    then have "sorted_wrt before (xs @ f # ys)" using assms(3, 4) by (simp add: sorted_wrt_append)
    then show ?thesis unfolding g using assms(1, 7) by auto
  qed
qed

lemma release_ok:
  assumes "heap_ok al B T (xs @ f # ys) (us @ (a, s) # vs)" and "\<forall>x\<in>set xs. fst x < a" and "\<not> fst f < a"
  shows "heap_ok al B T (glue_right (glue_left xs (a, s)) f ys) (us @ vs)"
proof -
  note h = assms(1) [unfolded heap_ok_def]
  note b = heap_ok_block [OF assms(1)]
  let ?x = "(a, s)" and ?R = "us @ vs"
  have m: "mset ((xs @ f # ys) @ us @ ?x # vs) = mset (?x # xs @ f # ys @ ?R)" by simp
  note dis = heap_ok_disjoint [OF assms(1) m]
  have x: "lo ?x < hi ?x" "hi ?x < 2 ^ 64" "0 < s" using b [of ?x] h by auto
  have left: "hi u \<le> lo ?x" if "u \<in> set xs" for u
  proof -
    have "lo u < lo ?x" using that assms(2) by (simp add: lo_def word_less_nat_alt)
    moreover have "hi ?x \<le> lo u \<or> hi u \<le> lo ?x" by (rule dis) (use that in simp)
    ultimately show ?thesis using x(1) by linarith
  qed
  have right: "hi ?x \<le> lo f"
  proof -
    have "lo ?x \<le> lo f" using assms(3) by (simp add: lo_def word_less_nat_alt)
    moreover have "hi ?x \<le> lo f \<or> hi f \<le> lo ?x" by (rule dis) simp
    moreover have "lo f < hi f" using b(1) [of f] by simp
    ultimately show ?thesis by linarith
  qed
  have t0: "tiles B T (xs @ ?x # f # ys @ ?R)"
    using h tiles_mset [of "(xs @ f # ys) @ us @ ?x # vs" "xs @ ?x # f # ys @ ?R"] by simp
  have so: "sorted_wrt before xs" "sorted_wrt before (f # ys)" and T: "T < 2 ^ 32" using h by (simp_all add: sorted_wrt_append)
  have le: "\<forall>u\<in>set xs. hi u \<le> lo ?x" and pos: "\<forall>u\<in>set (?x # xs). 0 < snd u" "\<forall>u\<in>set (f # ys). 0 < snd u"
    using left h by simp_all
  from glue_left_ok [OF t0 T so(1) le pos(1) x(2)]
  have L: "tiles B T (glue_left xs ?x @ f # ys @ ?R)" "sorted_wrt before (glue_left xs ?x)" "glue_left xs ?x \<noteq> []"
      "hi (last (glue_left xs ?x)) = hi ?x"
      "\<forall>z\<in>set (glue_left xs ?x). 0 < snd z \<and> (\<exists>w\<in>set (xs @ [?x]). lo z = lo w)"
    by - (elim conjE, assumption)+
  have f: "hi f < 2 ^ 64" using b(4) [of f] by simp
  have gp: "\<forall>u\<in>set (glue_left xs ?x @ f # ys). 0 < snd u" unfolding set_append ball_Un using L(5) pos(2) by blast
  have "hi (last (glue_left xs ?x)) \<le> lo f" using L(4) right by simp
  from glue_right_ok [OF L(1) T L(2) so(2) L(3) this gp f]
  have R: "tiles B T (glue_right (glue_left xs ?x) f ys @ ?R)" "sorted_wrt before (glue_right (glue_left xs ?x) f ys)"
      "\<forall>z\<in>set (glue_right (glue_left xs ?x) f ys). 0 < snd z \<and> (\<exists>w\<in>set (glue_left xs ?x @ f # ys). lo z = lo w)"
    by - (elim conjE, assumption)+
  have "0 < snd z \<and> al dvd (lo z - B)" if "z \<in> set (glue_right (glue_left xs ?x) f ys)" for z
  proof -
    from bspec [OF R(3) that] obtain w where w: "w \<in> set (glue_left xs ?x @ f # ys)" "lo z = lo w" and p: "0 < snd z"
      by (elim conjE bexE)
    have "\<exists>v\<in>set (xs @ ?x # f # ys). lo w = lo v"
    proof (cases "w \<in> set (f # ys)")
      case False
      then have "w \<in> set (glue_left xs ?x)" using w(1) by simp
      from bspec [OF L(5) this] obtain v where "v \<in> set (xs @ [?x])" "lo w = lo v" by (elim conjE bexE)
      then show ?thesis by (intro bexI [of _ v]) auto
    qed (intro bexI [of _ w], auto)
    then obtain v where v: "v \<in> set (xs @ ?x # f # ys)" "lo w = lo v" by (elim bexE)
    have "v \<in> set ((xs @ f # ys) @ us @ ?x # vs)" using v(1) by auto
    from b(5) [OF this] show ?thesis using p w(2) v(2) by simp
  qed
  then show ?thesis using R(1, 2) h unfolding heap_ok_def by (simp add: ball_Un)
qed

end
