(* ===== verification/Mmgr_Props.thy ===== *)
theory Mmgr_Props
  imports Mmgr_Safe
begin

text \<open>
  Theorems on the heap allocator: safety for every sequence of calls, the result of each
  operation, and the two situations in which the code follows a null pointer.
\<close>

section \<open>Reachable heaps\<close>

definition mm_align :: "MEM_TYPE \<Rightarrow> nat" where
  "mm_align t = (if t = MEM_COMMON then 64 else 4096)"

text \<open>
  The callers give \<open>init_mmgr\<close> a region larger than the reserved part that does not reach
  the end of the address space, and an \<open>int\<close> to the allocator.
\<close>

inductive mm_reach :: "g_mmgr \<Rightarrow> bool" where
  start: "mm_reach (\<lambda>_. None)"
| init: "mm_reach g \<Longrightarrow> unat mstart + unat bytes < 2 ^ 64 \<Longrightarrow> RESERVE_MEM_SIZE < unat bytes \<Longrightarrow>
    init_mmgr_by_type t mstart bytes g = Some g' \<Longrightarrow> mm_reach g'"
| alloc: "mm_reach g \<Longrightarrow> n < 2 ^ 31 \<Longrightarrow> mmgr_alloc_by_type t n g = Some (a, g') \<Longrightarrow> mm_reach g'"
| free: "mm_reach g \<Longrightarrow> mmgr_free_by_type t a g = Some g' \<Longrightarrow> mm_reach g'"

definition mm_inv :: "MEM_TYPE \<Rightarrow> Memmgr \<Rightarrow> block list \<Rightarrow> block list \<Rightarrow> bool" where
  "mm_inv t mm fr al \<longleftrightarrow> heap_is mm fr al \<and> heap_ok (mm_align t) (unat (membase mm)) (unat (totalsize mm)) fr al"

lemma round_size_Some:
  assumes "round_size t n = Some r" and "0 < n" and "n < 2 ^ 31"
  shows "n \<le> r" and "0 < r" and "r < 2 ^ 31" and "int (mm_align t) dvd r"
proof -
  have "n \<le> r \<and> r < 2 ^ 31 \<and> int (2 ^ k) dvd r"
    if "(if n AND mask k \<noteq> 0 then int_ok ((n AND NOT (mask k)) + 2 ^ k) else Some n) = Some r" for k
  proof (cases "n AND mask k = 0")
    case True
    then have "2 ^ k dvd n" by (simp add: take_bit_eq_mask [symmetric] take_bit_eq_mod mod_eq_0_iff_dvd)
    then show ?thesis using that True assms(3) by simp
  next
    case False
    then have r: "r = n div 2 ^ k * 2 ^ k + 2 ^ k" "r < 2 ^ 31" using that by (auto simp: int_and_not_mask int_ok_def split: if_splits)
    have "n = n div 2 ^ k * 2 ^ k + n mod 2 ^ k" by (simp only: div_mult_mod_eq)
    moreover have "n mod 2 ^ k < 2 ^ k" by simp
    ultimately have "n \<le> r" using r(1) by linarith
    then show ?thesis using r by simp
  qed
  note k = this
  let ?k = "if t = MEM_COMMON then 6 else 12 :: nat"
  have "round_size t n = (if n AND mask ?k \<noteq> 0 then int_ok ((n AND NOT (mask ?k)) + 2 ^ ?k) else Some n)"
    by (cases t) (simp_all add: round_size_def PAGE_MASK_def PAGE_def mask_eq_exp_minus_1)
  then have "n \<le> r \<and> r < 2 ^ 31 \<and> int (2 ^ ?k) dvd r" using assms(1) by (intro k) simp
  moreover have "mm_align t = 2 ^ ?k" by (simp add: mm_align_def)
  ultimately have "n \<le> r \<and> r < 2 ^ 31 \<and> int (mm_align t) dvd r" by (simp only:)
  then show "n \<le> r" "0 < r" "r < 2 ^ 31" "int (mm_align t) dvd r" using assms(2) by auto
qed

lemma round_size_word:
  assumes "round_size t n = Some r" and "0 < n" and "n < 2 ^ 31"
  shows "unat (of_int r :: u32) = nat r" and "0 < (of_int r :: u32)" and "mm_align t dvd unat (of_int r :: u32)"
proof -
  note r = round_size_Some [OF assms]
  have "uint (of_int r :: u32) = r" using r(2, 3) by (simp add: uint_word_of_int)
  then show u: "unat (of_int r :: u32) = nat r" by (simp only: unat_eq_nat_uint)
  then show "0 < (of_int r :: u32)" using r(2) by (simp add: word_less_nat_alt)
  have "int (mm_align t) dvd int (nat r)" using r(2, 4) by simp
  then show "mm_align t dvd unat (of_int r :: u32)" using u by (simp only: int_dvd_int_iff)
qed

lemma init_inv:
  assumes "g t = None" and "init_mmgr_by_type t mstart bytes g = Some g'" and "unat mstart + unat bytes < 2 ^ 64"
    and "RESERVE_MEM_SIZE < unat bytes"
  shows "\<exists>mm. g' = g(t \<mapsto> mm) \<and> membase mm = mstart + 0x2000 \<and> totalsize mm = bytes - 0x2000 \<and>
    mm_inv t mm [(mstart + 0x2000, bytes - 0x2000)] []"
proof -
  let ?n = "\<lparr>nd_prev = None, nd_next = None, nd_base = mstart + 0x2000, nd_size = bytes - 0x2000, isused = NODE_USED\<rparr>"
  let ?mm = "\<lparr>membase = mstart + 0x2000, totalsize = bytes - 0x2000, num = 1, p_free = Some 0, p_alloc = None,
      pool = ?n # replicate 199 zero_node\<rparr>"
  have pl: "replicate MAXNUM_POOL zero_node = zero_node # replicate 199 zero_node"
    by (simp add: MAXNUM_POOL_def numeral_eq_Suc)
  have g': "g' = g(t \<mapsto> ?mm)"
    using assms(1, 2) unfolding init_mmgr_by_type_def pl
    by (simp add: find_valid_node_from_pool_def Let_def zero_node_def NODE_FREE_def RESERVE_MEM_SIZE_def node_upd_def)
  have "repr ?mm [0] [] []"
    unfolding repr_def by (auto simp: MAXNUM_POOL_def nth_Cons')
  then have h: "heap_is ?mm [(mstart + 0x2000, bytes - 0x2000)] []"
    unfolding heap_is_def by (intro exI [of _ "[0]"] exI [of _ "[]"]) (simp add: blk_def)
  have b: "unat (mstart + 0x2000) = unat mstart + 8192"
    using assms(3, 4) by (subst unat_add_small) (simp_all add: RESERVE_MEM_SIZE_def)
  have s: "unat (bytes - 0x2000) = unat bytes - 8192"
    using assms(4) by (subst unat_sub_small) (simp_all add: RESERVE_MEM_SIZE_def)
  have "heap_ok (mm_align t) (unat (mstart + 0x2000)) (unat (bytes - 0x2000)) [(mstart + 0x2000, bytes - 0x2000)] []"
    using assms(3, 4) b s u32_bound [of bytes] unfolding heap_ok_def
    by (simp add: tiles_def cells_def lo_def hi_def RESERVE_MEM_SIZE_def word_less_nat_alt)
  then show ?thesis using g' h by (intro exI [of _ ?mm]) (simp add: mm_inv_def)
qed

lemma alloc_inv:
  assumes "mm_inv t mm fr al" and "g t = Some mm" and "n < 2 ^ 31" and "mmgr_alloc_by_type t n g = Some (a, g')"
  shows "g' = g \<and> a = 0 \<or> (\<exists>mm' fr' sz. g' = g(t \<mapsto> mm') \<and> mm_inv t mm' fr' ((a, sz) # al) \<and> n \<le> int (unat sz) \<and>
    membase mm' = membase mm \<and> totalsize mm' = totalsize mm)"
proof (cases "n \<le> 0")
  case True
  then show ?thesis using assms(2, 4) by (auto simp: mmgr_alloc_by_type_def)
next
  case False
  obtain r where r: "round_size t n = Some r"
    using assms(2, 4) False by (cases "round_size t n") (auto simp: mmgr_alloc_by_type_def)
  have h: "heap_is mm fr al" "heap_ok (mm_align t) (unat (membase mm)) (unat (totalsize mm)) fr al"
    using assms(1) by (auto simp: mm_inv_def)
  have n: "0 < n" using False by simp
  note w = round_size_word [OF r n assms(3)]
  note ah = alloc_heap [of mm fr al g t n r, OF h(1) assms(2) n r]
  show ?thesis
  proof (cases "fit (of_int r) fr")
    case None
    then show ?thesis using ah(1) assms(4) by simp
  next
    case (Some p)
    obtain b fr' where p: "p = (b, fr')" by (cases p)
    have "length fr + length al \<noteq> MAXNUM_POOL" using ah(3) Some p assms(4) by auto
    then have "length fr + length al < MAXNUM_POOL" using heap_is_num(2) [OF h(1)] by simp
    then obtain mm' where m: "mmgr_alloc_by_type t n g = Some (b, g(t \<mapsto> mm'))" "heap_is mm' fr' ((b, of_int r) # al)"
        "membase mm' = membase mm" "totalsize mm' = totalsize mm" using ah(2) Some p by blast
    have "heap_ok (mm_align t) (unat (membase mm)) (unat (totalsize mm)) fr' ((b, of_int r) # al)"
      using fit_ok [OF h(2) _ w(2, 3)] Some p by simp
    moreover have "n \<le> int (unat (of_int r :: u32))" using w(1) round_size_Some(1, 2) [OF r n assms(3)] by simp
    ultimately show ?thesis using m assms(4)
      by (intro disjI2 exI [of _ mm'] exI [of _ fr'] exI [of _ "of_int r"]) (simp add: mm_inv_def)
  qed
qed

lemma free_inv:
  assumes "mm_inv t mm fr al" and "g t = Some mm" and "mmgr_free_by_type t a g = Some g'"
  shows "g' = g \<and> a \<notin> fst ` set al \<or> (\<exists>mm' fr' us s vs. g' = g(t \<mapsto> mm') \<and> al = us @ (a, s) # vs \<and> mm_inv t mm' fr' (us @ vs) \<and>
    membase mm' = membase mm \<and> totalsize mm' = totalsize mm)"
proof (cases "a \<in> fst ` set al")
  case False
  then show ?thesis using free_absent [of mm fr al g t a] assms by (simp add: mm_inv_def)
next
  case True
  then obtain x where x: "x \<in> set al" "fst x = a" by blast
  then obtain us y vs where s: "al = us @ y # vs" "fst y = a" "\<forall>z\<in>set us. fst z \<noteq> a"
    using split_list_first_prop [of al "\<lambda>z. fst z = a"] by blast
  obtain s where y: "y = (a, s)" using s(2) by (cases y) simp
  have na: "a \<notin> fst ` set us" using s(3) by auto
  have h: "heap_is mm fr (us @ (a, s) # vs)" "heap_ok (mm_align t) (unat (membase mm)) (unat (totalsize mm)) fr (us @ (a, s) # vs)"
    using assms(1) s(1) y by (auto simp: mm_inv_def)
  note fh = free_heap [where g = g and t = t, OF h(1) na assms(2)]
  show ?thesis
  proof (cases "\<forall>z\<in>set fr. fst z < a")
    case all: True
    then have "fr = []" using fh(3) assms(3) by auto
    then obtain mm' where m: "mmgr_free_by_type t a g = Some (g(t \<mapsto> mm'))" "heap_is mm' [(a, s)] (us @ vs)"
        "membase mm' = membase mm" "totalsize mm' = totalsize mm" using fh(1) by blast
    have "heap_ok (mm_align t) (unat (membase mm)) (unat (totalsize mm)) [(a, s)] (us @ vs)"
      using h(2) \<open>fr = []\<close> tiles_mset [of "us @ (a, s) # vs" "(a, s) # us @ vs"] unfolding heap_ok_def by (simp add: ball_Un)
    then show ?thesis using m assms(3) s(1) y by (intro disjI2 exI [of _ mm'] exI [of _ "[(a, s)]"] exI [of _ us] exI [of _ s] exI [of _ vs]) (simp add: mm_inv_def)
  next
    case False
    then obtain z where "z \<in> set fr" "\<not> fst z < a" by blast
    then obtain xs f ys where f: "fr = xs @ f # ys" "\<not> fst f < a" "\<forall>z\<in>set xs. fst z < a"
      using split_list_first_prop [of fr "\<lambda>z. \<not> fst z < a"] by blast
    obtain mm' where m: "mmgr_free_by_type t a g = Some (g(t \<mapsto> mm'))" "heap_is mm' (glue_right (glue_left xs (a, s)) f ys) (us @ vs)"
        "membase mm' = membase mm" "totalsize mm' = totalsize mm" using fh(2) [OF f(1, 3, 2)] by blast
    have "heap_ok (mm_align t) (unat (membase mm)) (unat (totalsize mm)) (glue_right (glue_left xs (a, s)) f ys) (us @ vs)"
      by (rule release_ok [OF h(2) [unfolded f(1)] f(3, 2)])
    then show ?thesis using m assms(3) s(1) y
      by (intro disjI2 exI [of _ mm'] exI [of _ "glue_right (glue_left xs (a, s)) f ys"] exI [of _ us] exI [of _ s] exI [of _ vs]) (simp add: mm_inv_def)
  qed
qed

lemma mm_reach_inv: "mm_reach g \<Longrightarrow> g t = Some mm \<Longrightarrow> \<exists>fr al. mm_inv t mm fr al"
proof (induction arbitrary: mm rule: mm_reach.induct)
  case (init g mstart bytes u g')
  show ?case
  proof (cases "g u = None")
    case True
    from init_inv [OF this init(4, 2, 3)] obtain m where "g' = g(u \<mapsto> m)" "mm_inv u m [(mstart + 0x2000, bytes - 0x2000)] []" by blast
    then show ?thesis using init.IH init.prems by (cases "t = u") auto
  next
    case False
    then have "g' = g" using init(4) by (simp add: init_mmgr_by_type_def)
    then show ?thesis using init.IH init.prems by simp
  qed
next
  case (alloc g n u a g')
  show ?case
  proof (cases "g u")
    case None
    then have "g' = g" using alloc.hyps by (simp add: mmgr_alloc_by_type_def)
    then show ?thesis using alloc.IH alloc.prems by simp
  next
    case (Some m)
    show ?thesis
    proof (cases "t = u")
      case True
      then obtain fr al where "mm_inv u m fr al" using alloc.IH Some by blast
      from alloc_inv [OF this Some alloc.hyps(2, 3)] consider "g' = g" | m' fr' al' where "g' = g(u \<mapsto> m')" "mm_inv u m' fr' al'" by blast
      then show ?thesis
      proof cases
        case 1
        then show ?thesis using alloc.IH alloc.prems by simp
      next
        case 2
        then show ?thesis using alloc.prems True by auto
      qed
    next
      case False
      then have "g' t = g t" using alloc.hyps Some by (auto simp: mmgr_alloc_by_type_def Let_def split: if_splits option.splits bind_splits)
      then show ?thesis using alloc.IH alloc.prems by simp
    qed
  qed
next
  case (free g u a g')
  show ?case
  proof (cases "g u")
    case None
    then have "g' = g" using free.hyps by (simp add: mmgr_free_by_type_def)
    then show ?thesis using free.IH free.prems by simp
  next
    case (Some m)
    show ?thesis
    proof (cases "t = u")
      case True
      then obtain fr al where "mm_inv u m fr al" using free.IH Some by blast
      from free_inv [OF this Some free.hyps(2)] consider "g' = g" | m' fr' al' where "g' = g(u \<mapsto> m')" "mm_inv u m' fr' al'" by blast
      then show ?thesis
      proof cases
        case 1
        then show ?thesis using free.IH free.prems by simp
      next
        case 2
        then show ?thesis using free.prems True by auto
      qed
    next
      case False
      then have "g' t = g t" using free.hyps Some by (auto simp: mmgr_free_by_type_def split: if_splits option.splits bind_splits)
      then show ?thesis using free.IH free.prems by simp
    qed
  qed
qed simp

section \<open>The block lists of a heap\<close>

text \<open>The blocks of a linked list, walked from its head.\<close>

fun list_blocks :: "nat \<Rightarrow> Mnode list \<Rightarrow> nat option \<Rightarrow> block list" where
  "list_blocks 0 pl p = []"
| "list_blocks (Suc fuel) pl p =
     (case p of None \<Rightarrow> [] | Some i \<Rightarrow> (nd_base (pl ! i), nd_size (pl ! i)) # list_blocks fuel pl (nd_next (pl ! i)))"

definition free_blocks :: "Memmgr \<Rightarrow> block list" where
  "free_blocks mm = list_blocks MAXNUM_POOL (pool mm) (p_free mm)"

definition alloc_blocks :: "Memmgr \<Rightarrow> block list" where
  "alloc_blocks mm = list_blocks MAXNUM_POOL (pool mm) (p_alloc mm)"

lemma list_blocks_seg:
  "seg pl p js None \<Longrightarrow> length js \<le> fuel \<Longrightarrow> list_blocks fuel pl (hdo js None) = map (\<lambda>i. (nd_base (pl ! i), nd_size (pl ! i))) js"
proof (induction js arbitrary: p fuel)
  case Nil
  then show ?case by (cases fuel) simp_all
next
  case (Cons i js)
  then obtain k where k: "fuel = Suc k" by (cases fuel) auto
  have "list_blocks k pl (hdo js None) = map (\<lambda>i. (nd_base (pl ! i), nd_size (pl ! i))) js"
    by (rule Cons.IH [of "Some i"]) (use Cons.prems k in simp_all)
  then show ?case using Cons.prems k by simp
qed

lemma heap_is_blocks:
  assumes "heap_is mm fr al"
  shows "free_blocks mm = fr" and "alloc_blocks mm = al"
proof -
  obtain fs as where h: "repr mm fs as []" "map (blk mm) fs = fr" "map (blk mm) as = al"
    using assms by (auto simp: heap_is_def)
  note q = reprD [OF h(1)]
  have l: "length fs \<le> MAXNUM_POOL" "length as \<le> MAXNUM_POOL" using repr_bound [OF h(1)] by simp_all
  show "free_blocks mm = fr" unfolding free_blocks_def q(4) h(2) [symmetric]
    using list_blocks_seg [OF q(3) l(1)] by (simp add: blk_def)
  show "alloc_blocks mm = al" unfolding alloc_blocks_def q(6) h(3) [symmetric]
    using list_blocks_seg [OF q(5) l(2)] by (simp add: blk_def)
qed

lemma mm_reach_blocks:
  assumes "mm_reach g" and "g t = Some mm"
  shows "heap_is mm (free_blocks mm) (alloc_blocks mm)"
    and "heap_ok (mm_align t) (unat (membase mm)) (unat (totalsize mm)) (free_blocks mm) (alloc_blocks mm)"
proof -
  obtain fr al where i: "mm_inv t mm fr al" using mm_reach_inv [OF assms] by blast
  then have "heap_is mm fr al" by (simp add: mm_inv_def)
  note b = heap_is_blocks [OF this]
  show "heap_is mm (free_blocks mm) (alloc_blocks mm)"
    "heap_ok (mm_align t) (unat (membase mm)) (unat (totalsize mm)) (free_blocks mm) (alloc_blocks mm)"
    using i by (simp_all add: mm_inv_def b)
qed

lemma mset_remove_nth: "i < length xs \<Longrightarrow> mset xs = mset (xs ! i # take i xs @ drop (Suc i) xs)"
  by (metis append_take_drop_id Cons_nth_drop_Suc mset.simps(2) mset_append union_mset_add_mset_right)

lemma nth_remove: "i < length xs \<Longrightarrow> j < length xs \<Longrightarrow> i \<noteq> j \<Longrightarrow> xs ! j \<in> set (take i xs @ drop (Suc i) xs)"
proof -
  assume a: "i < length xs" "j < length xs" "i \<noteq> j"
  show ?thesis
  proof (cases "j < i")
    case True
    then have "take i xs ! j = xs ! j" "j < length (take i xs)" using a by simp_all
    then have "xs ! j \<in> set (take i xs)" by (metis nth_mem)
    then show ?thesis by simp
  next
    case False
    then have "drop (Suc i) xs ! (j - Suc i) = xs ! j" "j - Suc i < length (drop (Suc i) xs)" using a by simp_all
    then have "xs ! j \<in> set (drop (Suc i) xs)" by (metis nth_mem)
    then show ?thesis by simp
  qed
qed

text \<open>A heap of 128 bytes at 0x3000: fresh, with one and with two blocks allocated, and with the lower one released.\<close>

lemma demo_init: "\<exists>g mm. mm_reach g \<and> g MEM_COMMON = Some mm \<and> free_blocks mm = [(0x3000, 128)] \<and> alloc_blocks mm = []"
proof -
  obtain g where g: "init_mmgr_by_type MEM_COMMON 0x1000 8320 (\<lambda>_. None) = Some g"
    by (simp add: init_mmgr_by_type_def Let_def find_valid_node_from_pool_def MAXNUM_POOL_def zero_node_def NODE_FREE_def
        numeral_eq_Suc node_upd_def)
  from init_inv [OF _ g] obtain mm where mm: "g = [MEM_COMMON \<mapsto> mm]" "mm_inv MEM_COMMON mm [(0x3000, 128)] []"
    by (auto simp: RESERVE_MEM_SIZE_def)
  have "mm_reach g" by (rule mm_reach.init [OF mm_reach.start _ _ g]) (simp_all add: RESERVE_MEM_SIZE_def)
  then show ?thesis using mm heap_is_blocks [of mm "[(0x3000, 128)]" "[]"] by (intro exI [of _ g] exI [of _ mm]) (simp add: mm_inv_def)
qed

lemma round_64: "round_size MEM_COMMON 64 = Some 64"
  by (simp add: round_size_def)

lemma demo_alloc:
  assumes "mm_reach g" and "g MEM_COMMON = Some mm" and "fit 64 (free_blocks mm) = Some (a, fr)" and "alloc_blocks mm = al"
    and "length (free_blocks mm) + length al < 200"
  shows "\<exists>m1. mmgr_alloc_by_type MEM_COMMON 64 g = Some (a, g(MEM_COMMON \<mapsto> m1)) \<and> mm_reach (g(MEM_COMMON \<mapsto> m1)) \<and>
    free_blocks m1 = fr \<and> alloc_blocks m1 = (a, 64) # al"
proof -
  have "fit (of_int 64) (free_blocks mm) = Some (a, fr)" using assms(3) by simp
  from alloc_heap(2) [where g = g and t = MEM_COMMON, OF mm_reach_blocks(1) [OF assms(1, 2)] assms(2) _ round_64 this] assms(4, 5)
  obtain m1 where m: "mmgr_alloc_by_type MEM_COMMON 64 g = Some (a, g(MEM_COMMON \<mapsto> m1))" "heap_is m1 fr ((a, 64) # al)"
    by (auto simp: MAXNUM_POOL_def)
  then show ?thesis using heap_is_blocks [OF m(2)] mm_reach.alloc [OF assms(1) _ m(1)] by (intro exI [of _ m1]) simp
qed

lemma demo_two:
  "\<exists>g mm. mm_reach g \<and> g MEM_COMMON = Some mm \<and> free_blocks mm = [] \<and> alloc_blocks mm = [(0x3040, 64), (0x3000, 64)]"
proof -
  obtain g mm where g: "mm_reach g" "g MEM_COMMON = Some mm" "free_blocks mm = [(0x3000, 128)]" "alloc_blocks mm = []"
    using demo_init by blast
  have "fit 64 (free_blocks mm) = Some (0x3000, [(0x3040, 64)])" using g(3) by simp
  from demo_alloc [OF g(1, 2) this g(4)] g(3) obtain m1 where m1: "mm_reach (g(MEM_COMMON \<mapsto> m1))"
      "free_blocks m1 = [(0x3040, 64)]" "alloc_blocks m1 = [(0x3000, 64)]" by auto
  have "fit 64 (free_blocks m1) = Some (0x3040, [])" using m1(2) by simp
  from demo_alloc [OF m1(1) _ this m1(3)] m1(2) obtain m2 where "mm_reach (g(MEM_COMMON \<mapsto> m2))"
      "free_blocks m2 = []" "alloc_blocks m2 = [(0x3040, 64), (0x3000, 64)]" by auto
  then show ?thesis by (intro exI [of _ "g(MEM_COMMON \<mapsto> m2)"] exI [of _ m2]) simp
qed

lemma demo_gap:
  "\<exists>g mm. mm_reach g \<and> g MEM_COMMON = Some mm \<and> free_blocks mm = [(0x3000, 64)] \<and> alloc_blocks mm = [(0x3040, 64)]"
proof -
  obtain g mm where g: "mm_reach g" "g MEM_COMMON = Some mm" "free_blocks mm = []" "alloc_blocks mm = [(0x3040, 64), (0x3000, 64)]"
    using demo_two by blast
  have "heap_is mm [] ([(0x3040, 64)] @ (0x3000, 64) # [])" using mm_reach_blocks(1) [OF g(1, 2)] g(3, 4) by simp
  from free_heap(1) [of mm "[]" "[(0x3040, 64)]" "0x3000" 64 "[]" g MEM_COMMON, OF this _ g(2)] obtain m1 where m1: "mmgr_free_by_type MEM_COMMON 0x3000 g = Some (g(MEM_COMMON \<mapsto> m1))"
      "heap_is m1 [(0x3000, 64)] [(0x3040, 64)]" by auto
  then show ?thesis using heap_is_blocks [OF m1(2)] mm_reach.free [OF g(1) m1(1)]
    by (intro exI [of _ "g(MEM_COMMON \<mapsto> m1)"] exI [of _ m1]) simp
qed

section \<open>Theorems\<close>

text \<open>
  C15: For every sequence of initialisations, allocations and releases, in each memory type:
  allocated blocks never overlap each other or a free block, lie inside the managed region
  and start at a multiple of the alignment from its base; the sizes of all blocks add up to
  the whole region (no memory is lost), and the free list is ordered by address without
  adjacent blocks.
\<close>

theorem mmgr_blocks_disjoint:
  assumes "mm_reach g" and "g t = Some mm"
  shows "(\<forall>i < length (alloc_blocks mm). \<forall>j < length (alloc_blocks mm). i \<noteq> j \<longrightarrow>
        hi (alloc_blocks mm ! i) \<le> lo (alloc_blocks mm ! j) \<or> hi (alloc_blocks mm ! j) \<le> lo (alloc_blocks mm ! i)) \<and>
    (\<forall>x \<in> set (alloc_blocks mm). \<forall>y \<in> set (free_blocks mm). hi x \<le> lo y \<or> hi y \<le> lo x) \<and>
    (\<forall>x \<in> set (alloc_blocks mm). unat (membase mm) \<le> lo x \<and> hi x \<le> unat (membase mm) + unat (totalsize mm) \<and>
        mm_align t dvd (lo x - unat (membase mm))) \<and>
    (\<Sum>x\<leftarrow>free_blocks mm @ alloc_blocks mm. unat (snd x)) = unat (totalsize mm) \<and>
    sorted_wrt (\<lambda>x y. hi x < lo y) (free_blocks mm)"
proof -
  let ?al = "alloc_blocks mm" and ?fr = "free_blocks mm"
  note ok = mm_reach_blocks(2) [OF assms]
  note d = heap_ok_disjoint [OF ok] and b = heap_ok_block [OF ok]
  have 1: "hi (?al ! i) \<le> lo (?al ! j) \<or> hi (?al ! j) \<le> lo (?al ! i)" if "i < length ?al" "j < length ?al" "i \<noteq> j" for i j
  proof (rule d)
    show "mset (?fr @ ?al) = mset (?al ! i # ?fr @ take i ?al @ drop (Suc i) ?al)" using mset_remove_nth [OF that(1)] by simp
    show "?al ! j \<in> set (?fr @ take i ?al @ drop (Suc i) ?al)" using nth_remove [OF that] by simp
  qed
  have 2: "hi x \<le> lo y \<or> hi y \<le> lo x" if x: "x \<in> set ?al" and y: "y \<in> set ?fr" for x y
  proof -
    obtain us vs where "?al = us @ x # vs" using split_list [OF x] by blast
    then have m: "mset (?fr @ ?al) = mset (x # ?fr @ us @ vs)" by simp
    show ?thesis by (rule d [OF m]) (use y in simp)
  qed
  have 3: "unat (membase mm) \<le> lo x \<and> hi x \<le> unat (membase mm) + unat (totalsize mm) \<and> mm_align t dvd (lo x - unat (membase mm))"
    if "x \<in> set ?al" for x using b(2, 3, 5) [of x] that by simp
  have 4: "(\<Sum>x\<leftarrow>?fr @ ?al. unat (snd x)) = unat (totalsize mm)"
    using ok by (simp add: heap_ok_def tiles_def lo_def hi_def)
  have 5: "sorted_wrt (\<lambda>x y. hi x < lo y) ?fr" using ok by (simp add: heap_ok_def)
  show ?thesis using 1 2 3 4 5 by blast
qed

theorem mmgr_blocks_disjoint_witness:
  "\<exists>g mm. mm_reach g \<and> g MEM_COMMON = Some mm \<and> length (alloc_blocks mm) = 2 \<and>
     (hi (alloc_blocks mm ! 0) \<le> lo (alloc_blocks mm ! 1) \<or> hi (alloc_blocks mm ! 1) \<le> lo (alloc_blocks mm ! 0))"
proof -
  obtain g mm where g: "mm_reach g" "g MEM_COMMON = Some mm" "alloc_blocks mm = [(0x3040, 64), (0x3000, 64)]"
    using demo_two by blast
  from mmgr_blocks_disjoint [OF g(1, 2), THEN conjunct1, rule_format, of 0 1] g show ?thesis
    by (intro exI [of _ g] exI [of _ mm]) simp
qed

text \<open>
  C16: With a node left in the pool an allocation always returns: if some free block is at
  least as large as the rounded size, the new block has that size and becomes the head of
  the allocated list, the others unchanged; otherwise the result is null and nothing changes.
\<close>

theorem mmgr_alloc_result:
  assumes "mm_reach g" and "g t = Some mm" and "0 < n" and "round_size t n = Some r" and "unat (num mm) < MAXNUM_POOL"
  shows "\<exists>a g'. mmgr_alloc_by_type t n g = Some (a, g') \<and>
    (if \<exists>x \<in> set (free_blocks mm). of_int r \<le> snd x
     then \<exists>mm'. g' = g(t \<mapsto> mm') \<and> alloc_blocks mm' = (a, of_int r) # alloc_blocks mm
     else a = 0 \<and> g' = g)"
proof -
  note h = mm_reach_blocks(1) [OF assms(1, 2)]
  note al = alloc_heap [of mm _ _ g t n r, OF h assms(2-4)]
  show ?thesis
  proof (cases "fit (of_int r) (free_blocks mm)")
    case None
    then show ?thesis using al(1) by (auto simp: fit_None)
  next
    case (Some p)
    obtain a fr' where p: "p = (a, fr')" by (cases p)
    have "length (free_blocks mm) + length (alloc_blocks mm) < MAXNUM_POOL" using heap_is_num(1) [OF h] assms(5) by simp
    then obtain mm' where m: "mmgr_alloc_by_type t n g = Some (a, g(t \<mapsto> mm'))" "heap_is mm' fr' ((a, of_int r) # alloc_blocks mm)"
      using al(2) Some p by blast
    moreover have "\<exists>x \<in> set (free_blocks mm). of_int r \<le> snd x" using Some fit_None [of "of_int r" "free_blocks mm"] by (metis option.distinct(1))
    ultimately show ?thesis using heap_is_blocks(2) [OF m(2)] by (intro exI [of _ a] exI [of _ "g(t \<mapsto> mm')"]) auto
  qed
qed

theorem mmgr_alloc_result_witness:
  "\<exists>g mm a g'. mm_reach g \<and> g MEM_COMMON = Some mm \<and> mmgr_alloc_by_type MEM_COMMON 64 g = Some (a, g') \<and>
     (\<exists>mm'. g' = g(MEM_COMMON \<mapsto> mm') \<and> alloc_blocks mm' = [(a, 64)])"
proof -
  obtain g mm where g: "mm_reach g" "g MEM_COMMON = Some mm" "free_blocks mm = [(0x3000, 128)]" "alloc_blocks mm = []"
    using demo_init by blast
  have "unat (num mm) < MAXNUM_POOL"
    using heap_is_num(1) [OF mm_reach_blocks(1) [OF g(1, 2)]] g(3, 4) by (simp add: MAXNUM_POOL_def)
  from mmgr_alloc_result [OF g(1, 2) _ round_64 this] g(3, 4)
  obtain a g' where "mmgr_alloc_by_type MEM_COMMON 64 g = Some (a, g')" "\<exists>mm'. g' = g(MEM_COMMON \<mapsto> mm') \<and> alloc_blocks mm' = [(a, 64)]"
    by auto
  with g(1, 2) show ?thesis by (intro exI [of _ g] exI [of _ mm] exI [of _ a] exI [of _ g']) simp
qed

text \<open>
  C17: Releasing a block that was just split off a larger free block restores both block
  lists exactly.
\<close>

theorem mmgr_alloc_free_roundtrip:
  assumes "mm_reach g" and "g t = Some mm" and "0 < n" and "n < 2 ^ 31" and "mmgr_alloc_by_type t n g = Some (a, g1)"
    and "g1 t = Some m1" and "alloc_blocks m1 \<noteq> alloc_blocks mm" and "length (free_blocks m1) = length (free_blocks mm)"
  shows "\<exists>m2. mmgr_free_by_type t a g1 = Some (g1(t \<mapsto> m2)) \<and> free_blocks m2 = free_blocks mm \<and> alloc_blocks m2 = alloc_blocks mm"
proof -
  note h = mm_reach_blocks [OF assms(1, 2)]
  obtain r where r: "round_size t n = Some r"
    using assms(2, 3, 5) by (cases "round_size t n") (auto simp: mmgr_alloc_by_type_def)
  note al = alloc_heap [of mm _ _ g t n r, OF h(1) assms(2, 3) r]
  let ?sz = "of_int r :: u32"
  obtain fr' where fit: "fit ?sz (free_blocks mm) = Some (a, fr')" and h1: "heap_is m1 fr' ((a, ?sz) # alloc_blocks mm)"
  proof (cases "fit ?sz (free_blocks mm)")
    case None
    then show thesis using al(1) assms(2, 5-7) by simp
  next
    case (Some p)
    obtain b fr' where p: "p = (b, fr')" by (cases p)
    have "length (free_blocks mm) + length (alloc_blocks mm) \<noteq> MAXNUM_POOL" using al(3) Some p assms(5) by auto
    then have "length (free_blocks mm) + length (alloc_blocks mm) < MAXNUM_POOL" using heap_is_num(2) [OF h(1)] by simp
    then obtain mm' where "mmgr_alloc_by_type t n g = Some (b, g(t \<mapsto> mm'))" "heap_is mm' fr' ((b, ?sz) # alloc_blocks mm)"
      using al(2) Some p by blast
    then show thesis using that [of fr'] Some p assms(5, 6) by simp
  qed
  obtain us s vs where f: "free_blocks mm = us @ (a, s) # vs" "?sz \<le> s" "fr' = us @ (if s = ?sz then vs else (a + ucast ?sz, s - ?sz) # vs)"
    using fit_SomeD [OF fit] by blast
  have "length fr' = length (free_blocks mm)" using heap_is_blocks(1) [OF h1] assms(8) by simp
  then have s: "s \<noteq> ?sz" using f by auto
  let ?f = "(a + ucast ?sz, s - ?sz) :: block"
  have hb: "hi (a, s) < 2 ^ 64" using heap_ok_block(4) [OF h(2), of "(a, s)"] f(1) by simp
  have le: "unat ?sz \<le> unat s" using f(2) by (simp add: word_le_nat_alt)
  have lt: "\<forall>x\<in>set us. hi x < lo (a, s)" using h(2) f(1) by (auto simp: heap_ok_def sorted_wrt_append)
  have us: "\<forall>x\<in>set us. fst x < a"
  proof
    fix x assume "x \<in> set us"
    then have "hi x < lo (a, s)" using lt by blast
    then have "lo x < lo (a, s)" using lo_le_hi [of x] by (rule le_less_trans [rotated])
    then show "fst x < a" by (simp add: lo_def word_less_nat_alt)
  qed
  have "unat (a + ucast ?sz) = unat a + unat ?sz" using hb le by (subst unat_add_small) (simp_all add: unat_ucast64 hi_def)
  then have nf: "\<not> fst ?f < a" by (simp add: word_less_nat_alt)
  have left: "glue_left us (a, ?sz) = us @ [(a, ?sz)]"
  proof (cases us rule: rev_cases)
    case (snoc ws u)
    have "hi u < lo (a, ?sz)" using lt snoc by (simp add: lo_def)
    moreover have "hi u < 2 ^ 64" using heap_ok_block(4) [OF h(2), of u] f(1) snoc by simp
    ultimately have "\<not> adjacent u (a, ?sz)" using adjacent_iff [of u "(a, ?sz)"] by simp
    then show ?thesis using snoc by (simp add: glue_left_def)
  qed (simp add: glue_left_def)
  have right: "glue_right (us @ [(a, ?sz)]) ?f vs = us @ (a, s) # vs"
    by (simp add: glue_right_def adjacent_def join_def butlast_append)
  have "fr' = us @ ?f # vs" using f(3) s by simp
  from free_heap(2) [of m1 fr' "[]" a ?sz "alloc_blocks mm" g1 t, OF _ _ assms(6) this us nf] h1
  obtain m2 where m2: "mmgr_free_by_type t a g1 = Some (g1(t \<mapsto> m2))" "heap_is m2 (us @ (a, s) # vs) (alloc_blocks mm)"
    using left right by auto
  then show ?thesis using heap_is_blocks [OF m2(2)] f(1) by (intro exI [of _ m2]) simp
qed

theorem mmgr_alloc_free_roundtrip_witness:
  "\<exists>g mm m1 m2. g MEM_COMMON = Some mm \<and> mmgr_alloc_by_type MEM_COMMON 64 g = Some (0x3000, g(MEM_COMMON \<mapsto> m1)) \<and>
     mmgr_free_by_type MEM_COMMON 0x3000 (g(MEM_COMMON \<mapsto> m1)) = Some (g(MEM_COMMON \<mapsto> m2)) \<and>
     free_blocks m2 = free_blocks mm \<and> alloc_blocks m2 = alloc_blocks mm"
proof -
  obtain g mm where g: "mm_reach g" "g MEM_COMMON = Some mm" "free_blocks mm = [(0x3000, 128)]" "alloc_blocks mm = []"
    using demo_init by blast
  have "fit 64 (free_blocks mm) = Some (0x3000, [(0x3040, 64)])" using g(3) by simp
  from demo_alloc [OF g(1, 2) this g(4)] g(3) obtain m1 where
      m1: "mmgr_alloc_by_type MEM_COMMON 64 g = Some (0x3000, g(MEM_COMMON \<mapsto> m1))" "free_blocks m1 = [(0x3040, 64)]"
        "alloc_blocks m1 = [(0x3000, 64)]" by auto
  from mmgr_alloc_free_roundtrip [where g = g and t = MEM_COMMON, OF g(1, 2) _ _ m1(1), of m1] m1 g(3, 4) obtain m2 where
      "mmgr_free_by_type MEM_COMMON 0x3000 (g(MEM_COMMON \<mapsto> m1)) = Some (g(MEM_COMMON \<mapsto> m2))"
      "free_blocks m2 = free_blocks mm" "alloc_blocks m2 = alloc_blocks mm" by auto
  with g(2) m1(1) show ?thesis by (intro exI [of _ g] exI [of _ mm] exI [of _ m1] exI [of _ m2]) simp
qed

text \<open>
  C18: Releasing an allocated block that lies above every free block, when there is one,
  follows a null pointer.
\<close>

theorem mmgr_free_above_faults:
  assumes "mm_reach g" and "g t = Some mm" and "a \<in> fst ` set (alloc_blocks mm)" and "free_blocks mm \<noteq> []"
    and "\<forall>x \<in> set (free_blocks mm). fst x < a"
  shows "mmgr_free_by_type t a g = None"
proof -
  obtain us y vs where s: "alloc_blocks mm = us @ y # vs" "fst y = a" "\<forall>z\<in>set us. fst z \<noteq> a"
    using split_list_first_prop [of "alloc_blocks mm" "\<lambda>z. fst z = a"] assms(3) by blast
  obtain s where y: "y = (a, s)" using s(2) by (cases y) simp
  have "a \<notin> fst ` set us" using s(3) by auto
  then show ?thesis
    using free_heap(3) [of mm "free_blocks mm" us a s vs g t] mm_reach_blocks(1) [OF assms(1, 2)] s(1) y assms(2, 4, 5) by simp
qed

theorem mmgr_free_above_faults_witness:
  "\<exists>g mm. mm_reach g \<and> g MEM_COMMON = Some mm \<and> alloc_blocks mm = [(0x3040, 64)] \<and>
     mmgr_free_by_type MEM_COMMON 0x3040 g = None"
proof -
  obtain g mm where g: "mm_reach g" "g MEM_COMMON = Some mm" "free_blocks mm = [(0x3000, 64)]" "alloc_blocks mm = [(0x3040, 64)]"
    using demo_gap by blast
  from mmgr_free_above_faults [of g MEM_COMMON mm "0x3040"] g show ?thesis by (intro exI [of _ g] exI [of _ mm]) simp
qed

end
