(* ===== verification/Ir_Keys.thy ===== *)
theory Ir_Keys
  imports Sm_Power
begin

text \<open>
  The key tables of the remote controls (\<^verbatim>\<open>ir_*_key_table*.h\<close>), the key codes of
  \<^verbatim>\<open>sm_ir_key_def.h\<close> that they use, and the translation of a received code
  (\<open>Translate_IRCode\<close> of \<^verbatim>\<open>sm_ir.c\<close>).
\<close>

section \<open>Key codes\<close>

definition MV_IR_KEY_NULL :: u32 where "MV_IR_KEY_NULL = 0x0"
definition MV_IR_KEY_OPENCLOSE :: u32 where "MV_IR_KEY_OPENCLOSE = 0x201"
definition MV_IR_KEY_DIGIT_1 :: u32 where "MV_IR_KEY_DIGIT_1 = 0x1000"
definition MV_IR_KEY_DIGIT_2 :: u32 where "MV_IR_KEY_DIGIT_2 = 0x1001"
definition MV_IR_KEY_DIGIT_3 :: u32 where "MV_IR_KEY_DIGIT_3 = 0x1002"
definition MV_IR_KEY_DIGIT_4 :: u32 where "MV_IR_KEY_DIGIT_4 = 0x1003"
definition MV_IR_KEY_DIGIT_5 :: u32 where "MV_IR_KEY_DIGIT_5 = 0x1004"
definition MV_IR_KEY_DIGIT_6 :: u32 where "MV_IR_KEY_DIGIT_6 = 0x1005"
definition MV_IR_KEY_DIGIT_7 :: u32 where "MV_IR_KEY_DIGIT_7 = 0x1006"
definition MV_IR_KEY_DIGIT_8 :: u32 where "MV_IR_KEY_DIGIT_8 = 0x1007"
definition MV_IR_KEY_DIGIT_9 :: u32 where "MV_IR_KEY_DIGIT_9 = 0x1008"
definition MV_IR_KEY_DIGIT_0 :: u32 where "MV_IR_KEY_DIGIT_0 = 0x1009"
definition MV_IR_KEY_INFO :: u32 where "MV_IR_KEY_INFO = 0x2000"
definition MV_IR_KEY_SETUPMENU :: u32 where "MV_IR_KEY_SETUPMENU = 0x2001"
definition MV_IR_KEY_DISCMENU :: u32 where "MV_IR_KEY_DISCMENU = 0x2003"
definition MV_IR_KEY_TITLEMENU :: u32 where "MV_IR_KEY_TITLEMENU = 0x2004"
definition MV_IR_KEY_SUBTITLE :: u32 where "MV_IR_KEY_SUBTITLE = 0x2005"
definition MV_IR_KEY_ANGLE :: u32 where "MV_IR_KEY_ANGLE = 0x2006"
definition MV_IR_KEY_AUDIO :: u32 where "MV_IR_KEY_AUDIO = 0x2007"
definition MV_IR_KEY_SEARCH :: u32 where "MV_IR_KEY_SEARCH = 0x2008"
definition MV_IR_KEY_ZOOM :: u32 where "MV_IR_KEY_ZOOM = 0x2009"
definition MV_IR_KEY_DISPLAY :: u32 where "MV_IR_KEY_DISPLAY = 0x200a"
definition MV_IR_KEY_REPEAT :: u32 where "MV_IR_KEY_REPEAT = 0x200b"
definition MV_IR_KEY_REPEAT_AB :: u32 where "MV_IR_KEY_REPEAT_AB = 0x200c"
definition MV_IR_KEY_PIP :: u32 where "MV_IR_KEY_PIP = 0x200d"
definition MV_IR_KEY_EXIT :: u32 where "MV_IR_KEY_EXIT = 0x200e"
definition MV_IR_KEY_A :: u32 where "MV_IR_KEY_A = 0x200f"
definition MV_IR_KEY_B :: u32 where "MV_IR_KEY_B = 0x2010"
definition MV_IR_KEY_C :: u32 where "MV_IR_KEY_C = 0x2011"
definition MV_IR_KEY_D :: u32 where "MV_IR_KEY_D = 0x2012"
definition MV_IR_KEY_STEP :: u32 where "MV_IR_KEY_STEP = 0x3002"
definition MV_IR_KEY_RETURN :: u32 where "MV_IR_KEY_RETURN = 0x3003"
definition MV_IR_KEY_TITLE :: u32 where "MV_IR_KEY_TITLE = 0x3004"
definition MV_IR_KEY_UP :: u32 where "MV_IR_KEY_UP = 0x4000"
definition MV_IR_KEY_DOWN :: u32 where "MV_IR_KEY_DOWN = 0x4001"
definition MV_IR_KEY_LEFT :: u32 where "MV_IR_KEY_LEFT = 0x4002"
definition MV_IR_KEY_RIGHT :: u32 where "MV_IR_KEY_RIGHT = 0x4003"
definition MV_IR_KEY_ENTER :: u32 where "MV_IR_KEY_ENTER = 0x4004"
definition MV_IR_KEY_SLOW :: u32 where "MV_IR_KEY_SLOW = 0x4005"
definition MV_IR_KEY_PAUSE :: u32 where "MV_IR_KEY_PAUSE = 0x4006"
definition MV_IR_KEY_PLAY :: u32 where "MV_IR_KEY_PLAY = 0x4007"
definition MV_IR_KEY_STOP :: u32 where "MV_IR_KEY_STOP = 0x4008"
definition MV_IR_KEY_PLAY_PAUSE :: u32 where "MV_IR_KEY_PLAY_PAUSE = 0x4009"
definition MV_IR_KEY_SKIP_BACKWARD :: u32 where "MV_IR_KEY_SKIP_BACKWARD = 0x400a"
definition MV_IR_KEY_SKIP_FORWARD :: u32 where "MV_IR_KEY_SKIP_FORWARD = 0x400b"
definition MV_IR_KEY_FAST_BACKWARD :: u32 where "MV_IR_KEY_FAST_BACKWARD = 0x400e"
definition MV_IR_KEY_FAST_FORWARD :: u32 where "MV_IR_KEY_FAST_FORWARD = 0x400f"
definition MV_IR_KEY_F1 :: u32 where "MV_IR_KEY_F1 = 0x5000"
definition MV_IR_KEY_F2 :: u32 where "MV_IR_KEY_F2 = 0x5001"
definition MV_IR_KEY_F3 :: u32 where "MV_IR_KEY_F3 = 0x5002"
definition MV_IR_KEY_F4 :: u32 where "MV_IR_KEY_F4 = 0x5003"
definition MV_IR_KEY_F5 :: u32 where "MV_IR_KEY_F5 = 0x5004"
definition MV_IR_KEY_F6 :: u32 where "MV_IR_KEY_F6 = 0x5005"
definition MV_IR_KEY_F7 :: u32 where "MV_IR_KEY_F7 = 0x5006"
definition MV_IR_KEY_F8 :: u32 where "MV_IR_KEY_F8 = 0x5007"
definition MV_IR_KEY_VOL_PLUS :: u32 where "MV_IR_KEY_VOL_PLUS = 0x6000"
definition MV_IR_KEY_VOL_MINUS :: u32 where "MV_IR_KEY_VOL_MINUS = 0x6001"
definition MV_IR_KEY_VOL_MUTE :: u32 where "MV_IR_KEY_VOL_MUTE = 0x6002"
definition MV_IR_KEY_CHANNEL_PLUS :: u32 where "MV_IR_KEY_CHANNEL_PLUS = 0x6003"
definition MV_IR_KEY_CHANNEL_MINUS :: u32 where "MV_IR_KEY_CHANNEL_MINUS = 0x6004"
definition MV_IR_KEY_HOME :: u32 where "MV_IR_KEY_HOME = 0x6005"
definition MV_IR_KEY_HOMEPAGE :: u32 where "MV_IR_KEY_HOMEPAGE = 0x6007"
definition MV_IR_KEY_MENU :: u32 where "MV_IR_KEY_MENU = 0x6008"
definition MV_IR_KEY_TVPOWER :: u32 where "MV_IR_KEY_TVPOWER = 0x600d"
definition MV_IR_KEY_MARKER :: u32 where "MV_IR_KEY_MARKER = 0x600e"
definition MV_IR_KEY_GUIDE :: u32 where "MV_IR_KEY_GUIDE = 0x6010"
definition MV_IR_KEY_LAST :: u32 where "MV_IR_KEY_LAST = 0x6012"
definition MV_IR_KEY_INPUT :: u32 where "MV_IR_KEY_INPUT = 0x6018"
definition MV_IR_KEY_TV_INPUT :: u32 where "MV_IR_KEY_TV_INPUT = 0x601e"
definition MV_IR_KEY_REC :: u32 where "MV_IR_KEY_REC = 0x6020"
definition MV_IR_KEY_BACK :: u32 where "MV_IR_KEY_BACK = 0x6021"
definition MV_IR_KEY_BOOKMARKS :: u32 where "MV_IR_KEY_BOOKMARKS = 0x6022"
definition MV_IR_KEY_SWITCHVIDEOMODE :: u32 where "MV_IR_KEY_SWITCHVIDEOMODE = 0x6023"
definition MV_IR_KB_PAGEUP :: u32 where "MV_IR_KB_PAGEUP = 0x8048"
definition MV_IR_KB_PAGEDOWN :: u32 where "MV_IR_KB_PAGEDOWN = 0x804a"
definition MV_IR_KEY_RED :: u32 where "MV_IR_KEY_RED = MV_IR_KEY_A"
definition MV_IR_KEY_GREEN :: u32 where "MV_IR_KEY_GREEN = MV_IR_KEY_B"
definition MV_IR_KEY_YELLOW :: u32 where "MV_IR_KEY_YELLOW = MV_IR_KEY_C"
definition MV_IR_KEY_BLUE :: u32 where "MV_IR_KEY_BLUE = MV_IR_KEY_D"

definition MV_IR_HOLDKEY_KEY :: "u32 \<Rightarrow> u32" where
  "MV_IR_HOLDKEY_KEY key = key OR MV_IR_HOLDKEY_FLAG"

section \<open>Tables\<close>

record ir_key_table_t =
  key_bitpos :: u32
  key_mask :: u32
  ir_encode :: u32
  ir_key :: u32

fun ir_key_entry :: "u32 \<times> u32 \<times> u32 \<times> u32 \<Rightarrow> ir_key_table_t" where
  "ir_key_entry (b, m, e, k) = \<lparr>key_bitpos = b, key_mask = m, ir_encode = e, ir_key = k\<rparr>"

definition vendor_ir_nec_table_syna :: "ir_key_table_t list" where
  "vendor_ir_nec_table_syna = map ir_key_entry
    [(0, 0xffffffff, 0xfd02ff00, MV_IR_KEY_POWER),
     (0, 0xffffffff, 0x9f60ff00, MV_IR_KEY_SWITCHVIDEOMODE),
     (0, 0xffffffff, 0xe11eff00, MV_IR_KEY_OPENCLOSE),
     (0, 0xffffffff, 0xfc03ff00, MV_IR_KEY_DISCMENU),
     (0, 0xffffffff, 0xf807ff00, MV_IR_KEY_TITLEMENU),
     (0, 0xffffffff, 0xbf40ff00, MV_IR_KEY_SUBTITLE),
     (0, 0xffffffff, 0xbb44ff00, MV_IR_KEY_ANGLE),
     (0, 0xffffffff, 0xf40bff00, MV_IR_KEY_DIGIT_1),
     (0, 0xffffffff, 0xec13ff00, MV_IR_KEY_DIGIT_2),
     (0, 0xffffffff, 0xe41bff00, MV_IR_KEY_DIGIT_3),
     (0, 0xffffffff, 0xf00fff00, MV_IR_KEY_DIGIT_4),
     (0, 0xffffffff, 0xe817ff00, MV_IR_KEY_DIGIT_5),
     (0, 0xffffffff, 0xe01fff00, MV_IR_KEY_DIGIT_6),
     (0, 0xffffffff, 0xb748ff00, MV_IR_KEY_DIGIT_7),
     (0, 0xffffffff, 0xaf50ff00, MV_IR_KEY_DIGIT_8),
     (0, 0xffffffff, 0xa758ff00, MV_IR_KEY_DIGIT_9),
     (0, 0xffffffff, 0xab54ff00, MV_IR_KEY_DIGIT_0),
     (0, 0xffffffff, 0xb34cff00, MV_IR_KEY_INFO),
     (0, 0xffffffff, 0xa35cff00, MV_IR_KEY_F3),
     (0, 0xffffffff, 0xbe41ff00, MV_IR_KEY_AUDIO),
     (0, 0xffffffff, 0xb649ff00, MV_IR_KEY_SEARCH),
     (0, 0xffffffff, 0xae51ff00, MV_IR_KEY_ZOOM),
     (0, 0xffffffff, 0xa659ff00, MV_IR_KEY_DISPLAY),
     (0, 0xffffffff, 0xba45ff00, MV_IR_KEY_REPEAT),
     (0, 0xffffffff, 0xb24dff00, MV_IR_KEY_REPEAT_AB),
     (0, 0xffffffff, 0xaa55ff00, MV_IR_KEY_PIP),
     (0, 0xffffffff, 0xa25dff00, MV_IR_KEY_EXIT),
     (0, 0xffffffff, 0xbd42ff00, MV_IR_KEY_A),
     (0, 0xffffffff, 0xb54aff00, MV_IR_KEY_B),
     (0, 0xffffffff, 0xa956ff00, MV_IR_KEY_C),
     (0, 0xffffffff, 0xa15eff00, MV_IR_KEY_D),
     (0, 0xffffffff, 0x8b74ff00, MV_IR_KEY_BOOKMARKS),
     (0, 0xffffffff, 0xbc43ff00, MV_IR_KEY_HOME),
     (0, 0xffffffff, 0xa55aff00, MV_IR_KEY_TITLEMENU),
     (0, 0xffffffff, 0xb04fff00, MV_IR_KEY_UP),
     (0, 0xffffffff, 0xa857ff00, MV_IR_KEY_DOWN),
     (0, 0xffffffff, 0xb44bff00, MV_IR_KEY_LEFT),
     (0, 0xffffffff, 0xa45bff00, MV_IR_KEY_RIGHT),
     (0, 0xffffffff, 0xac53ff00, MV_IR_KEY_ENTER),
     (0, 0xffffffff, 0xb847ff00, MV_IR_KEY_STEP),
     (0, 0xffffffff, 0xa05fff00, MV_IR_KEY_BACK),
     (0, 0xffffffff, 0xfe01ff00, MV_IR_KEY_SLOW),
     (0, 0xffffffff, 0xf609ff00, MV_IR_KEY_PAUSE),
     (0, 0xffffffff, 0xee11ff00, MV_IR_KEY_PLAY_PAUSE),
     (0, 0xffffffff, 0xe619ff00, MV_IR_KEY_STOP),
     (0, 0xffffffff, 0xfa05ff00, MV_IR_KEY_FAST_BACKWARD),
     (0, 0xffffffff, 0xf20dff00, MV_IR_KEY_FAST_FORWARD),
     (0, 0xffffffff, 0xea15ff00, MV_IR_KEY_SKIP_BACKWARD),
     (0, 0xffffffff, 0xe21dff00, MV_IR_KEY_SKIP_FORWARD),
     (0, 0xffffffff, 0xff00ff00, MV_IR_KEY_F1),
     (0, 0xffffffff, 0xf708ff00, MV_IR_KEY_F2),
     (0, 0xffffffff, 0xef10ff00, MV_IR_KEY_F3),
     (0, 0xffffffff, 0xe718ff00, MV_IR_KEY_SEARCH),
     (0, 0xffffffff, 0xfb04ff00, MV_IR_KEY_VOL_MUTE),
     (0, 0xffffffff, 0xf30cff00, MV_IR_KEY_VOL_MINUS),
     (0, 0xffffffff, 0xeb14ff00, MV_IR_KEY_VOL_PLUS),
     (0, 0xffffffff, 0xcc33ff00, MV_IR_KEY_CHANNEL_PLUS),
     (0, 0xffffffff, 0xcb34ff00, MV_IR_KEY_CHANNEL_MINUS),
     (0, 0xffffffff, 0xe31cff00, MV_IR_KEY_F8),
     (0, 0xffffffff, 0x9c63ff00, MV_IR_KEY_F2),
     (0, 0xffffffff, 0x9b64ff00, MV_IR_KEY_F1),
     (0, 0xffffffff, 0xb946ff00, MV_IR_KEY_SEARCH),
     (0, 0xffffffff, 0xcd32ff00, MV_IR_KEY_GUIDE),
     (0, 0xffffffff, 0xde217788, MV_IR_KEY_POWER),
     (0, 0xffffffff, 0x9f607788, MV_IR_KEY_INPUT),
     (0, 0xffffffff, 0xfe017788, MV_IR_KEY_DIGIT_1),
     (0, 0xffffffff, 0xfd027788, MV_IR_KEY_DIGIT_2),
     (0, 0xffffffff, 0xfc037788, MV_IR_KEY_DIGIT_3),
     (0, 0xffffffff, 0xfb047788, MV_IR_KEY_DIGIT_4),
     (0, 0xffffffff, 0xfa057788, MV_IR_KEY_DIGIT_5),
     (0, 0xffffffff, 0xf9067788, MV_IR_KEY_DIGIT_6),
     (0, 0xffffffff, 0xf8077788, MV_IR_KEY_DIGIT_7),
     (0, 0xffffffff, 0xf7087788, MV_IR_KEY_DIGIT_8),
     (0, 0xffffffff, 0xf6097788, MV_IR_KEY_DIGIT_9),
     (0, 0xffffffff, 0xf50a7788, MV_IR_KEY_DIGIT_0),
     (0, 0xffffffff, 0xa7587788, MV_IR_KEY_SUBTITLE),
     (0, 0xffffffff, 0xd6297788, MV_IR_KEY_INFO),
     (0, 0xffffffff, 0xb44b7788, MV_IR_KEY_RED),
     (0, 0xffffffff, 0xb54a7788, MV_IR_KEY_GREEN),
     (0, 0xffffffff, 0xb6497788, MV_IR_KEY_YELLOW),
     (0, 0xffffffff, 0xb34c7788, MV_IR_KEY_BLUE),
     (0, 0xffffffff, 0x8b747788, MV_IR_KEY_MARKER),
     (0, 0xffffffff, 0xb9467788, MV_IR_KEY_SEARCH),
     (0, 0xffffffff, 0xf00f7788, MV_IR_KEY_F3),
     (0, 0xffffffff, 0xea157788, MV_IR_KEY_UP),
     (0, 0xffffffff, 0xe9167788, MV_IR_KEY_DOWN),
     (0, 0xffffffff, 0xe8177788, MV_IR_KEY_LEFT),
     (0, 0xffffffff, 0xe7187788, MV_IR_KEY_RIGHT),
     (0, 0xffffffff, 0xe6197788, MV_IR_KEY_ENTER),
     (0, 0xffffffff, 0xb7487788, MV_IR_KEY_BACK),
     (0, 0xffffffff, 0xb8477788, MV_IR_KEY_HOME),
     (0, 0xffffffff, 0xcd327788, MV_IR_KEY_GUIDE),
     (0, 0xffffffff, 0xdc237788, MV_IR_KEY_VOL_PLUS),
     (0, 0xffffffff, 0xdb247788, MV_IR_KEY_VOL_MINUS),
     (0, 0xffffffff, 0xda257788, MV_IR_KEY_VOL_MUTE),
     (0, 0xffffffff, 0xcc337788, MV_IR_KEY_CHANNEL_PLUS),
     (0, 0xffffffff, 0xcb347788, MV_IR_KEY_CHANNEL_MINUS),
     (0, 0xffffffff, 0x9b647788, MV_IR_KEY_F1),
     (0, 0xffffffff, 0x9c637788, MV_IR_KEY_F2),
     (0, 0xffffffff, 0x98677788, MV_IR_KEY_TITLEMENU),
     (0, 0xffffffff, 0x97687788, MV_IR_KEY_TITLE),
     (0, 0xffffffff, 0xffffffff, MV_IR_KEY_NULL)]"

definition vendor_ir_nec_table_sky :: "ir_key_table_t list" where
  "vendor_ir_nec_table_sky = map ir_key_entry
    [(0, 0xffffffff, 0x51ae2f86, MV_IR_KEY_POWER),
     (0, 0xffffffff, 0x916e2f86, MV_IR_KEY_POWER),
     (0, 0xffffffff, 0xfd022f86, MV_IR_KEY_DIGIT_1),
     (0, 0xffffffff, 0xec132f86, MV_IR_KEY_DIGIT_2),
     (0, 0xffffffff, 0xf30c2f86, MV_IR_KEY_DIGIT_3),
     (0, 0xffffffff, 0xe9162f86, MV_IR_KEY_DIGIT_4),
     (0, 0xffffffff, 0xeb142f86, MV_IR_KEY_DIGIT_5),
     (0, 0xffffffff, 0xe8172f86, MV_IR_KEY_DIGIT_6),
     (0, 0xffffffff, 0xe7182f86, MV_IR_KEY_DIGIT_7),
     (0, 0xffffffff, 0xf20d2f86, MV_IR_KEY_DIGIT_8),
     (0, 0xffffffff, 0xe6192f86, MV_IR_KEY_DIGIT_9),
     (0, 0xffffffff, 0xf10e2f86, MV_IR_KEY_DIGIT_0),
     (0, 0xffffffff, 0x708f2f86, MV_IR_KEY_INFO),
     (0, 0xffffffff, 0x7f802f86, MV_IR_KEY_HOME),
     (0, 0xffffffff, 0x748b2f86, MV_IR_KEY_UP),
     (0, 0xffffffff, 0x6e912f86, MV_IR_KEY_DOWN),
     (0, 0xffffffff, 0x77882f86, MV_IR_KEY_LEFT),
     (0, 0xffffffff, 0x629d2f86, MV_IR_KEY_RIGHT),
     (0, 0xffffffff, 0xef102f86, MV_IR_KEY_ENTER),
     (0, 0xffffffff, 0x9a652f86, MV_IR_KEY_BACK),
     (0, 0xffffffff, 0x5aa52f86, MV_IR_KEY_PLAY_PAUSE),
     (0, 0xffffffff, 0x6a952f86, MV_IR_KEY_FAST_BACKWARD),
     (0, 0xffffffff, 0xaa552f86, MV_IR_KEY_FAST_FORWARD),
     (0, 0xffffffff, 0xa55a2f86, MV_IR_KEY_F4),
     (0, 0xffffffff, 0xf50a2f86, MV_IR_KEY_F5),
     (0, 0xffffffff, 0xe41b2f86, MV_IR_KEY_F6),
     (0, 0xffffffff, 0xed122f86, MV_IR_KEY_F7),
     (0, 0xffffffff, 0xba452f86, MV_IR_KEY_C),
     (0, 0xffffffff, 0x7a852f86, MV_IR_KEY_D),
     (0, 0xffffffff, 0xf8072f86, MV_IR_KEY_CHANNEL_PLUS),
     (0, 0xffffffff, 0xfe012f86, MV_IR_KEY_CHANNEL_MINUS),
     (0, 0xffffffff, 0x2ad52f86, MV_IR_KEY_REC),
     (0, 0xffffffff, 0xffffffff, MV_IR_KEY_NULL)]"

definition vendor_ir_nec_table_elektra :: "ir_key_table_t list" where
  "vendor_ir_nec_table_elektra = map ir_key_entry
    [(0, 0xffffffff, 0xf50af708, MV_IR_KEY_POWER),
     (0, 0xffffffff, 0xfa05f708, MV_IR_KEY_RED),
     (0, 0xffffffff, 0xf609f708, MV_IR_KEY_GREEN),
     (0, 0xffffffff, 0xbd42f708, MV_IR_KEY_YELLOW),
     (0, 0xffffffff, 0xbc43f708, MV_IR_KEY_BLUE),
     (0, 0xffffffff, 0xae51f708, MV_IR_KEY_FAST_BACKWARD),
     (0, 0xffffffff, 0xad52f708, MV_IR_KEY_PLAY_PAUSE),
     (0, 0xffffffff, 0xac53f708, MV_IR_KEY_FAST_FORWARD),
     (0, 0xffffffff, 0xb14ef708, MV_IR_KEY_YELLOW),
     (0, 0xffffffff, 0xb24df708, MV_IR_KEY_BLUE),
     (0, 0xffffffff, 0xff00f708, MV_IR_KEY_UP),
     (0, 0xffffffff, 0xfc03f708, MV_IR_KEY_LEFT),
     (0, 0xffffffff, 0xe01ff708, MV_IR_KEY_ENTER),
     (0, 0xffffffff, 0xfd02f708, MV_IR_KEY_RIGHT),
     (0, 0xffffffff, 0xfe01f708, MV_IR_KEY_DOWN),
     (0, 0xffffffff, 0xe31cf708, MV_IR_KEY_RETURN),
     (0, 0xffffffff, 0xf30cf708, MV_IR_KEY_HOMEPAGE),
     (0, 0xffffffff, 0x9966f708, MV_IR_KEY_TITLEMENU),
     (0, 0xffffffff, 0xa758f708, MV_IR_KEY_VOL_PLUS),
     (0, 0xffffffff, 0x8b74f708, MV_IR_KEY_F4),
     (0, 0xffffffff, 0xa55af708, MV_IR_KEY_CHANNEL_PLUS),
     (0, 0xffffffff, 0xa25df708, MV_IR_KEY_VOL_MINUS),
     (0, 0xffffffff, 0xf20df708, MV_IR_KEY_VOL_MUTE),
     (0, 0xffffffff, 0xa05ff708, MV_IR_KEY_CHANNEL_MINUS),
     (0, 0xffffffff, 0xee11f708, MV_IR_KEY_DIGIT_1),
     (0, 0xffffffff, 0xed12f708, MV_IR_KEY_DIGIT_2),
     (0, 0xffffffff, 0xec13f708, MV_IR_KEY_DIGIT_3),
     (0, 0xffffffff, 0xeb14f708, MV_IR_KEY_DIGIT_4),
     (0, 0xffffffff, 0xea15f708, MV_IR_KEY_DIGIT_5),
     (0, 0xffffffff, 0xe916f708, MV_IR_KEY_DIGIT_6),
     (0, 0xffffffff, 0xe817f708, MV_IR_KEY_DIGIT_7),
     (0, 0xffffffff, 0xe718f708, MV_IR_KEY_DIGIT_8),
     (0, 0xffffffff, 0xe619f708, MV_IR_KEY_DIGIT_9),
     (0, 0xffffffff, 0xef10f708, MV_IR_KEY_DIGIT_0),
     (0, 0xffffffff, 0xfd02ff00, MV_IR_KEY_POWER),
     (0, 0xffffffff, 0xe11eff00, MV_IR_KEY_OPENCLOSE),
     (0, 0xffffffff, 0xfc03ff00, MV_IR_KEY_DISCMENU),
     (0, 0xffffffff, 0xf807ff00, MV_IR_KEY_TITLEMENU),
     (0, 0xffffffff, 0xbf40ff00, MV_IR_KEY_SUBTITLE),
     (0, 0xffffffff, 0xbb44ff00, MV_IR_KEY_ANGLE),
     (0, 0xffffffff, 0xf40bff00, MV_IR_KEY_DIGIT_1),
     (0, 0xffffffff, 0xec13ff00, MV_IR_KEY_DIGIT_2),
     (0, 0xffffffff, 0xe41bff00, MV_IR_KEY_DIGIT_3),
     (0, 0xffffffff, 0xf00fff00, MV_IR_KEY_DIGIT_4),
     (0, 0xffffffff, 0xe817ff00, MV_IR_KEY_DIGIT_5),
     (0, 0xffffffff, 0xe01fff00, MV_IR_KEY_DIGIT_6),
     (0, 0xffffffff, 0xb748ff00, MV_IR_KEY_DIGIT_7),
     (0, 0xffffffff, 0xaf50ff00, MV_IR_KEY_DIGIT_8),
     (0, 0xffffffff, 0xa758ff00, MV_IR_KEY_DIGIT_9),
     (0, 0xffffffff, 0xab54ff00, MV_IR_KEY_DIGIT_0),
     (0, 0xffffffff, 0xb34cff00, MV_IR_KEY_INFO),
     (0, 0xffffffff, 0xa35cff00, MV_IR_KEY_SETUPMENU),
     (0, 0xffffffff, 0xbe41ff00, MV_IR_KEY_AUDIO),
     (0, 0xffffffff, 0xb649ff00, MV_IR_KEY_F4),
     (0, 0xffffffff, 0xae51ff00, MV_IR_KEY_ZOOM),
     (0, 0xffffffff, 0xa659ff00, MV_IR_KEY_DISPLAY),
     (0, 0xffffffff, 0xba45ff00, MV_IR_KEY_REPEAT),
     (0, 0xffffffff, 0xb24dff00, MV_IR_KEY_REPEAT_AB),
     (0, 0xffffffff, 0xaa55ff00, MV_IR_KEY_PIP),
     (0, 0xffffffff, 0xa25dff00, MV_IR_KEY_EXIT),
     (0, 0xffffffff, 0xbd42ff00, MV_IR_KEY_A),
     (0, 0xffffffff, 0xb54aff00, MV_IR_KEY_B),
     (0, 0xffffffff, 0xa956ff00, MV_IR_KEY_C),
     (0, 0xffffffff, 0xa15eff00, MV_IR_KEY_D),
     (0, 0xffffffff, 0xbc43ff00, MV_IR_KEY_HOME),
     (0, 0xffffffff, 0xa55aff00, MV_IR_KEY_TITLE),
     (0, 0xffffffff, 0xb04fff00, MV_IR_KEY_UP),
     (0, 0xffffffff, 0xa857ff00, MV_IR_KEY_DOWN),
     (0, 0xffffffff, 0xb44bff00, MV_IR_KEY_LEFT),
     (0, 0xffffffff, 0xa45bff00, MV_IR_KEY_RIGHT),
     (0, 0xffffffff, 0xac53ff00, MV_IR_KEY_ENTER),
     (0, 0xffffffff, 0xb847ff00, MV_IR_KEY_STEP),
     (0, 0xffffffff, 0xa05fff00, MV_IR_KEY_BACK),
     (0, 0xffffffff, 0xfe01ff00, MV_IR_KEY_SLOW),
     (0, 0xffffffff, 0xf609ff00, MV_IR_KEY_PAUSE),
     (0, 0xffffffff, 0xee11ff00, MV_IR_KEY_PLAY_PAUSE),
     (0, 0xffffffff, 0xe619ff00, MV_IR_KEY_STOP),
     (0, 0xffffffff, 0xfa05ff00, MV_IR_KEY_FAST_BACKWARD),
     (0, 0xffffffff, 0xf20dff00, MV_IR_KEY_FAST_FORWARD),
     (0, 0xffffffff, 0xea15ff00, MV_IR_KEY_SKIP_BACKWARD),
     (0, 0xffffffff, 0xe21dff00, MV_IR_KEY_SKIP_FORWARD),
     (0, 0xffffffff, 0xff00ff00, MV_IR_KEY_F1),
     (0, 0xffffffff, 0xf708ff00, MV_IR_KEY_F2),
     (0, 0xffffffff, 0xef10ff00, MV_IR_KEY_F3),
     (0, 0xffffffff, 0xe718ff00, MV_IR_KEY_SEARCH),
     (0, 0xffffffff, 0xfb04ff00, MV_IR_KEY_VOL_MUTE),
     (0, 0xffffffff, 0xf30cff00, MV_IR_KEY_VOL_MINUS),
     (0, 0xffffffff, 0xeb14ff00, MV_IR_KEY_VOL_PLUS),
     (0, 0xffffffff, 0xe31cff00, MV_IR_KEY_F8),
     (0, 0xffffffff, 0xde217788, MV_IR_KEY_POWER),
     (0, 0xffffffff, 0x9f607788, MV_IR_KEY_INPUT),
     (0, 0xffffffff, 0xfe017788, MV_IR_KEY_DIGIT_1),
     (0, 0xffffffff, 0xfd027788, MV_IR_KEY_DIGIT_2),
     (0, 0xffffffff, 0xfc037788, MV_IR_KEY_DIGIT_3),
     (0, 0xffffffff, 0xfb047788, MV_IR_KEY_DIGIT_4),
     (0, 0xffffffff, 0xfa057788, MV_IR_KEY_DIGIT_5),
     (0, 0xffffffff, 0xf9067788, MV_IR_KEY_DIGIT_6),
     (0, 0xffffffff, 0xf8077788, MV_IR_KEY_DIGIT_7),
     (0, 0xffffffff, 0xf7087788, MV_IR_KEY_DIGIT_8),
     (0, 0xffffffff, 0xf6097788, MV_IR_KEY_DIGIT_9),
     (0, 0xffffffff, 0xf50a7788, MV_IR_KEY_DIGIT_0),
     (0, 0xffffffff, 0xa7587788, MV_IR_KEY_SUBTITLE),
     (0, 0xffffffff, 0xd6297788, MV_IR_KEY_INFO),
     (0, 0xffffffff, 0xb44b7788, MV_IR_KEY_RED),
     (0, 0xffffffff, 0xb54a7788, MV_IR_KEY_GREEN),
     (0, 0xffffffff, 0xb6497788, MV_IR_KEY_YELLOW),
     (0, 0xffffffff, 0xb34c7788, MV_IR_KEY_BLUE),
     (0, 0xffffffff, 0x8b747788, MV_IR_KEY_MARKER),
     (0, 0xffffffff, 0xb9467788, MV_IR_KEY_SEARCH),
     (0, 0xffffffff, 0xf00f7788, MV_IR_KEY_F3),
     (0, 0xffffffff, 0xea157788, MV_IR_KEY_UP),
     (0, 0xffffffff, 0xe9167788, MV_IR_KEY_DOWN),
     (0, 0xffffffff, 0xe8177788, MV_IR_KEY_LEFT),
     (0, 0xffffffff, 0xe7187788, MV_IR_KEY_RIGHT),
     (0, 0xffffffff, 0xe6197788, MV_IR_KEY_ENTER),
     (0, 0xffffffff, 0xb7487788, MV_IR_KEY_BACK),
     (0, 0xffffffff, 0xb8477788, MV_IR_KEY_HOME),
     (0, 0xffffffff, 0xcd327788, MV_IR_KEY_GUIDE),
     (0, 0xffffffff, 0xdc237788, MV_IR_KEY_VOL_PLUS),
     (0, 0xffffffff, 0xdb247788, MV_IR_KEY_VOL_MINUS),
     (0, 0xffffffff, 0xda257788, MV_IR_KEY_VOL_MUTE),
     (0, 0xffffffff, 0xcc337788, MV_IR_KEY_CHANNEL_PLUS),
     (0, 0xffffffff, 0xcb347788, MV_IR_KEY_CHANNEL_MINUS),
     (0, 0xffffffff, 0x9b647788, MV_IR_KEY_F1),
     (0, 0xffffffff, 0x9c637788, MV_IR_KEY_F2),
     (0, 0xffffffff, 0x98677788, MV_IR_KEY_TITLEMENU),
     (0, 0xffffffff, 0x97687788, MV_IR_KEY_TITLE),
     (0, 0xffffffff, 0xffffffff, MV_IR_KEY_NULL)]"

definition vendor_ir_rc5_table :: "ir_key_table_t list" where
  "vendor_ir_rc5_table = map ir_key_entry
    [(0, 0x7ff, 0x00c, MV_IR_KEY_POWER),
     (0, 0x7ff, 0x001, MV_IR_KEY_DIGIT_1),
     (0, 0x7ff, 0x002, MV_IR_KEY_DIGIT_2),
     (0, 0x7ff, 0x003, MV_IR_KEY_DIGIT_3),
     (0, 0x7ff, 0x004, MV_IR_KEY_DIGIT_4),
     (0, 0x7ff, 0x005, MV_IR_KEY_DIGIT_5),
     (0, 0x7ff, 0x006, MV_IR_KEY_DIGIT_6),
     (0, 0x7ff, 0x007, MV_IR_KEY_DIGIT_7),
     (0, 0x7ff, 0x008, MV_IR_KEY_DIGIT_8),
     (0, 0x7ff, 0x009, MV_IR_KEY_DIGIT_9),
     (0, 0x7ff, 0x000, MV_IR_KEY_DIGIT_0),
     (0, 0x7ff, 0x02f, MV_IR_KEY_UP),
     (0, 0x7ff, 0x030, MV_IR_KEY_DOWN),
     (0, 0x7ff, 0x031, MV_IR_KEY_LEFT),
     (0, 0x7ff, 0x033, MV_IR_KEY_RIGHT),
     (0, 0x7ff, 0x01b, MV_IR_KEY_ENTER),
     (0, 0x7ff, 0x01f, MV_IR_KEY_BACK),
     (0, 0x7ff, 0x723, MV_IR_KEY_F1),
     (0, 0x7ff, 0x712, MV_IR_KEY_F2),
     (0, 0x7ff, 0x728, MV_IR_KEY_F3),
     (0, 0x7ff, 0x731, MV_IR_KEY_SEARCH),
     (0, 0x7ff, 0x736, MV_IR_KEY_VOL_MUTE),
     (0, 0x7ff, 0x73b, MV_IR_KEY_VOL_MINUS),
     (0, 0x7ff, 0x730, MV_IR_KEY_VOL_MINUS),
     (0, 0x7ff, 0x010, MV_IR_KEY_VOL_PLUS),
     (0, 0x7ff, 0x011, MV_IR_KEY_VOL_MINUS),
     (0, 0x7ff, 0x020, MV_IR_KEY_CHANNEL_PLUS),
     (0, 0x7ff, 0x021, MV_IR_KEY_CHANNEL_MINUS),
     (0, 0x7ff, 0x7ff, MV_IR_KEY_NULL)]"

definition vendor_ir_tc9012_table :: "ir_key_table_t list" where
  "vendor_ir_tc9012_table = map ir_key_entry
    [(0, 0x7ff, 0x00c, MV_IR_KEY_POWER),
     (0, 0x7ff, 0x001, MV_IR_KEY_DIGIT_1),
     (0, 0x7ff, 0x002, MV_IR_KEY_DIGIT_2),
     (0, 0x7ff, 0x003, MV_IR_KEY_DIGIT_3),
     (0, 0x7ff, 0x004, MV_IR_KEY_DIGIT_4),
     (0, 0x7ff, 0x005, MV_IR_KEY_DIGIT_5),
     (0, 0x7ff, 0x006, MV_IR_KEY_DIGIT_6),
     (0, 0x7ff, 0x007, MV_IR_KEY_DIGIT_7)]"

definition vendor_ir_xmp_table :: "ir_key_table_t list" where
  "vendor_ir_xmp_table = map ir_key_entry
    [(8, 0xff, 0x0f, MV_IR_KEY_POWER),
     (8, 0xff, 0x90, MV_IR_KEY_TVPOWER),
     (8, 0xff, 0x0c, MV_IR_KEY_VOL_MUTE),
     (8, 0xff, 0x0a, MV_IR_KEY_VOL_PLUS),
     (8, 0xff, 0x0b, MV_IR_KEY_VOL_MINUS),
     (8, 0xff, 0x0d, MV_IR_KEY_CHANNEL_PLUS),
     (8, 0xff, 0x0e, MV_IR_KEY_CHANNEL_MINUS),
     (8, 0xff, 0x53, MV_IR_KEY_BACK),
     (8, 0xff, 0x30, MV_IR_KEY_PLAY),
     (8, 0xff, 0x34, MV_IR_KEY_FAST_FORWARD),
     (8, 0xff, 0x33, MV_IR_KEY_FAST_BACKWARD),
     (8, 0xff, 0x2a, MV_IR_KEY_EXIT),
     (8, 0xff, 0xcf, MV_IR_KEY_SEARCH),
     (8, 0xff, 0x35, MV_IR_KEY_REC),
     (8, 0xff, 0x27, MV_IR_KEY_GUIDE),
     (8, 0xff, 0x92, MV_IR_KEY_MENU),
     (8, 0xff, 0x28, MV_IR_KB_PAGEUP),
     (8, 0xff, 0x21, MV_IR_KEY_UP),
     (8, 0xff, 0x22, MV_IR_KEY_DOWN),
     (8, 0xff, 0x23, MV_IR_KEY_LEFT),
     (8, 0xff, 0x24, MV_IR_KEY_RIGHT),
     (8, 0xff, 0x25, MV_IR_KEY_ENTER),
     (8, 0xff, 0x51, MV_IR_KEY_LAST),
     (8, 0xff, 0x26, MV_IR_KEY_INFO),
     (8, 0xff, 0x29, MV_IR_KB_PAGEDOWN),
     (8, 0xff, 0x60, MV_IR_KEY_A),
     (8, 0xff, 0x61, MV_IR_KEY_B),
     (8, 0xff, 0x62, MV_IR_KEY_C),
     (8, 0xff, 0x63, MV_IR_KEY_D),
     (8, 0xff, 0x01, MV_IR_KEY_DIGIT_1),
     (8, 0xff, 0x02, MV_IR_KEY_DIGIT_2),
     (8, 0xff, 0x03, MV_IR_KEY_DIGIT_3),
     (8, 0xff, 0x04, MV_IR_KEY_DIGIT_4),
     (8, 0xff, 0x05, MV_IR_KEY_DIGIT_5),
     (8, 0xff, 0x06, MV_IR_KEY_DIGIT_6),
     (8, 0xff, 0x07, MV_IR_KEY_DIGIT_7),
     (8, 0xff, 0x08, MV_IR_KEY_DIGIT_8),
     (8, 0xff, 0x09, MV_IR_KEY_DIGIT_9),
     (8, 0xff, 0x00, MV_IR_KEY_DIGIT_0),
     (8, 0xff, 0x92, MV_IR_KEY_SETUPMENU),
     (8, 0xff, 0x57, MV_IR_KEY_TV_INPUT),
     (0, 0xff, 0xff, MV_IR_KEY_NULL)]"

section \<open>Translation\<close>

text \<open>The loop stops at the entry with the null key; it reads past a table without one.\<close>

fun Translate_IRCode :: "ir_key_table_t list \<Rightarrow> u32 \<Rightarrow> u32 option" where
  "Translate_IRCode [] code = None"
| "Translate_IRCode (e # es) code =
     (if ir_key e = MV_IR_KEY_NULL then Some MV_IR_KEY_NULL
      else if ir_encode e AND key_mask e = drop_bit (unat (key_bitpos e)) code AND key_mask e then Some (ir_key e)
      else Translate_IRCode es code)"

section \<open>Keys a table can yield\<close>

definition terminated :: "ir_key_table_t list \<Rightarrow> bool" where
  "terminated tab \<longleftrightarrow> (\<exists>e\<in>set tab. ir_key e = MV_IR_KEY_NULL)"

lemma translate_terminated:
  "terminated tab \<Longrightarrow> \<exists>k. Translate_IRCode tab code = Some k \<and> (k = MV_IR_KEY_NULL \<or> k \<in> ir_key ` set tab)"
  by (induction tab) (auto simp: terminated_def)

text \<open>An entry matches a code when, under its mask, the code shifted by its bit position agrees with it bit by bit.\<close>

definition entry_matches :: "u32 \<Rightarrow> ir_key_table_t \<Rightarrow> bool" where
  "entry_matches code e \<longleftrightarrow>
     list_all (\<lambda>i. bit (key_mask e) i \<longrightarrow> bit (ir_encode e) i = bit code (unat (key_bitpos e) + i)) [0..<32]"

lemma entry_matches_iff:
  "ir_encode e AND key_mask e = drop_bit (unat (key_bitpos e)) code AND key_mask e \<longleftrightarrow> entry_matches code e"
  by (auto simp: entry_matches_def list_all_iff bit_eq_iff bit_simps dest: bit_imp_le_length)

text \<open>The keys before the null entry are searched in order; without a null entry and a match the loop leaves the table.\<close>

lemma translate_find:
  "Translate_IRCode tab code =
     (case find (entry_matches code) (takeWhile (\<lambda>e. ir_key e \<noteq> MV_IR_KEY_NULL) tab) of
        Some e \<Rightarrow> Some (ir_key e)
      | None \<Rightarrow> if terminated tab then Some MV_IR_KEY_NULL else None)"
  by (induction tab) (auto simp: terminated_def entry_matches_iff)

lemma translate_hit:
  assumes "ir_key e \<noteq> MV_IR_KEY_NULL" and "ir_encode e AND key_mask e = drop_bit (unat (key_bitpos e)) code AND key_mask e"
    and "\<forall>d\<in>set us. ir_key d \<noteq> MV_IR_KEY_NULL \<and> ir_encode d AND key_mask d \<noteq> drop_bit (unat (key_bitpos d)) code AND key_mask d"
  shows "Translate_IRCode (us @ e # vs) code = Some (ir_key e)"
  using assms by (induction us) auto

text \<open>An entry with the same pattern as an earlier one is never reached.\<close>

lemma translate_shadowed:
  assumes "key_bitpos d = key_bitpos e" and "key_mask d = key_mask e" and "ir_encode d = ir_encode e"
    and "d \<in> set us" and "ir_key e \<noteq> MV_IR_KEY_NULL"
  shows "Translate_IRCode (us @ e # vs) code = Translate_IRCode (us @ vs) code"
  using assms(4)
proof (induction us)
  case (Cons c us)
  show ?case
  proof (cases "c = d")
    case True
    have "Translate_IRCode (us @ e # vs) code = Translate_IRCode (us @ vs) code"
      if "ir_encode e AND key_mask e \<noteq> drop_bit (unat (key_bitpos e)) code AND key_mask e"
      using that assms(5) by (induction us) auto
    then show ?thesis using True assms(1-3) by auto
  qed (use Cons in auto)
qed simp

definition plain_table :: "ir_key_table_t list \<Rightarrow> bool" where
  "plain_table tab \<longleftrightarrow> list_all (\<lambda>e. ir_key e < 0x10000) tab \<and> list_ex (\<lambda>e. ir_key e = 0) tab"

lemma plain_tables:
  "plain_table vendor_ir_nec_table_syna"
  "plain_table vendor_ir_nec_table_sky"
  "plain_table vendor_ir_nec_table_elektra"
  "plain_table vendor_ir_rc5_table"
  "plain_table vendor_ir_xmp_table"
  by code_simp+

lemma plain_flags:
  assumes "k < (0x10000 :: u32)"
  shows "k AND MV_IR_HOLDKEY_FLAG = 0" and "k AND MV_IR_UPKEY_FLAG = 0"
proof -
  have "unat (take_bit 16 k) = unat k" using assms by (simp add: unsigned_take_bit_eq take_bit_nat_eq_self word_less_nat_alt)
  then have "k = take_bit 16 k" by (simp only: word_unat_eq_iff)
  then have b: "bit k n \<Longrightarrow> n < 16" for n by (metis bit_take_bit_iff)
  have p: "k AND push_bit m 1 = 0" if "16 \<le> m" for m
  proof (rule bit_word_eqI)
    fix n
    show "bit (k AND push_bit m 1) n = bit (0 :: u32) n" using b [of n] that by (auto simp: bit_simps)
  qed
  show "k AND MV_IR_HOLDKEY_FLAG = 0" "k AND MV_IR_UPKEY_FLAG = 0"
    unfolding MV_IR_HOLDKEY_FLAG_def MV_IR_UPKEY_FLAG_def by (rule p, simp)+
qed

lemma translate_plain:
  assumes "plain_table tab"
  shows "\<exists>k. Translate_IRCode tab code = Some k \<and> k < 0x10000"
proof -
  have t: "terminated tab" using assms by (auto simp: terminated_def plain_table_def list_ex_iff MV_IR_KEY_NULL_def)
  obtain k where k: "Translate_IRCode tab code = Some k" "k = MV_IR_KEY_NULL \<or> k \<in> ir_key ` set tab"
    using translate_terminated [OF t] by blast
  have "k < 0x10000" using k(2) assms by (auto simp: plain_table_def list_all_iff MV_IR_KEY_NULL_def)
  then show ?thesis using k(1) by blast
qed

text \<open>
  C27: with each of the terminated tables, and whatever code is received, the translation returns
  the key of the first entry before the null entry that matches the code, and the null key when
  none does; an entry matches when the code, from the entry's bit position on, has the bits of the
  entry's encoding wherever its mask has a one.  The key is a plain one: below 0x10000, with
  neither the hold nor the up flag.
\<close>

theorem ir_translate_first_match:
  assumes "tab \<in> {vendor_ir_nec_table_syna, vendor_ir_nec_table_sky, vendor_ir_nec_table_elektra,
      vendor_ir_rc5_table, vendor_ir_xmp_table}"
  shows "\<exists>k. Translate_IRCode tab code = Some k \<and>
    k = (case find (entry_matches code) (takeWhile (\<lambda>e. ir_key e \<noteq> MV_IR_KEY_NULL) tab) of
           None \<Rightarrow> MV_IR_KEY_NULL | Some e \<Rightarrow> ir_key e) \<and>
    k < 0x10000 \<and> k AND MV_IR_HOLDKEY_FLAG = 0 \<and> k AND MV_IR_UPKEY_FLAG = 0"
proof -
  have p: "plain_table tab" using assms plain_tables by blast
  then obtain k where k: "Translate_IRCode tab code = Some k" "k < 0x10000" using translate_plain by blast
  moreover have "terminated tab" using p by (auto simp: terminated_def plain_table_def list_ex_iff MV_IR_KEY_NULL_def)
  ultimately show ?thesis using plain_flags [OF k(2)] by (auto simp: translate_find split: option.splits)
qed

theorem ir_translate_first_match_witness:
  "\<exists>k. Translate_IRCode vendor_ir_xmp_table 0x17442198 = Some k \<and> k = MV_IR_KEY_UP \<and>
     k AND MV_IR_HOLDKEY_FLAG = 0 \<and> k AND MV_IR_UPKEY_FLAG = 0"
proof -
  have "map_option ir_key (find (entry_matches 0x17442198)
      (takeWhile (\<lambda>e. ir_key e \<noteq> MV_IR_KEY_NULL) vendor_ir_xmp_table)) = Some MV_IR_KEY_UP"
    by code_simp
  then show ?thesis using ir_translate_first_match [of vendor_ir_xmp_table "0x17442198"] by auto
qed

lemma tc9012_unterminated: "Translate_IRCode vendor_ir_tc9012_table 0x3ff = None"
  by code_simp

end
