(* ===== verification/Sm_Ir.thy ===== *)
theory Sm_Ir
  imports Ir_Frames Ir_Keys
begin

text \<open>
  The remote-control module \<^verbatim>\<open>src/boot/bootloader/sm_cm3/syna/src/ir/sm_ir.c\<close> with the NEC
  reader: the interrupt handler that stores edges, the task that turns decoded codes into
  key-down, key-hold and key-up events, their delivery, and the module's messages.
\<close>

section \<open>State\<close>

text \<open>Calls that leave the module.\<close>

datatype ir_call =
    Key_State u32 u32
  | Key_Msg int u32
  | Gpio_Int bool
  | Gpio_Clearint
  | Gpio_Polarity bool

text \<open>The static variables of the module; the \<open>int\<close> counter of hold keys wraps around as on the target.\<close>

record sm_ir =
  ir_buffer :: ir_buf
  ir_pd :: pd_state
  is_linuxready :: bool
  bInputDisable :: bool
  iHoldKeyCount :: u32
  keydown_ticks :: u32
  lastkeyhold_ticks :: u32
  keydown :: bool
  keyhold :: bool
  currkey :: u32
  iPrev_ticks :: u32
  ir_current_set_rise :: u32
  ir_power :: sm_power
  ir_calls :: "ir_call list"

definition SM_IR_Flavor :: u32 where "SM_IR_Flavor = 3"
definition IR_HOLDKEY_SEND :: bool where "IR_HOLDKEY_SEND \<longleftrightarrow> SM_IR_Flavor AND 1 \<noteq> 0"
definition IR_UPKEY_SEND :: bool where "IR_UPKEY_SEND \<longleftrightarrow> drop_bit 1 SM_IR_Flavor AND 1 \<noteq> 0"

definition FRAME_CYCLE_NORMAL_MAX :: int where "FRAME_CYCLE_NORMAL_MAX = 115000 * SM_SYSTEM_HZ"
definition FRAME_CYCLE_FIRSTHOLD_MAX :: int where "FRAME_CYCLE_FIRSTHOLD_MAX = 60000 * SM_SYSTEM_HZ"
definition HoldKeySkipTime :: int where "HoldKeySkipTime = 3"

definition ir_call :: "ir_call \<Rightarrow> sm_ir \<Rightarrow> sm_ir" where
  "ir_call c s = s\<lparr>ir_calls := ir_calls s @ [c]\<rparr>"

text \<open>\<open>sm_apb_timer_readclock\<close>: the next reading of the clock.\<close>

definition readclock :: "(nat \<Rightarrow> u32) \<Rightarrow> sm_ir \<Rightarrow> u32 \<times> sm_ir" where
  "readclock clk s =
     (clk (clk_reads (ir_pd s)), s\<lparr>ir_pd := (ir_pd s)\<lparr>clk_reads := Suc (clk_reads (ir_pd s))\<rparr>\<rparr>)"

section \<open>The interrupt handler\<close>

text \<open>The handler reads the clock until the value is inside the timer's range; it may wait forever.\<close>

partial_function (option) isr_clock :: "(nat \<Rightarrow> u32) \<Rightarrow> sm_ir \<Rightarrow> (u32 \<times> sm_ir) option" where
  "isr_clock clk s =
     (case readclock clk s of (t, s1) \<Rightarrow>
        if uint t \<le> INT_MS * 1000 * SM_SYSTEM_HZ then Some (t, s1) else isr_clock clk s1)"

definition mv_sm_ir_isr :: "(nat \<Rightarrow> u32) \<Rightarrow> sm_ir \<Rightarrow> sm_ir option" where
  "mv_sm_ir_isr clk s =
     do { (iCurr_ticks, s) \<leftarrow> isr_clock clk s;
          let rise = ir_current_set_rise s XOR 1;
          let s = ir_call (Gpio_Polarity (rise \<noteq> 0)) (s\<lparr>ir_current_set_rise := rise\<rparr>);
          b \<leftarrow> store_ircbuffer (length_caculate iCurr_ticks (iPrev_ticks s)) rise (ir_buffer s);
          Some (ir_call Gpio_Clearint (s\<lparr>ir_buffer := b, iPrev_ticks := iCurr_ticks\<rparr>)) }"

section \<open>Key events\<close>

text \<open>The key of the next decoded code, with the hold flag; null when there is none.\<close>

definition ir_raw_key :: "ir_key_table_t list \<Rightarrow> (nat \<Rightarrow> u32) \<Rightarrow> sm_ir \<Rightarrow> (u32 \<times> sm_ir) option" where
  "ir_raw_key tab clk s =
     do { (ir_code, is_hold, b, pd) \<leftarrow> read_nec clk (ir_buffer s) (ir_pd s);
          let s = s\<lparr>ir_buffer := b, ir_pd := pd\<rparr>;
          if ir_code = 0xffffffff then Some (MV_IR_KEY_NULL, s)
          else do { k \<leftarrow> Translate_IRCode tab ir_code;
                    Some (if is_hold then MV_IR_HOLDKEY_KEY k else k, s) } }"

text \<open>A decoded key: hold keys of the current key pass after the first two, a new key only when no key is down.\<close>

definition key_seen :: "(nat \<Rightarrow> u32) \<Rightarrow> u32 \<Rightarrow> sm_ir \<Rightarrow> u32 \<times> sm_ir" where
  "key_seen clk uiIRKey s =
     (if uiIRKey AND MV_IR_HOLDKEY_FLAG \<noteq> 0
      then if uiIRKey = MV_IR_HOLDKEY_KEY (currkey s) \<and> keydown s
           then (case readclock clk (s\<lparr>keyhold := True\<rparr>) of (t, s1) \<Rightarrow>
             let s2 = s1\<lparr>lastkeyhold_ticks := t, iHoldKeyCount := iHoldKeyCount s1 + 1\<rparr> in
             (if sint (iHoldKeyCount s2) < HoldKeySkipTime then MV_IR_KEY_NULL else uiIRKey, s2))
           else (MV_IR_KEY_NULL, s)
      else if keydown s then (MV_IR_KEY_NULL, s)
      else (case readclock clk (s\<lparr>currkey := uiIRKey\<rparr>) of (t, s1) \<Rightarrow>
        (uiIRKey, s1\<lparr>keydown_ticks := t, iHoldKeyCount := 0, keydown := True\<rparr>)))"

text \<open>No decoded key: the current key goes up when its repetition is overdue.\<close>

definition key_silent :: "(nat \<Rightarrow> u32) \<Rightarrow> sm_ir \<Rightarrow> u32 \<times> sm_ir" where
  "key_silent clk s =
     (if keydown s
      then (case readclock clk s of (t, s1) \<Rightarrow>
        if keyhold s1
        then if FRAME_CYCLE_NORMAL_MAX < uint (length_caculate t (lastkeyhold_ticks s1))
             then (MV_IR_KEY2UPKEY (currkey s1), s1\<lparr>keydown := False, keyhold := False, currkey := MV_IR_KEY_NULL\<rparr>)
             else (MV_IR_KEY_NULL, s1)
        else if FRAME_CYCLE_FIRSTHOLD_MAX < uint (length_caculate t (keydown_ticks s1))
             then (MV_IR_KEY2UPKEY (currkey s1), s1\<lparr>keydown := False, currkey := MV_IR_KEY_NULL\<rparr>)
             else (MV_IR_KEY_NULL, s1))
      else (MV_IR_KEY_NULL, s))"

definition ir_preprocess_key :: "ir_key_table_t list \<Rightarrow> (nat \<Rightarrow> u32) \<Rightarrow> sm_ir \<Rightarrow> (u32 \<times> sm_ir) option" where
  "ir_preprocess_key tab clk s =
     do { (uiIRKey, s) \<leftarrow> ir_raw_key tab clk s;
          if IR_HOLDKEY_SEND \<and> \<not> IR_UPKEY_SEND then Some (uiIRKey, s)
          else if \<not> IR_HOLDKEY_SEND \<and> \<not> IR_UPKEY_SEND
          then Some (if uiIRKey AND MV_IR_HOLDKEY_FLAG \<noteq> 0 then MV_IR_KEY_NULL else uiIRKey, s)
          else let (k, s) = (if uiIRKey \<noteq> MV_IR_KEY_NULL then key_seen clk uiIRKey s else key_silent clk s) in
            if IR_HOLDKEY_SEND \<and> IR_UPKEY_SEND then Some (k, s)
            else Some (if k AND MV_IR_HOLDKEY_FLAG \<noteq> 0 then MV_IR_KEY_NULL else k, s) }"

section \<open>Delivery\<close>

text \<open>
  The branches of the source that hold only commented-out code have no effect.  \<open>tm\<close> is the
  millisecond clock of the power module.
\<close>

definition mv_sm_process_key :: "(nat \<Rightarrow> u32) \<Rightarrow> int \<Rightarrow> u32 \<Rightarrow> sm_ir \<Rightarrow> sm_ir" where
  "mv_sm_process_key tm module_id key s =
     (case mv_sm_get_state (ir_power s) of
        MV_SM_STATE_ACTIVE \<Rightarrow>
          if is_linuxready s then if bInputDisable s then s else ir_call (Key_Msg module_id key) s else s
      | st \<Rightarrow>
          if in_standby st \<and> key AND MV_IR_HOLDKEY_FLAG = 0 \<and> key AND MV_IR_UPKEY_FLAG \<noteq> 0
          then s\<lparr>ir_power := snd (mv_sm_power_enterflow_bysmstate tm
                   (mv_sm_power_setwakeuppayload key (mv_sm_power_setwakeupsource MV_SM_WAKEUP_SOURCE_IR (ir_power s))))\<rparr>
          else s)"

definition mv_sm_ir_broadcast_key_state :: "u32 \<Rightarrow> u32 \<Rightarrow> sm_ir \<Rightarrow> sm_ir" where
  "mv_sm_ir_broadcast_key_state down key s = ir_call (Key_State down key) s"

text \<open>One iteration of the task; the key it has produced is returned as well.\<close>

definition mv_sm_ir_task :: "ir_key_table_t list \<Rightarrow> (nat \<Rightarrow> u32) \<Rightarrow> (nat \<Rightarrow> u32) \<Rightarrow> sm_ir \<Rightarrow> (u32 \<times> sm_ir) option" where
  "mv_sm_ir_task tab clk tm s =
     do { (k, s) \<leftarrow> ir_preprocess_key tab clk s;
          if k \<noteq> MV_IR_KEY_NULL
          then let s = (if k AND MV_IR_UPKEY_FLAG \<noteq> 0 then mv_sm_ir_broadcast_key_state 0 k s
                        else if k AND MV_IR_HOLDKEY_FLAG = 0 then mv_sm_ir_broadcast_key_state 1 k s
                        else s) in
            Some (k, mv_sm_process_key tm MV_SM_ID_IR k s)
          else Some (k, s) }"

section \<open>Messages\<close>

definition MV_SM_INPUT_DISABLE :: int where "MV_SM_INPUT_DISABLE = 1"
definition MV_SM_INPUT_ENABLE :: int where "MV_SM_INPUT_ENABLE = 2"
definition MV_SM_INPUT_SEND_KEY :: int where "MV_SM_INPUT_SEND_KEY = 4"

definition mv_sm_process_ir_msg :: "int \<Rightarrow> u32 \<Rightarrow> sm_ir \<Rightarrow> sm_ir" where
  "mv_sm_process_ir_msg msg body s =
     (if msg = MV_SM_IR_Linuxready then ir_call (Gpio_Int True) (s\<lparr>is_linuxready := True\<rparr>)
      else if msg = MV_SM_INPUT_DISABLE then s\<lparr>bInputDisable := True\<rparr>
      else if msg = MV_SM_INPUT_ENABLE then s\<lparr>bInputDisable := False\<rparr>
      else if msg = MV_SM_INPUT_SEND_KEY then ir_call (Key_Msg MV_SM_ID_IR body) s
      else s)"

definition sm_send_power_key :: "sm_ir \<Rightarrow> sm_ir" where
  "sm_send_power_key s =
     (let ws = wakeup_source (ir_power s) in
      if ws = MV_SM_WAKEUP_SOURCE_IR \<or> ws = MV_SM_WAKEUP_SOURCE_WIFI \<or> ws = MV_SM_WAKEUP_SOURCE_BT \<or>
         ws = MV_SM_WAKEUP_SOURCE_WOL \<or> ws = MV_SM_WAKEUP_SOURCE_BUTTON
      then ir_call (Key_Msg MV_SM_ID_IR (MV_IR_KEY_POWER OR 0x8000000)) (ir_call (Key_Msg MV_SM_ID_IR MV_IR_KEY_POWER) s)
      else s)"

text \<open>The case for \<open>FLOW_SUSPEND_2_ACTIVE\<close> falls through.\<close>

definition mv_sm_process_internal_ir_msg :: "int \<Rightarrow> SM_POWER_FLOW \<Rightarrow> POWER_STATUS \<Rightarrow> sm_ir \<Rightarrow> sm_ir" where
  "mv_sm_process_internal_ir_msg sender flow status s =
     (if sender \<noteq> MV_SM_ID_POWER then s
      else if flow \<in> {FLOW_COLD_2_LOWPOWERSTANDBY, FLOW_ACTIVE_2_LOWPOWERSTANDBY, FLOW_ACTIVE_2_NORMALSTANDBY, FLOW_ACTIVE_2_SUSPEND,
                 FLOW_SYSRESET_2_LOWPOWERSTANDBY, FLOW_SYSRESET_2_NORMALSTANDBY, FLOW_SYSRESET_2_ACTIVE}
      then s\<lparr>is_linuxready := False\<rparr>
      else if flow \<in> {FLOW_SUSPEND_2_ACTIVE, FLOW_LOWPOWERSTANDBY_2_ACTIVE, FLOW_NORMALSTANDBY_2_ACTIVE}
      then let s1 = (if flow = FLOW_SUSPEND_2_ACTIVE \<and> status = STA_LEAVEFLOW then sm_send_power_key s else s) in
           if status = STA_ENTERFLOW \<and> \<not> is_linuxready s1 then ir_call (Gpio_Int False) s1 else s1
      else s)"

section \<open>The key protocol\<close>

text \<open>
  The events a listener may see: nothing, a plain key going down when none is down, the current
  key held, the current key going up.
\<close>

definition key_proto :: "u32 option \<Rightarrow> u32 \<Rightarrow> u32 option option" where
  "key_proto c k =
     (if k = MV_IR_KEY_NULL then Some c
      else case c of
        None \<Rightarrow> if k < 0x10000 then Some (Some k) else None
      | Some cur \<Rightarrow> if k = MV_IR_HOLDKEY_KEY cur then Some c
                    else if k = MV_IR_KEY2UPKEY cur then Some None else None)"

fun key_protos :: "u32 option \<Rightarrow> u32 list \<Rightarrow> u32 option option" where
  "key_protos c [] = Some c"
| "key_protos c (k # ks) = Option.bind (key_proto c k) (\<lambda>c'. key_protos c' ks)"

definition down_key :: "sm_ir \<Rightarrow> u32 option" where
  "down_key s = (if keydown s then Some (currkey s) else None)"

definition keys_ok :: "sm_ir \<Rightarrow> bool" where
  "keys_ok s \<longleftrightarrow> ir_ok (ir_buffer s) \<and> (keyhold s \<longrightarrow> keydown s) \<and>
     (keydown s \<longrightarrow> currkey s \<noteq> MV_IR_KEY_NULL \<and> currkey s < 0x10000)"

text \<open>
  The handler's retry presumes that abnormal readings of the clock pass: after any reading there is
  a later one inside the range of the timer.  Any number of abnormal readings may come between.
\<close>

definition clock_recovers :: "(nat \<Rightarrow> u32) \<Rightarrow> bool" where
  "clock_recovers clk \<longleftrightarrow> (\<forall>n. \<exists>m. uint (clk (n + m)) \<le> INT_MS * 1000 * SM_SYSTEM_HZ)"

datatype ir_event =
    Edge
  | Task
  | Msg int u32
  | Internal_Msg int SM_POWER_FLOW POWER_STATUS
  | Power_Moves sm_power

text \<open>
  One event: an interrupt, an iteration of the task, a message, or any move of the power module,
  which shares its state with this one.  The result lists the key of a task iteration.
\<close>

definition ir_step :: "ir_key_table_t list \<Rightarrow> (nat \<Rightarrow> u32) \<Rightarrow> (nat \<Rightarrow> u32) \<Rightarrow> ir_event \<Rightarrow> sm_ir \<Rightarrow> (u32 list \<times> sm_ir) option" where
  "ir_step tab clk tm e s =
     (case e of
        Edge \<Rightarrow> map_option (Pair []) (mv_sm_ir_isr clk s)
      | Task \<Rightarrow> map_option (\<lambda>(k, s'). ([k], s')) (mv_sm_ir_task tab clk tm s)
      | Msg m body \<Rightarrow> Some ([], mv_sm_process_ir_msg m body s)
      | Internal_Msg sender flow status \<Rightarrow> Some ([], mv_sm_process_internal_ir_msg sender flow status s)
      | Power_Moves p \<Rightarrow> Some ([], s\<lparr>ir_power := p\<rparr>))"

fun ir_run :: "ir_key_table_t list \<Rightarrow> (nat \<Rightarrow> u32) \<Rightarrow> (nat \<Rightarrow> u32) \<Rightarrow> ir_event list \<Rightarrow> sm_ir \<Rightarrow> (u32 list \<times> sm_ir) option" where
  "ir_run tab clk tm [] s = Some ([], s)"
| "ir_run tab clk tm (e # es) s =
     do { (ks, s1) \<leftarrow> ir_step tab clk tm e s;
          (ks', s2) \<leftarrow> ir_run tab clk tm es s1;
          Some (ks @ ks', s2) }"

lemma flag_facts:
  "MV_IR_HOLDKEY_KEY k AND MV_IR_HOLDKEY_FLAG \<noteq> 0"
  "MV_IR_KEY2UPKEY k \<noteq> MV_IR_HOLDKEY_KEY j"
  "MV_IR_KEY2UPKEY k \<noteq> 0"
  "MV_IR_HOLDKEY_KEY k \<noteq> 0"
proof -
  have h: "bit (MV_IR_HOLDKEY_KEY k) 31" "\<not> bit (MV_IR_KEY2UPKEY k) 31" "bit (MV_IR_KEY2UPKEY k) 27" "bit MV_IR_HOLDKEY_FLAG 31" for k
    by (simp_all add: MV_IR_HOLDKEY_KEY_def MV_IR_KEY2UPKEY_def MV_IR_HOLDKEY_FLAG_def MV_IR_UPKEY_FLAG_def bit_simps)
  have "bit (MV_IR_HOLDKEY_KEY k AND MV_IR_HOLDKEY_FLAG) 31" using h by (simp add: bit_and_iff)
  then show "MV_IR_HOLDKEY_KEY k AND MV_IR_HOLDKEY_FLAG \<noteq> 0" by (metis bit_0_eq bot_apply bot_bool_def)
  show "MV_IR_KEY2UPKEY k \<noteq> MV_IR_HOLDKEY_KEY j" using h by metis
  show "MV_IR_KEY2UPKEY k \<noteq> 0" "MV_IR_HOLDKEY_KEY k \<noteq> 0" using h by (metis bit_0_eq bot_apply bot_bool_def)+
qed

lemma down_key_cong:
  assumes "keydown s' = keydown s" and "keyhold s' = keyhold s" and "currkey s' = currkey s" and "ir_ok (ir_buffer s')" and "keys_ok s"
  shows "keys_ok s'" and "down_key s' = down_key s"
  using assms by (simp_all add: keys_ok_def down_key_def)

lemma key_silent_proto:
  assumes "keys_ok s" and "key_silent clk s = (k, s')"
  shows "keys_ok s' \<and> key_proto (down_key s) k = Some (down_key s')"
  using assms
  by (auto simp: key_silent_def readclock_def keys_ok_def down_key_def key_proto_def flag_facts MV_IR_KEY_NULL_def split: if_splits)

lemma key_seen_proto:
  assumes "keys_ok s" and "key_seen clk k s = (k', s')" and "k \<noteq> MV_IR_KEY_NULL"
    and "k < 0x10000 \<or> k AND MV_IR_HOLDKEY_FLAG \<noteq> 0"
  shows "keys_ok s' \<and> key_proto (down_key s) k' = Some (down_key s')"
  using assms
  by (auto simp: key_seen_def readclock_def keys_ok_def down_key_def key_proto_def Let_def flag_facts flag_facts(2) [symmetric]
      MV_IR_KEY_NULL_def plain_flags
      split: if_splits)

lemma ir_raw_key_total:
  assumes "keys_ok s" and "plain_table tab"
  shows "\<exists>k s'. ir_raw_key tab clk s = Some (k, s') \<and> (k < 0x10000 \<or> k AND MV_IR_HOLDKEY_FLAG \<noteq> 0) \<and>
    keys_ok s' \<and> down_key s' = down_key s"
proof -
  obtain c h b pd where r: "read_nec clk (ir_buffer s) (ir_pd s) = Some (c, h, b, pd)" "ir_ok b"
    using read_pd_total [of "ir_buffer s" nec_proto clk "ir_pd s"] assms(1) unfolding keys_ok_def read_nec_def by blast
  obtain k where k: "Translate_IRCode tab c = Some k" "k < 0x10000" using translate_plain [OF assms(2)] by blast
  have "keys_ok (s\<lparr>ir_buffer := b, ir_pd := pd\<rparr>)" "down_key (s\<lparr>ir_buffer := b, ir_pd := pd\<rparr>) = down_key s"
    by (rule down_key_cong; use r assms(1) in simp)+
  then show ?thesis using r k by (simp add: ir_raw_key_def Let_def flag_facts MV_IR_KEY_NULL_def)
qed

lemma ir_preprocess_key_proto:
  assumes "keys_ok s" and "plain_table tab"
  shows "\<exists>k s'. ir_preprocess_key tab clk s = Some (k, s') \<and> keys_ok s' \<and> key_proto (down_key s) k = Some (down_key s')"
proof -
  obtain r s1 where r: "ir_raw_key tab clk s = Some (r, s1)" "r < 0x10000 \<or> r AND MV_IR_HOLDKEY_FLAG \<noteq> 0"
    "keys_ok s1" "down_key s1 = down_key s"
    using ir_raw_key_total [OF assms] by blast
  obtain k s2 where k: "(if r \<noteq> MV_IR_KEY_NULL then key_seen clk r s1 else key_silent clk s1) = (k, s2)" by fastforce
  have "keys_ok s2 \<and> key_proto (down_key s1) k = Some (down_key s2)"
    using k key_seen_proto [OF r(3) _ _ r(2)] key_silent_proto [OF r(3)] by (auto split: if_splits)
  moreover have "IR_HOLDKEY_SEND" "IR_UPKEY_SEND" by (code_simp, code_simp)
  ultimately show ?thesis using r k by (simp add: ir_preprocess_key_def)
qed

text \<open>The handler keeps the first reading inside the range, after as many retries as it takes.\<close>

lemma isr_clock_returns:
  assumes "uint (clk (clk_reads (ir_pd s) + m)) \<le> INT_MS * 1000 * SM_SYSTEM_HZ"
  shows "\<exists>n. isr_clock clk s = Some (clk n, s\<lparr>ir_pd := (ir_pd s)\<lparr>clk_reads := Suc n\<rparr>\<rparr>)"
  using assms
proof (induction m arbitrary: s)
  case (Suc m)
  let ?n = "clk_reads (ir_pd s)"
  let ?s = "s\<lparr>ir_pd := (ir_pd s)\<lparr>clk_reads := Suc ?n\<rparr>\<rparr>"
  obtain n where n: "isr_clock clk ?s = Some (clk n, ?s\<lparr>ir_pd := (ir_pd ?s)\<lparr>clk_reads := Suc n\<rparr>\<rparr>)"
    using Suc.IH [of ?s] Suc.prems by auto
  show ?case
  proof (cases "uint (clk ?n) \<le> INT_MS * 1000 * SM_SYSTEM_HZ")
    case True
    then show ?thesis by (intro exI [of _ ?n]) (simp add: isr_clock.simps readclock_def)
  next
    case False
    then show ?thesis using n by (intro exI [of _ n]) (simp add: isr_clock.simps [of clk s] readclock_def)
  qed
qed (auto simp: isr_clock.simps readclock_def)

lemma isr_total:
  assumes "clock_recovers clk" and "keys_ok s"
  shows "\<exists>s'. mv_sm_ir_isr clk s = Some s' \<and> keys_ok s' \<and> down_key s' = down_key s"
proof -
  obtain n where c: "isr_clock clk s = Some (clk n, s\<lparr>ir_pd := (ir_pd s)\<lparr>clk_reads := Suc n\<rparr>\<rparr>)"
    using assms(1) isr_clock_returns [of clk s] unfolding clock_recovers_def by blast
  have ok: "ir_ok (ir_buffer s)" using assms(2) by (simp add: keys_ok_def)
  let ?len = "length_caculate (clk n) (iPrev_ticks s)" and ?rise = "ir_current_set_rise s XOR 1"
  obtain b where b: "store_ircbuffer ?len ?rise (ir_buffer s) = Some b" "ir_ok b"
    using store_ircbuffer_entries [OF ok] by blast
  then show ?thesis using c assms(2)
    by (simp add: mv_sm_ir_isr_def ir_call_def Let_def keys_ok_def down_key_def)
qed

lemma task_proto:
  assumes "keys_ok s" and "plain_table tab"
  shows "\<exists>k s'. mv_sm_ir_task tab clk tm s = Some (k, s') \<and> keys_ok s' \<and> key_proto (down_key s) k = Some (down_key s')"
proof -
  obtain k s1 where k: "ir_preprocess_key tab clk s = Some (k, s1)" "keys_ok s1" "key_proto (down_key s) k = Some (down_key s1)"
    using ir_preprocess_key_proto [OF assms] by blast
  have p: "keys_ok (mv_sm_process_key tm i j u) = keys_ok u" "down_key (mv_sm_process_key tm i j u) = down_key u" for i j u
    by (auto simp: mv_sm_process_key_def ir_call_def keys_ok_def down_key_def split: MV_SM_STATE.split)
  have "keys_ok (ir_call c u) = keys_ok u" "down_key (ir_call c u) = down_key u" for c u
    by (simp_all add: ir_call_def keys_ok_def down_key_def)
  then show ?thesis using k p by (cases "k = MV_IR_KEY_NULL") (simp_all add: mv_sm_ir_task_def mv_sm_ir_broadcast_key_state_def Let_def)
qed

lemma msgs_proto:
  "keys_ok (mv_sm_process_ir_msg m body s) = keys_ok s"
  "down_key (mv_sm_process_ir_msg m body s) = down_key s"
  "keys_ok (mv_sm_process_internal_ir_msg sender flow status s) = keys_ok s"
  "down_key (mv_sm_process_internal_ir_msg sender flow status s) = down_key s"
  by (simp_all add: mv_sm_process_ir_msg_def mv_sm_process_internal_ir_msg_def sm_send_power_key_def ir_call_def keys_ok_def
      down_key_def Let_def)

lemma ir_step_proto:
  assumes "clock_recovers clk" and "plain_table tab" and "keys_ok s"
  shows "\<exists>ks s'. ir_step tab clk tm e s = Some (ks, s') \<and> keys_ok s' \<and> key_protos (down_key s) ks = Some (down_key s')"
proof (cases e)
  case Edge
  then show ?thesis using isr_total [OF assms(1,3)] by (auto simp: ir_step_def)
next
  case Task
  obtain k s' where "mv_sm_ir_task tab clk tm s = Some (k, s')" "keys_ok s'" "key_proto (down_key s) k = Some (down_key s')"
    using task_proto [OF assms(3,2)] by blast
  then show ?thesis using Task by (simp add: ir_step_def)
next
  case (Power_Moves p)
  then show ?thesis using assms(3) by (simp add: ir_step_def keys_ok_def down_key_def)
qed (use assms(3) in \<open>simp_all add: ir_step_def msgs_proto\<close>)

lemma key_protos_append: "key_protos c (ks @ ks') = Option.bind (key_protos c ks) (\<lambda>c'. key_protos c' ks')"
  by (induction ks arbitrary: c) (auto split: bind_splits)

lemma ir_run_proto:
  assumes "clock_recovers clk" and "plain_table tab"
  shows "keys_ok s \<Longrightarrow> \<exists>ks s'. ir_run tab clk tm es s = Some (ks, s') \<and> keys_ok s' \<and> key_protos (down_key s) ks = Some (down_key s')"
proof (induction es arbitrary: s)
  case (Cons e es)
  obtain ks s1 where 1: "ir_step tab clk tm e s = Some (ks, s1)" "keys_ok s1" "key_protos (down_key s) ks = Some (down_key s1)"
    using ir_step_proto [OF assms Cons.prems] by blast
  obtain ks' s2 where "ir_run tab clk tm es s1 = Some (ks', s2)" "keys_ok s2" "key_protos (down_key s1) ks' = Some (down_key s2)"
    using Cons.IH [OF 1(2)] by blast
  then show ?case using 1 by (simp add: key_protos_append)
qed simp

text \<open>
  C22: let the module use one of the three NEC tables and let readings of the clock inside the
  timer's range recur.  For every interleaving of interrupts, task iterations, messages and moves
  of the power module, from a state with no key down, the module never faults, the interrupt
  handler's retry of abnormal clock readings always ends, and the keys the task produces follow
  the key protocol: a plain key goes down, is then only held or released, and no other key is seen
  before its release.
\<close>

theorem ir_key_protocol:
  assumes "tab \<in> {vendor_ir_nec_table_syna, vendor_ir_nec_table_sky, vendor_ir_nec_table_elektra}"
    and "clock_recovers clk" and "ir_ok (ir_buffer s)" and "\<not> keydown s" and "\<not> keyhold s"
  shows "\<exists>ks s'. ir_run tab clk tm es s = Some (ks, s') \<and> key_protos None ks = Some (down_key s')"
proof -
  have "plain_table tab" using assms(1) plain_tables by blast
  moreover have "keys_ok s" "down_key s = None" using assms by (simp_all add: keys_ok_def down_key_def)
  ultimately show ?thesis using ir_run_proto [OF assms(2), of tab s tm es] by auto
qed

definition idle_ir :: "sm_power \<Rightarrow> sm_ir" where
  "idle_ir p =
     \<lparr>ir_buffer = filled_buf (pairs (nec_encode 0xfd02ff00)), ir_pd = idle_pd, is_linuxready = True, bInputDisable = False,
      iHoldKeyCount = 0, keydown_ticks = 0, lastkeyhold_ticks = 0, keydown = False, keyhold = False, currkey = 0,
      iPrev_ticks = 0, ir_current_set_rise = 0, ir_power = p, ir_calls = []\<rparr>"

text \<open>A clock with an abnormal reading every other time.\<close>

definition flaky_clock :: "nat \<Rightarrow> u32" where
  "flaky_clock n = (if even n then 0xffffffff else of_nat n mod 0x1000)"

lemma flaky_clock_recovers: "clock_recovers flaky_clock"
proof -
  have "uint (flaky_clock (n + (if even n then 1 else 2))) \<le> INT_MS * 1000 * SM_SYSTEM_HZ" for n
  proof -
    have "uint (of_nat k mod 0x1000 :: u32) < 0x1000" for k by (simp add: uint_mod_distrib)
    from this [of "n + (if even n then 1 else 2)"] show ?thesis
      by (simp add: flaky_clock_def INT_MS_def SM_SYSTEM_HZ_def)
  qed
  then show ?thesis unfolding clock_recovers_def by blast
qed

theorem ir_key_protocol_witness:
  "\<forall>p. \<exists>ks s'. ir_run vendor_ir_nec_table_syna flaky_clock (\<lambda>_. 0) [Task, Edge, Task] (idle_ir p) = Some (ks, s') \<and>
     key_protos None ks = Some (down_key s')"
  by (intro allI ir_key_protocol) (simp_all add: flaky_clock_recovers idle_ir_def filled_buf_ok nec_encode_def)

end
