(* ===== verification/Flash_Adaptor.thy ===== *)
theory Flash_Adaptor
  imports Boot_Prelude
begin

text \<open>
  The flash adaptor \<^verbatim>\<open>src/boot/common/driver/flash/flash_adaptor.c\<close> with its eMMC back end
  \<^verbatim>\<open>src/boot/common/driver/emmc/emmc.c\<close>.  The controller driver below is a parameter: its
  answers may depend on everything that was asked of it before.
\<close>

section \<open>The controller driver and the state\<close>

datatype emmc_call =
    Emmc_Init int
  | Emmc_Switch u32
  | Emmc_Read u64 u32
  | Emmc_Write u64 u32 mem
  | Emmc_Stop_Alt

text \<open>The answers of \<open>do_emmcinit\<close>, \<open>do_emmc_switch_part\<close>, \<open>do_emmcread\<close>, \<open>do_emmcwrite\<close>, and the capacities.\<close>

record emmc_driver =
  drv_init :: "emmc_call list \<Rightarrow> int \<Rightarrow> int"
  drv_switch :: "emmc_call list \<Rightarrow> u32 \<Rightarrow> int"
  drv_read :: "emmc_call list \<Rightarrow> u64 \<Rightarrow> u32 \<Rightarrow> int \<times> mem"
  drv_write :: "emmc_call list \<Rightarrow> u64 \<Rightarrow> u32 \<Rightarrow> mem \<Rightarrow> int"
  do_emmc_capacity :: int
  get_mmc_size :: int

record flash_adaptor =
  block_size :: int
  page_size :: int
  addr_cycle :: int
  current_part :: u32
  global_flash_id :: int
  emmc_calls :: "emmc_call list"

definition FLASH_SWITCH_PART_NOEXIST :: int where "FLASH_SWITCH_PART_NOEXIST = -1"
definition FLASH_OP_ERR :: int where "FLASH_OP_ERR = -2"
definition MMC_BLOCK_SIZE :: nat where "MMC_BLOCK_SIZE = 512"

definition g_flash :: flash_adaptor where
  "g_flash = \<lparr>block_size = 0x80000, page_size = 8192, addr_cycle = 0, current_part = 0xF, global_flash_id = 0,
     emmc_calls = []\<rparr>"

definition emmc_call :: "emmc_call \<Rightarrow> flash_adaptor \<Rightarrow> flash_adaptor" where
  "emmc_call c s = s\<lparr>emmc_calls := emmc_calls s @ [c]\<rparr>"

section \<open>The eMMC back end\<close>

definition init_emmc :: "emmc_driver \<Rightarrow> int \<Rightarrow> flash_adaptor \<Rightarrow> int \<times> flash_adaptor" where
  "init_emmc drv dev s = (drv_init drv (emmc_calls s) dev, emmc_call (Emmc_Init dev) s)"

definition switch_emmc_part :: "emmc_driver \<Rightarrow> u32 \<Rightarrow> flash_adaptor \<Rightarrow> int \<times> flash_adaptor" where
  "switch_emmc_part drv part s =
     (if 8 < part then (FLASH_SWITCH_PART_NOEXIST, s)
      else if current_part s = part then (0, s)
      else let s1 = s\<lparr>current_part := part\<rparr>;
               r = drv_switch drv (emmc_calls s1) part;
               s2 = emmc_call (Emmc_Switch part) s1 in
           (if r \<noteq> 0 then FLASH_OP_ERR else 0, s2))"

text \<open>\<open>(size + MMC_BLOCK_SIZE - 1) / MMC_BLOCK_SIZE\<close>, which wraps around.\<close>

definition emmc_blks :: "u32 \<Rightarrow> u32" where
  "emmc_blks sz = (sz + of_nat MMC_BLOCK_SIZE - 1) div of_nat MMC_BLOCK_SIZE"

text \<open>The controller stores the bytes it has read at \<open>pos\<close> in the buffer.\<close>

definition read_emmc :: "emmc_driver \<Rightarrow> int \<Rightarrow> u32 \<Rightarrow> mem \<Rightarrow> nat \<Rightarrow> flash_adaptor \<Rightarrow> (int \<times> mem \<times> flash_adaptor) option" where
  "read_emmc drv start sz buf pos s =
     (let blks = emmc_blks sz in
      if start mod int MMC_BLOCK_SIZE \<noteq> 0 then Some (-1, buf, s)
      else case drv_read drv (emmc_calls s) (word_of_int start) blks of (ret, bs) \<Rightarrow>
        do { buf' \<leftarrow> blit buf pos bs;
             Some (ret, buf', emmc_call (Emmc_Read (word_of_int start) blks) s) })"

text \<open>The controller takes whole blocks from the buffer.\<close>

definition write_emmc :: "emmc_driver \<Rightarrow> int \<Rightarrow> u32 \<Rightarrow> mem \<Rightarrow> nat \<Rightarrow> flash_adaptor \<Rightarrow> (int \<times> flash_adaptor) option" where
  "write_emmc drv start sz buf pos s =
     (let blks = emmc_blks sz in
      do { bs \<leftarrow> slice buf pos (MMC_BLOCK_SIZE * unat blks);
           Some (drv_write drv (emmc_calls s) (word_of_int start) blks bs,
                 emmc_call (Emmc_Write (word_of_int start) blks bs) s) })"

definition emmc_dev_id_inc :: "u32 \<Rightarrow> u32" where
  "emmc_dev_id_inc dev_id = dev_id + 1"

definition emmc_get_boot_partition_number :: int where
  "emmc_get_boot_partition_number = 2"

definition adaptor_get_capacity :: "emmc_driver \<Rightarrow> int \<Rightarrow> int" where
  "adaptor_get_capacity drv dev = (if dev = 0 then do_emmc_capacity drv else get_mmc_size drv)"

definition emmc_set_parameters :: "int \<Rightarrow> int \<Rightarrow> int \<Rightarrow> flash_adaptor \<Rightarrow> flash_adaptor" where
  "emmc_set_parameters blocksize pagesize addrcycle s =
     s\<lparr>block_size := blocksize, page_size := pagesize, addr_cycle := addrcycle\<rparr>"

section \<open>The adaptor\<close>

text \<open>The eMMC back end provides every function of the adaptor but \<open>erase\<close>.\<close>

definition set_flash_parameters :: "int \<Rightarrow> int \<Rightarrow> int \<Rightarrow> flash_adaptor \<Rightarrow> flash_adaptor" where
  "set_flash_parameters = emmc_set_parameters"

definition init_flash :: "emmc_driver \<Rightarrow> int \<Rightarrow> flash_adaptor \<Rightarrow> int \<times> flash_adaptor" where
  "init_flash drv dev s = init_emmc drv dev (s\<lparr>global_flash_id := dev\<rparr>)"

definition get_boot_partition_number :: int where
  "get_boot_partition_number = emmc_get_boot_partition_number"

definition switch_flash_part :: "emmc_driver \<Rightarrow> u32 \<Rightarrow> flash_adaptor \<Rightarrow> int \<times> flash_adaptor" where
  "switch_flash_part = switch_emmc_part"

definition stop_alt_boot_mode :: "flash_adaptor \<Rightarrow> flash_adaptor" where
  "stop_alt_boot_mode s = emmc_call Emmc_Stop_Alt s"

definition read_flash :: "emmc_driver \<Rightarrow> int \<Rightarrow> u32 \<Rightarrow> mem \<Rightarrow> nat \<Rightarrow> flash_adaptor \<Rightarrow> (int \<times> mem \<times> flash_adaptor) option" where
  "read_flash = read_emmc"

definition get_flash_capacity :: "emmc_driver \<Rightarrow> flash_adaptor \<Rightarrow> int" where
  "get_flash_capacity drv s = adaptor_get_capacity drv (global_flash_id s)"

definition read_flash_from_part ::
    "emmc_driver \<Rightarrow> u32 \<Rightarrow> int \<Rightarrow> u32 \<Rightarrow> mem \<Rightarrow> nat \<Rightarrow> flash_adaptor \<Rightarrow> (int \<times> mem \<times> flash_adaptor) option" where
  "read_flash_from_part drv part start sz buf pos s =
     (case switch_flash_part drv part s of (part_addr, s1) \<Rightarrow>
        if part_addr < 0 then Some (FLASH_OP_ERR, buf, s1)
        else read_flash drv (part_addr + start) sz buf pos s1)"

definition erase_flash :: "int \<Rightarrow> u32 \<Rightarrow> flash_adaptor \<Rightarrow> int \<times> flash_adaptor" where
  "erase_flash start sz s = (FLASH_OP_ERR, s)"

definition write_flash :: "emmc_driver \<Rightarrow> int \<Rightarrow> u32 \<Rightarrow> mem \<Rightarrow> nat \<Rightarrow> flash_adaptor \<Rightarrow> (int \<times> flash_adaptor) option" where
  "write_flash = write_emmc"

definition flash_dev_id_inc :: "u32 \<Rightarrow> u32" where
  "flash_dev_id_inc = emmc_dev_id_inc"

section \<open>What the adaptor guarantees\<close>

text \<open>The controller delivers at most the blocks it was asked for.\<close>

definition driver_ok :: "emmc_driver \<Rightarrow> bool" where
  "driver_ok drv \<longleftrightarrow> (\<forall>h start blks. length (snd (drv_read drv h start blks)) \<le> MMC_BLOCK_SIZE * unat blks)"

lemma unat_emmc_blks: "unat (emmc_blks sz) = unat (sz + 511) div 512"
proof -
  have "sz + of_nat MMC_BLOCK_SIZE - 1 = sz + 511" "(of_nat MMC_BLOCK_SIZE :: u32) = 512" by (simp_all add: MMC_BLOCK_SIZE_def)
  then show ?thesis unfolding emmc_blks_def by (simp only:) (simp add: unat_div_distrib)
qed

lemma emmc_blks_le: "512 * unat (emmc_blks sz) \<le> unat sz + 511"
proof -
  have "512 * unat (emmc_blks sz) \<le> unat (sz + 511)" by (simp add: unat_emmc_blks)
  also have "\<dots> \<le> unat sz + 511" by (simp add: unat_word_ariths)
  finally show ?thesis .
qed

lemma read_emmc_total:
  assumes "driver_ok drv" and "pos + MMC_BLOCK_SIZE * unat (emmc_blks sz) \<le> length buf"
  shows "\<exists>r buf' s'. read_emmc drv start sz buf pos s = Some (r, buf', s') \<and> length buf' = length buf \<and>
    (start mod 512 = 0 \<longrightarrow> emmc_calls s' = emmc_calls s @ [Emmc_Read (word_of_int start) (emmc_blks sz)]) \<and>
    (start mod 512 \<noteq> 0 \<longrightarrow> r = -1 \<and> buf' = buf \<and> s' = s)"
proof -
  obtain r bs where d: "drv_read drv (emmc_calls s) (word_of_int start) (emmc_blks sz) = (r, bs)" by fastforce
  have "length (snd (drv_read drv (emmc_calls s) (word_of_int start) (emmc_blks sz))) \<le> MMC_BLOCK_SIZE * unat (emmc_blks sz)"
    using assms(1) unfolding driver_ok_def by blast
  then have "pos + length bs \<le> length buf" using assms(2) d by simp
  then obtain buf' where "blit buf pos bs = Some buf'" by (simp add: blit_def)
  then show ?thesis using d length_blit [of buf pos bs buf']
    by (auto simp: read_emmc_def Let_def emmc_call_def MMC_BLOCK_SIZE_def)
qed

lemma read_flash_from_part_total:
  assumes "driver_ok drv" and "pos + MMC_BLOCK_SIZE * unat (emmc_blks sz) \<le> length buf"
  shows "\<exists>r buf' s'. read_flash_from_part drv part start sz buf pos s = Some (r, buf', s') \<and> length buf' = length buf"
proof -
  obtain a s1 where "switch_flash_part drv part s = (a, s1)" by fastforce
  then show ?thesis using read_emmc_total [OF assms, of "a + start" s1]
    by (auto simp: read_flash_from_part_def read_flash_def)
qed

section \<open>The selected part\<close>

text \<open>A read from the part that the adaptor takes for selected goes to the controller without a switch.\<close>

lemma read_selected_part:
  "current_part s = part \<Longrightarrow> part \<le> 8 \<Longrightarrow> read_flash_from_part drv part start sz buf pos s = read_flash drv start sz buf pos s"
  by (auto simp: read_flash_from_part_def switch_flash_part_def switch_emmc_part_def)

text \<open>
  C14: the adaptor records a part as selected before the controller has switched to it.  When the
  controller refuses the switch, an aligned read from the part reports an error, but the same read tried
  again, into a buffer with room for its blocks, asks for no switch: the only call it makes is the
  read, and its result is whatever the controller answers to that read, although the last thing
  the controller was asked about the part is the switch it refused.
\<close>

theorem emmc_switch_failure_forgotten:
  assumes "part \<le> 8" and "current_part s \<noteq> part" and "drv_switch drv (emmc_calls s) part \<noteq> 0"
    and "driver_ok drv" and "start mod 512 = 0" and "pos + MMC_BLOCK_SIZE * unat (emmc_blks sz) \<le> length buf"
  shows "\<exists>s1 buf' s2. read_flash_from_part drv part start sz buf pos s = Some (FLASH_OP_ERR, buf, s1) \<and>
    emmc_calls s1 = emmc_calls s @ [Emmc_Switch part] \<and>
    read_flash_from_part drv part start sz buf pos s1 =
      Some (fst (drv_read drv (emmc_calls s1) (word_of_int start) (emmc_blks sz)), buf', s2) \<and>
    emmc_calls s2 = emmc_calls s1 @ [Emmc_Read (word_of_int start) (emmc_blks sz)]"
proof -
  let ?s1 = "emmc_call (Emmc_Switch part) (s\<lparr>current_part := part\<rparr>)"
  have 1: "read_flash_from_part drv part start sz buf pos s = Some (FLASH_OP_ERR, buf, ?s1)"
    using assms(1-3) by (auto simp: read_flash_from_part_def switch_flash_part_def switch_emmc_part_def Let_def FLASH_OP_ERR_def)
  have 2: "read_flash_from_part drv part start sz buf pos ?s1 = read_emmc drv start sz buf pos ?s1"
    using read_selected_part [of ?s1 part] assms(1) by (simp add: emmc_call_def read_flash_def)
  obtain r buf' s2 where 3: "read_emmc drv start sz buf pos ?s1 = Some (r, buf', s2)"
    "emmc_calls s2 = emmc_calls ?s1 @ [Emmc_Read (word_of_int start) (emmc_blks sz)]"
    using read_emmc_total [OF assms(4,6), of start ?s1] assms(5) by blast
  have "r = fst (drv_read drv (emmc_calls ?s1) (word_of_int start) (emmc_blks sz))"
    using 3(1) assms(5) by (auto simp: read_emmc_def Let_def MMC_BLOCK_SIZE_def split: prod.splits bind_splits)
  then show ?thesis using 1 2 3
    by (intro exI [of _ ?s1] exI [of _ buf'] exI [of _ s2]) (simp add: emmc_call_def)
qed

definition no_gpp_driver :: emmc_driver where
  "no_gpp_driver = \<lparr>drv_init = \<lambda>h d. 0, drv_switch = \<lambda>h q. if q < 4 then 0 else 1,
     drv_read = \<lambda>h start blks. (0, replicate (512 * unat blks) 0), drv_write = \<lambda>h start blks bs. 0,
     do_emmc_capacity = 0x10000000, get_mmc_size = 0\<rparr>"

lemma no_gpp_driver_ok: "driver_ok no_gpp_driver"
  by (simp add: driver_ok_def no_gpp_driver_def MMC_BLOCK_SIZE_def)

lemma emmc_blks_1: "unat (emmc_blks 512) = 1"
  by (simp add: unat_emmc_blks)

theorem emmc_switch_failure_forgotten_witness:
  "\<exists>s1 buf' s2. read_flash_from_part no_gpp_driver 4 0 512 (replicate 512 7) 0 g_flash = Some (FLASH_OP_ERR, replicate 512 7, s1) \<and>
    emmc_calls s1 = [Emmc_Switch 4] \<and>
    read_flash_from_part no_gpp_driver 4 0 512 (replicate 512 7) 0 s1 = Some (0, buf', s2) \<and>
    emmc_calls s2 = [Emmc_Switch 4, Emmc_Read 0 (emmc_blks 512)]"
proof -
  have l: "length (replicate 512 (7 :: u8)) = 512" by (rule length_replicate)
  define buf where "buf = replicate 512 (7 :: u8)"
  have "0 + MMC_BLOCK_SIZE * unat (emmc_blks 512) \<le> length buf"
    unfolding buf_def l emmc_blks_1 by (simp add: MMC_BLOCK_SIZE_def)
  moreover have "(4 :: u32) \<le> 8" "current_part g_flash \<noteq> 4" "drv_switch no_gpp_driver (emmc_calls g_flash) 4 \<noteq> 0" "(0 :: int) mod 512 = 0"
    by (simp_all add: no_gpp_driver_def g_flash_def)
  moreover have "fst (drv_read no_gpp_driver h a n) = 0" "emmc_calls g_flash = []" for h a n
    by (simp_all add: no_gpp_driver_def g_flash_def)
  ultimately show ?thesis
    using emmc_switch_failure_forgotten [of 4 g_flash no_gpp_driver 0 0 512 buf] no_gpp_driver_ok unfolding buf_def [symmetric]
    by (elim meta_impE exE conjE) simp_all
qed

end
