(* ===== verification/Gpt.thy ===== *)
theory Gpt
  imports C_String Flash_Adaptor
begin

text \<open>
  The partition table loader \<^verbatim>\<open>src/boot/common/driver/flash/load_gpt.c\<close>: reading the GPT of
  the user area and of the general purpose partitions into one table, finding a partition by its
  name, and reading and writing images inside a partition.
\<close>

section \<open>Records on flash\<close>

definition of_le64 :: "u8 list \<Rightarrow> u64" where
  "of_le64 bs = ucast (of_le32 (take 4 bs)) OR push_bit 32 (ucast (of_le32 (drop 4 bs)))"

fun of_le16s :: "u8 list \<Rightarrow> u16 list" where
  "of_le16s (a # b # bs) = (ucast a OR push_bit 8 (ucast b)) # of_le16s bs"
| "of_le16s bs = []"

text \<open>The fields of the header that the loader reads; the header is at \<open>h\<close> in the buffer.\<close>

definition hdr_sig :: "mem \<Rightarrow> nat \<Rightarrow> mem option" where "hdr_sig buf h = slice buf h 8"
definition hdr_revision :: "mem \<Rightarrow> nat \<Rightarrow> u32 option" where "hdr_revision buf h = map_option of_le32 (slice buf (h + 8) 4)"
definition hdr_size :: "mem \<Rightarrow> nat \<Rightarrow> u32 option" where "hdr_size buf h = map_option of_le32 (slice buf (h + 12) 4)"
definition hdr_entries :: "mem \<Rightarrow> nat \<Rightarrow> u32 option" where "hdr_entries buf h = map_option of_le32 (slice buf (h + 80) 4)"

definition GPT_HDR_SIG :: mem where "GPT_HDR_SIG = [0x45, 0x46, 0x49, 0x20, 0x50, 0x41, 0x52, 0x54, 0]"
definition GPT_HDR_REVISION :: u32 where "GPT_HDR_REVISION = 0x00010000"

record gpt_ent =
  ent_type :: mem
  ent_uuid :: mem
  ent_lba_start :: u64
  ent_lba_end :: u64
  ent_attr :: u64
  ent_name :: "u16 list"

definition gpt_ent_of :: "mem \<Rightarrow> gpt_ent" where
  "gpt_ent_of bs = \<lparr>ent_type = take 16 bs, ent_uuid = take 16 (drop 16 bs), ent_lba_start = of_le64 (take 8 (drop 32 bs)),
     ent_lba_end = of_le64 (take 8 (drop 40 bs)), ent_attr = of_le64 (take 8 (drop 48 bs)),
     ent_name = of_le16s (take 72 (drop 56 bs))\<rparr>"

record gpt_ent_part =
  part :: u32
  gpt :: gpt_ent

definition MAX_GPT_ENTRY :: nat where "MAX_GPT_ENTRY = 128"
definition MAX_ENT_NAME :: nat where "MAX_ENT_NAME = 36"
definition MAX_HDR_SIZE :: u32 where "MAX_HDR_SIZE = 100"
definition PARTITION_NOT_EXIST :: int where "PARTITION_NOT_EXIST = -1"
definition SDIO_BLK_SIZE :: int where "SDIO_BLK_SIZE = 0x200"

record gpt_table_t =
  num :: nat
  entry :: "gpt_ent_part list"

section \<open>Loading the table\<close>

text \<open>The loop over \<open>n\<close> entries from the \<open>i\<close>-th; the table in the buffer starts at \<open>e\<close>.\<close>

fun parse_loop :: "u32 \<Rightarrow> mem \<Rightarrow> nat \<Rightarrow> nat \<Rightarrow> nat \<Rightarrow> gpt_table_t \<Rightarrow> gpt_table_t option" where
  "parse_loop pt buf e i 0 gptes = Some gptes"
| "parse_loop pt buf e i (Suc n) gptes =
     do { r \<leftarrow> memcmp (replicate 16 0) (Some 0) buf (Some (e + 128 * i)) 16;
          if r = 0 then parse_loop pt buf e (Suc i) n gptes
          else do { bs \<leftarrow> slice buf (e + 128 * i) 128;
                    es \<leftarrow> wr (entry gptes) (num gptes) \<lparr>part = pt, gpt = gpt_ent_of bs\<rparr>;
                    parse_loop pt buf e (Suc i) n (gptes\<lparr>num := Suc (num gptes), entry := es\<rparr>) } }"

definition parse_gpt_table :: "u32 \<Rightarrow> mem \<Rightarrow> nat \<Rightarrow> nat \<Rightarrow> gpt_table_t \<Rightarrow> gpt_table_t option" where
  "parse_gpt_table pt buf h e gptes =
     do { entries \<leftarrow> hdr_entries buf h;
          let room = (word_of_int (int MAX_GPT_ENTRY - int (num gptes)) :: u32);
          let n = (if entries < room then entries else room);
          parse_loop pt buf e 0 (unat n) gptes }"

definition get_aligned :: "u32 \<Rightarrow> u32 \<Rightarrow> u32" where
  "get_aligned address page_sz = (address + page_sz - 1) div page_sz * page_sz"

definition GPT_PRI_READ_SIZE :: u32 where "GPT_PRI_READ_SIZE = 0x6800"
definition GPT_ALT_READ_SIZE :: u32 where "GPT_ALT_READ_SIZE = 0x4200"
definition GPT_HEADER_OFFSET :: nat where "GPT_HEADER_OFFSET = 0x200"
definition GPT_TABLE_OFFSET :: nat where "GPT_TABLE_OFFSET = 0x400"
definition GPT_PART_SIZE :: nat where "GPT_PART_SIZE = 0x4000"

text \<open>The integrity check of a header.\<close>

definition hdr_accepted :: "mem \<Rightarrow> nat \<Rightarrow> bool option" where
  "hdr_accepted buf h =
     do { r \<leftarrow> memcmp buf (Some h) GPT_HDR_SIG (Some 0) 8;
          if r \<noteq> 0 then Some False
          else do { v \<leftarrow> hdr_revision buf h;
                    if v \<noteq> GPT_HDR_REVISION then Some False
                    else do { hs \<leftarrow> hdr_size buf h; Some (\<not> MAX_HDR_SIZE < hs) } } }"

text \<open>
  The loop over the four general purpose partitions: a partition that cannot be read ends it, one
  with a bad header is skipped.
\<close>

fun gpp_loop :: "emmc_driver \<Rightarrow> nat \<Rightarrow> nat \<Rightarrow> mem \<Rightarrow> nat \<Rightarrow> gpt_table_t \<Rightarrow> flash_adaptor \<Rightarrow>
    (mem \<times> gpt_table_t \<times> flash_adaptor) option" where
  "gpp_loop drv i 0 tbuff buff gptes s = Some (tbuff, gptes, s)"
| "gpp_loop drv i (Suc n) tbuff buff gptes s =
     do { (r, tbuff, s) \<leftarrow> read_flash_from_part drv (of_nat (4 + i)) 0 GPT_ALT_READ_SIZE tbuff buff s;
          if r = 0
          then do { ok \<leftarrow> hdr_accepted tbuff (buff + GPT_HEADER_OFFSET);
                    gptes \<leftarrow> (if ok then parse_gpt_table (of_nat (4 + i)) tbuff (buff + GPT_HEADER_OFFSET) (buff + GPT_TABLE_OFFSET) gptes
                             else Some gptes);
                    gpp_loop drv (Suc i) n tbuff buff gptes s }
          else Some (tbuff, gptes, s) }"

text \<open>
  \<open>tbuff\<close> is the caller's buffer and \<open>addr\<close> its address; \<open>buff\<close> is the aligned position in it.
  The result is the return value with the buffer, the table and the adaptor.
\<close>

definition get_gpt :: "emmc_driver \<Rightarrow> u32 \<Rightarrow> mem \<Rightarrow> gpt_table_t \<Rightarrow> flash_adaptor \<Rightarrow>
    (int \<times> mem \<times> gpt_table_t \<times> flash_adaptor) option" where
  "get_gpt drv addr tbuff gptes s =
     (let buff = unat (get_aligned addr 64 - addr) in
      do { (r, tbuff, s) \<leftarrow> read_flash_from_part drv 0 0 GPT_PRI_READ_SIZE tbuff buff s;
           (found, hdr, ent, tbuff, s) \<leftarrow>
             (if r = 0 then Some (True, buff + GPT_HEADER_OFFSET, buff + GPT_TABLE_OFFSET, tbuff, s)
              else do { (r, tbuff, s) \<leftarrow> read_flash_from_part drv 0 (get_flash_capacity drv s - uint GPT_ALT_READ_SIZE)
                                           GPT_ALT_READ_SIZE tbuff buff s;
                        Some (r = 0, buff + GPT_PART_SIZE, buff, tbuff, s) });
           if \<not> found then Some (FLASH_OP_ERR, tbuff, gptes, s)
           else do { ok \<leftarrow> hdr_accepted tbuff hdr;
                     if \<not> ok then Some (FLASH_OP_ERR, tbuff, gptes, s)
                     else do { gptes \<leftarrow> parse_gpt_table 0 tbuff hdr ent gptes;
                               (tbuff, gptes, s) \<leftarrow> gpp_loop drv 0 4 tbuff buff gptes s;
                               Some (0, tbuff, gptes, s) } } })"

definition get_partition_info :: "emmc_driver \<Rightarrow> u32 \<Rightarrow> mem \<Rightarrow> gpt_table_t \<Rightarrow> flash_adaptor \<Rightarrow>
    (int \<times> mem \<times> gpt_table_t \<times> flash_adaptor) option" where
  "get_partition_info drv addr tbuff gptes s =
     map_option (\<lambda>(ret, st). (if ret \<noteq> 0 then -1 else 0, st)) (get_gpt drv addr tbuff gptes s)"

section \<open>Finding a partition\<close>

text \<open>The low byte of each character up to the first zero; the array has fewer than 256 characters.\<close>

fun convert_loop :: "mem \<Rightarrow> u16 list \<Rightarrow> nat \<Rightarrow> nat \<Rightarrow> mem option" where
  "convert_loop str name i 0 = Some str"
| "convert_loop str name i (Suc n) =
     do { c \<leftarrow> rd name i;
          str' \<leftarrow> wr str i (ucast c);
          if (ucast c :: u8) = 0 then Some str' else convert_loop str' name (Suc i) n }"

definition gpt_convert_efi_name_to_char :: "mem \<Rightarrow> u16 list \<Rightarrow> nat \<Rightarrow> mem option" where
  "gpt_convert_efi_name_to_char str name n =
     do { (str, _) \<leftarrow> memset str (Some 0) 0 n; convert_loop str name 0 ((n + 1) div 2) }"

fun find_loop :: "emmc_driver \<Rightarrow> gpt_table_t \<Rightarrow> mem \<Rightarrow> nat \<Rightarrow> nat \<Rightarrow> nat \<Rightarrow> mem \<Rightarrow> flash_adaptor \<Rightarrow> (int \<times> flash_adaptor) option" where
  "find_loop drv gptes m name i 0 ent_name_char s = Some (PARTITION_NOT_EXIST, s)"
| "find_loop drv gptes m name i (Suc n) ent_name_char s =
     do { e \<leftarrow> rd (entry gptes) i;
          ent_name_char \<leftarrow> gpt_convert_efi_name_to_char ent_name_char (ent_name (gpt e)) 72;
          l1 \<leftarrow> strnlen m (Some name) MAX_ENT_NAME;
          l2 \<leftarrow> strnlen ent_name_char (Some 0) MAX_ENT_NAME;
          if l1 \<noteq> l2 then find_loop drv gptes m name (Suc i) n ent_name_char s
          else do { r \<leftarrow> memcmp m (Some name) ent_name_char (Some 0) l1;
                    if r = 0 then Some (int i, snd (switch_flash_part drv (part e) s))
                    else find_loop drv gptes m name (Suc i) n ent_name_char s } }"

definition find_partition :: "emmc_driver \<Rightarrow> gpt_table_t \<Rightarrow> mem \<Rightarrow> nat \<Rightarrow> flash_adaptor \<Rightarrow> (int \<times> flash_adaptor) option" where
  "find_partition drv gptes m name s = find_loop drv gptes m name 0 (num gptes) (replicate 72 0) s"

definition fetch_partition_info :: "gpt_table_t \<Rightarrow> int \<Rightarrow> (int \<times> gpt_ent option) option" where
  "fetch_partition_info gptes n =
     (if 0 \<le> n \<and> n < int (num gptes) then do { e \<leftarrow> rd (entry gptes) (nat n); Some (n, Some (gpt e)) }
      else Some (PARTITION_NOT_EXIST, None))"

definition get_gpt_entry_number :: "gpt_table_t \<Rightarrow> nat" where
  "get_gpt_entry_number gptes = num gptes"

section \<open>Images\<close>

text \<open>A signed 64-bit result; overflow is undefined.\<close>

definition ll :: "int \<Rightarrow> int option" where
  "ll x = (if - (2 ^ 63) \<le> x \<and> x < 2 ^ 63 then Some x else None)"

text \<open>The bounds of an access: its start, unless it leaves the partition.\<close>

definition image_start :: "gpt_ent \<Rightarrow> u32 \<Rightarrow> u32 \<Rightarrow> int option option" where
  "image_start gpte pt_offset sz =
     do { b \<leftarrow> ll (sint (ent_lba_start gpte) * SDIO_BLK_SIZE);
          start \<leftarrow> ll (b + uint pt_offset);
          stop \<leftarrow> ll (sint (ent_lba_end gpte) * SDIO_BLK_SIZE);
          x \<leftarrow> ll (uint sz + start);
          y \<leftarrow> ll (x - SDIO_BLK_SIZE);
          Some (if stop < y then None else Some start) }"

definition read_image_from_offset ::
    "emmc_driver \<Rightarrow> gpt_ent \<Rightarrow> u32 \<Rightarrow> u32 \<Rightarrow> mem \<Rightarrow> nat \<Rightarrow> flash_adaptor \<Rightarrow> (int \<times> mem \<times> flash_adaptor) option" where
  "read_image_from_offset drv gpte pt_offset sz buf pos s =
     do { st \<leftarrow> image_start gpte pt_offset sz;
          case st of None \<Rightarrow> Some (-1, buf, s)
          | Some start \<Rightarrow> read_flash drv start sz buf pos s }"

definition read_image :: "emmc_driver \<Rightarrow> gpt_ent \<Rightarrow> u32 \<Rightarrow> mem \<Rightarrow> nat \<Rightarrow> flash_adaptor \<Rightarrow> (int \<times> mem \<times> flash_adaptor) option" where
  "read_image drv gpte sz buf pos s = read_image_from_offset drv gpte 0 sz buf pos s"

definition read_image_by_ptname ::
    "emmc_driver \<Rightarrow> gpt_table_t \<Rightarrow> mem \<Rightarrow> nat \<Rightarrow> u32 \<Rightarrow> mem \<Rightarrow> nat \<Rightarrow> flash_adaptor \<Rightarrow> (int \<times> mem \<times> flash_adaptor) option" where
  "read_image_by_ptname drv gptes m name sz buf pos s =
     do { (pt_index, s) \<leftarrow> find_partition drv gptes m name s;
          if pt_index < 0 then Some (-1, buf, s)
          else do { (_, g) \<leftarrow> fetch_partition_info gptes pt_index;
                    gpte \<leftarrow> g;
                    read_image drv gpte sz buf pos s } }"

definition write_image_to_offset ::
    "emmc_driver \<Rightarrow> gpt_ent \<Rightarrow> u32 \<Rightarrow> u32 \<Rightarrow> mem \<Rightarrow> nat \<Rightarrow> flash_adaptor \<Rightarrow> (int \<times> flash_adaptor) option" where
  "write_image_to_offset drv gpte pt_offset sz buf pos s =
     do { st \<leftarrow> image_start gpte pt_offset sz;
          case st of None \<Rightarrow> Some (-1, s)
          | Some start \<Rightarrow> write_flash drv start sz buf pos (snd (switch_flash_part drv 0 s)) }"

definition write_image :: "emmc_driver \<Rightarrow> gpt_ent \<Rightarrow> u32 \<Rightarrow> mem \<Rightarrow> nat \<Rightarrow> flash_adaptor \<Rightarrow> (int \<times> flash_adaptor) option" where
  "write_image drv gpte sz buf pos s = write_image_to_offset drv gpte 0 sz buf pos s"

end
