(* ===== verification/Gpt_Props.thy ===== *)
theory Gpt_Props
  imports Gpt
begin

text \<open>
  Properties of the partition table loader: the table stays within its array whatever the flash
  holds, and a partition found by its name is read only within its blocks.
\<close>

section \<open>Collecting entries\<close>

definition table_ok :: "gpt_table_t \<Rightarrow> bool" where
  "table_ok t \<longleftrightarrow> num t \<le> MAX_GPT_ENTRY \<and> length (entry t) = MAX_GPT_ENTRY \<and>
     (\<forall>i < num t. length (ent_name (gpt (entry t ! i))) = MAX_ENT_NAME)"

definition table_entries :: "gpt_table_t \<Rightarrow> gpt_ent_part list" where
  "table_entries t = take (num t) (entry t)"

text \<open>The entries in use among those with the indices \<open>is\<close> of a table at \<open>e\<close>.\<close>

definition used_entries :: "u32 \<Rightarrow> mem \<Rightarrow> nat \<Rightarrow> nat list \<Rightarrow> gpt_ent_part list" where
  "used_entries pt buf e js =
     map (\<lambda>i. \<lparr>part = pt, gpt = gpt_ent_of (take 128 (drop (e + 128 * i) buf))\<rparr>)
       (filter (\<lambda>i. take 16 (drop (e + 128 * i) buf) \<noteq> replicate 16 0) js)"

lemma length_of_le16s: "length (of_le16s bs) = length bs div 2"
  by (induction bs rule: of_le16s.induct) auto

lemma length_ent_name: "length bs = 128 \<Longrightarrow> length (ent_name (gpt_ent_of bs)) = 36"
  by (simp add: gpt_ent_of_def length_of_le16s)

lemma take_Suc_update: "n < length xs \<Longrightarrow> take (Suc n) (xs[n := x]) = take n xs @ [x]"
  by (simp add: take_Suc_conv_app_nth)

lemma parse_loop_spec:
  assumes "length (entry t) = 128" and "num t + n \<le> 128" and "e + 128 * (i + n) \<le> length buf"
  shows "\<exists>t'. parse_loop pt buf e i n t = Some t' \<and> length (entry t') = 128 \<and> num t' \<le> num t + n \<and>
    table_entries t' = table_entries t @ used_entries pt buf e [i ..< i + n]"
  using assms
proof (induction n arbitrary: i t)
  case 0
  then show ?case by (simp add: used_entries_def)
next
  case (Suc n)
  have l: "e + 128 * i + 128 \<le> length buf" using Suc.prems(3) by simp
  then obtain r where r: "memcmp (replicate 16 0) (Some 0) buf (Some (e + 128 * i)) 16 = Some r"
    "r = 0 \<longleftrightarrow> replicate 16 0 = take 16 (drop (e + 128 * i) buf)"
    using memcmp_slices [of 0 16 "replicate 16 0" "e + 128 * i" buf] by auto
  have u: "[i ..< i + Suc n] = i # [Suc i ..< Suc i + n]" by (simp add: upt_rec)
  have e: "e + 128 * (Suc i + n) \<le> length buf" using Suc.prems(3) by simp
  show ?case
  proof (cases "r = 0")
    case True
    then show ?thesis using Suc.IH [of t "Suc i"] Suc.prems(1,2) e r u by (fastforce simp: used_entries_def)
  next
    case False
    let ?x = "\<lparr>part = pt, gpt = gpt_ent_of (take 128 (drop (e + 128 * i) buf))\<rparr>"
    let ?t = "t\<lparr>num := Suc (num t), entry := (entry t)[num t := ?x]\<rparr>"
    have st: "parse_loop pt buf e i (Suc n) t = parse_loop pt buf e (Suc i) n ?t"
      using r False l Suc.prems(1,2) by (simp add: slice_def)
    have te: "table_entries ?t = table_entries t @ [?x]"
      using Suc.prems(1,2) by (simp add: table_entries_def take_Suc_update del: take_Suc)
    have ue: "used_entries pt buf e [i ..< i + Suc n] = ?x # used_entries pt buf e [Suc i ..< Suc i + n]"
      unfolding u using r False by (simp add: used_entries_def)
    obtain t' where "parse_loop pt buf e (Suc i) n ?t = Some t'" "length (entry t') = 128" "num t' \<le> num ?t + n"
      "table_entries t' = table_entries ?t @ used_entries pt buf e [Suc i ..< Suc i + n]"
      using Suc.IH [of ?t "Suc i"] Suc.prems(1,2) e by auto
    then show ?thesis unfolding st ue te by simp
  qed
qed

lemma table_entries_ok:
  assumes "num t \<le> 128" and "length (entry t) = 128"
  shows "table_ok t \<longleftrightarrow> (\<forall>x \<in> set (table_entries t). length (ent_name (gpt x)) = 36)"
  using assms by (simp add: table_ok_def table_entries_def all_set_conv_all_nth MAX_GPT_ENTRY_def MAX_ENT_NAME_def)

lemma used_entries_in:
  assumes "x \<in> set (used_entries pt buf e js)" and "\<And>i. i \<in> set js \<Longrightarrow> e + 128 * i + 128 \<le> length buf"
  shows "part x = pt \<and> ent_type (gpt x) \<noteq> replicate 16 0 \<and> length (ent_name (gpt x)) = 36"
proof -
  obtain i where i: "i \<in> set js" "take 16 (drop (e + 128 * i) buf) \<noteq> replicate 16 0"
    "x = \<lparr>part = pt, gpt = gpt_ent_of (take 128 (drop (e + 128 * i) buf))\<rparr>"
    using assms(1) by (auto simp: used_entries_def)
  have "length (take 128 (drop (e + 128 * i) buf)) = 128" using assms(2) [OF i(1)] by simp
  then show ?thesis using i length_ent_name by (simp add: gpt_ent_of_def)
qed

text \<open>
  The table grows by \<open>new\<close>: entries of the parts \<open>ps\<close> whose type is set.
\<close>

definition grows :: "u32 set \<Rightarrow> gpt_table_t \<Rightarrow> gpt_table_t \<Rightarrow> bool" where
  "grows ps t t' \<longleftrightarrow> table_ok t' \<and> (\<exists>new. table_entries t' = table_entries t @ new \<and>
     (\<forall>x \<in> set new. part x \<in> ps \<and> ent_type (gpt x) \<noteq> replicate 16 0))"

lemma grows_refl: "table_ok t \<Longrightarrow> grows ps t t"
  by (simp add: grows_def)

lemma grows_trans: "grows ps t t' \<Longrightarrow> grows qs t' t'' \<Longrightarrow> grows (ps \<union> qs) t t''"
  unfolding grows_def by (elim conjE exE) (auto intro!: exI [of _ "_ @ _"])

lemma parse_gpt_table_spec:
  assumes "table_ok t" and "h + 84 \<le> length buf" and "e + 128 * 128 \<le> length buf"
  shows "\<exists>t' n. parse_gpt_table pt buf h e t = Some t' \<and> grows {pt} t t' \<and>
    n = min (unat (of_le32 (take 4 (drop (h + 80) buf)))) (128 - num t) \<and>
    table_entries t' = table_entries t @ used_entries pt buf e [0 ..< n]"
proof -
  have t: "num t \<le> 128" "length (entry t) = 128" using assms(1) by (simp_all add: table_ok_def MAX_GPT_ENTRY_def)
  define w where "w = of_le32 (take 4 (drop (h + 80) buf))"
  define room where "room = (word_of_int (int MAX_GPT_ENTRY - int (num t)) :: u32)"
  have room: "unat room = 128 - num t"
  proof -
    have "room = of_nat (128 - num t)" using t by (simp add: room_def MAX_GPT_ENTRY_def of_nat_diff)
    then show ?thesis by (simp add: unsigned_of_nat take_bit_nat_eq_self)
  qed
  define n where "n = min (unat w) (128 - num t)"
  have n: "unat (if w < room then w else room) = n" using room by (auto simp: n_def word_less_nat_alt)
  have b: "num t + n \<le> 128" "e + 128 * (0 + n) \<le> length buf" using t assms(3) by (auto simp: n_def)
  obtain t' where t': "parse_loop pt buf e 0 n t = Some t'" "length (entry t') = 128" "num t' \<le> num t + n"
    "table_entries t' = table_entries t @ used_entries pt buf e [0 ..< 0 + n]"
    using parse_loop_spec [OF t(2) b, of pt] by blast
  have new: "part x = pt \<and> ent_type (gpt x) \<noteq> replicate 16 0 \<and> length (ent_name (gpt x)) = 36"
    if "x \<in> set (used_entries pt buf e [0 ..< 0 + n])" for x
    using that by (rule used_entries_in) (use b(2) in auto)
  have old: "\<forall>x \<in> set (table_entries t). length (ent_name (gpt x)) = 36" using table_entries_ok [OF t] assms(1) by simp
  have "num t' \<le> 128" using t' b by simp
  then have "table_ok t'" using table_entries_ok [OF _ t'(2)] t'(4) new old by auto
  then have g: "grows {pt} t t'" unfolding grows_def using t'(4) new by blast
  have he: "hdr_entries buf h = Some w" using assms(2) by (simp add: hdr_entries_def slice_def w_def)
  have "parse_gpt_table pt buf h e t = Some t'"
    unfolding parse_gpt_table_def Let_def he room_def [symmetric] Option.bind.simps n by (rule t'(1))
  then show ?thesis using g t'(4) by (simp add: n_def w_def)
qed

section \<open>Loading\<close>

lemma hdr_accepted_total: "h + 84 \<le> length buf \<Longrightarrow> \<exists>ok. hdr_accepted buf h = Some ok"
proof -
  assume h: "h + 84 \<le> length buf"
  then obtain r where "memcmp buf (Some h) GPT_HDR_SIG (Some 0) 8 = Some r"
    using memcmp_slices [of h 8 buf 0 GPT_HDR_SIG] by (auto simp: GPT_HDR_SIG_def)
  then show ?thesis using h by (auto simp: hdr_accepted_def hdr_revision_def hdr_size_def slice_def)
qed

lemma unat_get_aligned: "unat (get_aligned addr 64 - addr) \<le> 63"
proof -
  define x where "x = addr + 63"
  have "x div 64 * 64 = x - x mod 64" by (metis add_diff_cancel_right' div_mult_mod_eq)
  then have "get_aligned addr 64 - addr = 63 - x mod 64" by (simp add: get_aligned_def x_def algebra_simps)
  moreover have "unat (63 - x mod 64) \<le> 63"
  proof -
    have "unat (x mod 64) < 64" by (simp add: unat_mod_distrib)
    then have "x mod 64 \<le> 63" by (simp add: word_le_nat_alt)
    then show ?thesis by (simp add: unat_sub)
  qed
  ultimately show ?thesis by simp
qed

lemma read_sizes: "unat (emmc_blks GPT_ALT_READ_SIZE) = 33" "unat (emmc_blks GPT_PRI_READ_SIZE) = 52"
  by (simp_all add: unat_emmc_blks GPT_ALT_READ_SIZE_def GPT_PRI_READ_SIZE_def)

lemmas gpt_sizes = GPT_HEADER_OFFSET_def GPT_TABLE_OFFSET_def GPT_PART_SIZE_def MMC_BLOCK_SIZE_def read_sizes

lemma gpp_loop_total:
  assumes "driver_ok drv"
  shows "table_ok t \<Longrightarrow> buff + 0x4400 \<le> length tbuff \<Longrightarrow>
    \<exists>tbuff' t' s'. gpp_loop drv i n tbuff buff t s = Some (tbuff', t', s') \<and> grows (of_nat ` {4 + i ..< 4 + i + n}) t t'"
proof (induction n arbitrary: i tbuff t s)
  case 0
  then show ?case by (simp add: grows_refl)
next
  case (Suc n)
  have room: "buff + MMC_BLOCK_SIZE * unat (emmc_blks GPT_ALT_READ_SIZE) \<le> length tbuff"
    using Suc.prems(2) by (simp add: gpt_sizes)
  obtain r b s1 where r: "read_flash_from_part drv (of_nat (4 + i)) 0 GPT_ALT_READ_SIZE tbuff buff s = Some (r, b, s1)"
    "length b = length tbuff"
    using read_flash_from_part_total [OF assms room] by blast
  show ?case
  proof (cases "r = 0")
    case False
    then show ?thesis using r grows_refl [OF Suc.prems(1)] by simp
  next
    case True
    obtain ok where ok: "hdr_accepted b (buff + GPT_HEADER_OFFSET) = Some ok"
      using hdr_accepted_total [of "buff + GPT_HEADER_OFFSET" b] r Suc.prems(2) by (auto simp: gpt_sizes)
    obtain t1 where t1: "(if ok then parse_gpt_table (of_nat (4 + i)) b (buff + GPT_HEADER_OFFSET) (buff + GPT_TABLE_OFFSET) t
        else Some t) = Some t1" "grows {of_nat (4 + i)} t t1"
      using parse_gpt_table_spec [OF Suc.prems(1), of "buff + GPT_HEADER_OFFSET" b "buff + GPT_TABLE_OFFSET" "of_nat (4 + i)"]
        r(2) Suc.prems(2) grows_refl [OF Suc.prems(1)] by (cases ok) (auto simp: gpt_sizes)
    have "table_ok t1" using t1(2) by (simp add: grows_def)
    then obtain b' t' s' where l: "gpp_loop drv (Suc i) n b buff t1 s1 = Some (b', t', s')"
      "grows (of_nat ` {4 + Suc i ..< 4 + Suc i + n}) t1 t'"
      using Suc.IH [of t1 b "Suc i" s1] Suc.prems(2) r(2) by auto
    have "{of_nat (4 + i)} \<union> of_nat ` {4 + Suc i ..< 4 + Suc i + n} = (of_nat ` {4 + i ..< 4 + i + Suc n} :: u32 set)"
    proof -
      have "{4 + i ..< 4 + i + Suc n} = insert (4 + i) {4 + Suc i ..< 4 + Suc i + n}" by auto
      then show ?thesis by simp
    qed
    then have "grows (of_nat ` {4 + i ..< 4 + i + Suc n}) t t'" using grows_trans [OF t1(2) l(2)] by simp
    then show ?thesis using r ok t1(1) l True by simp
  qed
qed

text \<open>
  C13: Whatever the flash holds and however its reads and switches fail, loading the partition
  table into a buffer of the required size, aligned or not, stays inside the buffer and inside the
  table of 128 entries.  It keeps the entries that were there and appends entries in use, of the
  user area or of one of the four general purpose partitions; when it reports an error it appends
  nothing.
\<close>

theorem gpt_load_safe:
  assumes "driver_ok drv" and "table_ok t" and "0x6800 + 63 \<le> length tbuff"
  shows "\<exists>r tbuff' t' s' new. get_gpt drv addr tbuff t s = Some (r, tbuff', t', s') \<and> (r = 0 \<or> r = FLASH_OP_ERR) \<and>
    table_ok t' \<and> table_entries t' = table_entries t @ new \<and> (r \<noteq> 0 \<longrightarrow> new = []) \<and>
    (\<forall>x \<in> set new. part x \<in> {0, 4, 5, 6, 7} \<and> ent_type (gpt x) \<noteq> replicate 16 0)"
proof -
  define buff where "buff = unat (get_aligned addr 64 - addr)"
  have buff: "buff \<le> 63" using unat_get_aligned by (simp add: buff_def)
  have room: "buff + MMC_BLOCK_SIZE * unat (emmc_blks GPT_PRI_READ_SIZE) \<le> length tbuff"
    "buff + MMC_BLOCK_SIZE * unat (emmc_blks GPT_ALT_READ_SIZE) \<le> length tbuff"
    using assms(3) buff by (simp_all add: gpt_sizes)
  obtain r1 b1 s1 where r1: "read_flash_from_part drv 0 0 GPT_PRI_READ_SIZE tbuff buff s = Some (r1, b1, s1)" "length b1 = length tbuff"
    using read_flash_from_part_total [OF assms(1) room(1)] by blast
  obtain r2 b2 s2 where r2: "read_flash_from_part drv 0 (get_flash_capacity drv s1 - uint GPT_ALT_READ_SIZE) GPT_ALT_READ_SIZE b1 buff s1 =
      Some (r2, b2, s2)" "length b2 = length b1"
    using read_flash_from_part_total [OF assms(1), where buf = b1 and pos = buff and sz = GPT_ALT_READ_SIZE] room(2)
    unfolding r1(2) by blast
  define q where "q = (if r1 = 0 then (True, buff + GPT_HEADER_OFFSET, buff + GPT_TABLE_OFFSET, b1, s1)
    else (r2 = 0, buff + GPT_PART_SIZE, buff, b2, s2))"
  obtain found hdr ent b3 s3 where q: "q = (found, hdr, ent, b3, s3)" by (cases q)
  have len: "length b3 = length tbuff" "hdr + 84 \<le> length b3" "ent + 128 * 128 \<le> length b3" "buff + 0x4400 \<le> length b3"
    using q r1(2) r2(2) assms(3) buff by (auto simp: q_def gpt_sizes split: if_splits)
  obtain ok where ok: "hdr_accepted b3 hdr = Some ok" using hdr_accepted_total [OF len(2)] by blast
  obtain t1 where t1: "parse_gpt_table 0 b3 hdr ent t = Some t1" "grows {0} t t1"
    using parse_gpt_table_spec [OF assms(2) len(2,3)] by blast
  have "table_ok t1" using t1(2) by (simp add: grows_def)
  then obtain b4 t2 s4 where l: "gpp_loop drv 0 4 b3 buff t1 s3 = Some (b4, t2, s4)" "grows (of_nat ` {4 + 0 ..< 4 + 0 + 4}) t1 t2"
    using gpp_loop_total [OF assms(1) _ len(4)] by blast
  have "grows {0, 4, 5, 6, 7} t t2"
  proof -
    have "{4 + 0 ..< 4 + 0 + 4} = {4, 5, 6, 7 :: nat}" by auto
    then show ?thesis using grows_trans [OF t1(2) l(2)] by (simp add: insert_commute)
  qed
  moreover have "get_gpt drv addr tbuff t s =
    (if \<not> found \<or> \<not> ok then Some (FLASH_OP_ERR, b3, t, s3) else Some (0, b4, t2, s4))"
    using r1 r2 q ok t1(1) l(1) unfolding get_gpt_def Let_def buff_def [symmetric] q_def by (auto split: if_splits)
  ultimately show ?thesis using assms(2) by (auto simp: grows_def FLASH_OP_ERR_def)
qed

definition no_entry :: gpt_ent_part where
  "no_entry = \<lparr>part = 0, gpt = gpt_ent_of (replicate 128 0)\<rparr>"

definition empty_table :: gpt_table_t where
  "empty_table = \<lparr>num = 0, entry = replicate 128 no_entry\<rparr>"

theorem gpt_load_safe_witness:
  "\<exists>r tbuff' t' s' new. get_gpt no_gpp_driver 0x1010 (replicate 26700 0) empty_table g_flash = Some (r, tbuff', t', s') \<and>
    (r = 0 \<or> r = FLASH_OP_ERR) \<and> table_ok t' \<and> table_entries t' = table_entries empty_table @ new \<and> (r \<noteq> 0 \<longrightarrow> new = []) \<and>
    (\<forall>x \<in> set new. part x \<in> {0, 4, 5, 6, 7} \<and> ent_type (gpt x) \<noteq> replicate 16 0)"
  by (rule gpt_load_safe [OF no_gpp_driver_ok]) (simp_all add: table_ok_def empty_table_def MAX_GPT_ENTRY_def)

text \<open>
  A read of a general purpose partition delivers 0x4200 bytes, but its table ends at 0x4400: the
  last four entries are those that an earlier read has left in the buffer.
\<close>

lemma gpp_entries_stale:
  assumes "blit buf buff bs = Some buf'" and "length bs = unat GPT_ALT_READ_SIZE" and "124 \<le> i" and "i < 128"
  shows "take 128 (drop (buff + GPT_TABLE_OFFSET + 128 * i) buf') = take 128 (drop (buff + GPT_TABLE_OFFSET + 128 * i) buf)"
proof -
  have "drop (buff + length bs) buf' = drop (buff + length bs) buf" using assms(1) by (auto simp: blit_Some_iff)
  moreover have "buff + GPT_TABLE_OFFSET + 128 * i = 128 * i - 15872 + (buff + length bs)"
    using assms(2,3) by (simp add: GPT_TABLE_OFFSET_def GPT_ALT_READ_SIZE_def)
  ultimately show ?thesis by (metis drop_drop)
qed

section \<open>Finding a partition by its name\<close>

definition efi_chars :: "u16 list \<Rightarrow> u8 list" where
  "efi_chars name = takeWhile (\<lambda>c. c \<noteq> 0) (map ucast name)"

definition named_entry :: "gpt_table_t \<Rightarrow> u8 list \<Rightarrow> nat option" where
  "named_entry t nm = find (\<lambda>j. efi_chars (ent_name (gpt (entry t ! j))) = take MAX_ENT_NAME nm) [0 ..< num t]"

lemma convert_loop_spec:
  assumes "length name = 36" and "i + n = 36" and "\<forall>j < i. (ucast (name ! j) :: u8) \<noteq> 0"
  shows "convert_loop (map ucast (take i name) @ replicate (72 - i) 0) name i n =
    Some (efi_chars name @ replicate (72 - length (efi_chars name)) 0)"
  using assms(2,3)
proof (induction n arbitrary: i)
  case 0
  then have "efi_chars name = map ucast name" using assms(1) by (simp add: efi_chars_def all_set_conv_all_nth takeWhile_eq_all_conv)
  then show ?case using 0 assms(1) by simp
next
  case (Suc n)
  let ?c = "ucast (name ! i) :: u8"
  let ?str = "map ucast (take i name) @ replicate (72 - i) 0"
  have i: "i < 36" using Suc.prems by simp
  have "72 - i = Suc (71 - i)" using i by simp
  then have r: "replicate (72 - i) (0 :: u8) = 0 # replicate (71 - i) 0" by (simp only: replicate_Suc)
  have u: "?str[i := ?c] = map ucast (take i name) @ ?c # replicate (71 - i) 0"
    using i assms(1) by (simp add: r list_update_append)
  have tk: "map ucast (take (Suc i) name) = map ucast (take i name) @ [?c]" using i assms(1) by (simp add: take_Suc_conv_app_nth)
  have st: "convert_loop ?str name i (Suc n) = (if ?c = 0 then Some (?str[i := ?c]) else convert_loop (?str[i := ?c]) name (Suc i) n)"
    using i assms(1) by simp
  show ?case
  proof (cases "?c = 0")
    case True
    have "map ucast name = map ucast (take i name) @ (?c :: u8) # map ucast (drop (Suc i) name)"
      using i assms(1) by (metis id_take_nth_drop list.simps(9) map_append)
    then have "efi_chars name = map ucast (take i name)"
      using True Suc.prems(2) i assms(1) by (auto simp: efi_chars_def takeWhile_append in_set_conv_nth)
    then show ?thesis unfolding st u using True i assms(1) r by simp
  next
    case False
    have "convert_loop (map ucast (take (Suc i) name) @ replicate (72 - Suc i) 0) name (Suc i) n =
        Some (efi_chars name @ replicate (72 - length (efi_chars name)) 0)"
      by (rule Suc.IH) (use Suc.prems False less_Suc_eq in auto)
    then show ?thesis unfolding st u tk using False by simp
  qed
qed

lemma efi_chars_facts: "length name = 36 \<Longrightarrow> length (efi_chars name) \<le> 36" "0 \<notin> set (efi_chars name)"
  unfolding efi_chars_def by (metis length_map length_takeWhile_le) (auto dest: set_takeWhileD)

lemma gpt_convert_spec:
  assumes "length str = 72" and "length name = 36"
  shows "gpt_convert_efi_name_to_char str name 72 = Some (efi_chars name @ replicate (72 - length (efi_chars name)) 0)"
proof -
  obtain m where m: "fill str 0 0 72 = Some m" "length m = 72" "\<forall>j < 72. m ! j = 0"
    using fill_nth [of 0 72 str 0] assms(1) by auto
  then have "m = replicate 72 0" by (intro nth_equalityI) auto
  then show ?thesis using m(1) convert_loop_spec [OF assms(2), of 0 36] by (simp add: gpt_convert_efi_name_to_char_def memset_def)
qed

lemma cstr_zeros: "0 \<notin> set s \<Longrightarrow> 0 < k \<Longrightarrow> cstr (pre @ s @ replicate k 0) (length pre) s"
proof (induction s arbitrary: pre)
  case Nil
  then show ?case by (simp add: rd_def nth_append)
next
  case (Cons c s)
  then show ?case using Cons.IH [of "pre @ [c]"] by (simp add: rd_def nth_append)
qed

lemma strnlen_loop_cstr: "cstr m p s \<Longrightarrow> strnlen_loop m p n k = Some (k + min n (length s))"
proof (induction n arbitrary: p s k)
  case (Suc n)
  then show ?case by (cases s) auto
qed simp

lemma cstr_take: "cstr m p s \<Longrightarrow> n \<le> length s \<Longrightarrow> take n (drop p m) = take n s"
  using cstr_length [of m p s] cstr_nth [of m p s] by (intro nth_equalityI) simp_all

text \<open>The comparison of one entry's name.\<close>

lemma name_compare:
  assumes "cstr m p nm" and "nm \<noteq> []" and "0 \<notin> set es" and "length es \<le> 36"
    and s: "s = es @ replicate (72 - length es) 0"
  shows "strnlen m (Some p) 36 = Some (min 36 (length nm))" and "strnlen s (Some 0) 36 = Some (length es)"
    and "min 36 (length nm) \<noteq> length es \<Longrightarrow> es \<noteq> take 36 nm"
    and "min 36 (length nm) = length es \<Longrightarrow>
      \<exists>r. memcmp m (Some p) s (Some 0) (min 36 (length nm)) = Some r \<and> (r = 0 \<longleftrightarrow> es = take 36 nm)"
proof -
  show "strnlen m (Some p) 36 = Some (min 36 (length nm))" using strnlen_loop_cstr [OF assms(1), of 36 0] by (simp add: strnlen_def)
  have "cstr s 0 es" using cstr_zeros [OF assms(3), of "72 - length es" "[]"] assms(4) s by simp
  then show "strnlen s (Some 0) 36 = Some (length es)"
    using strnlen_loop_cstr [of s 0 es 36 0] assms(4) by (simp add: strnlen_def min_def)
  show "min 36 (length nm) \<noteq> length es \<Longrightarrow> es \<noteq> take 36 nm" by auto
  assume l: "min 36 (length nm) = length es"
  have "p + min 36 (length nm) \<le> length m" using cstr_length [OF assms(1)] by simp
  moreover have "0 + min 36 (length nm) \<le> length s" using l s assms(4) by simp
  ultimately obtain r where r: "memcmp m (Some p) s (Some 0) (min 36 (length nm)) = Some r"
    "r = 0 \<longleftrightarrow> 0 < min 36 (length nm) \<and> take (min 36 (length nm)) (drop p m) = take (min 36 (length nm)) (drop 0 s)"
    using memcmp_slices by blast
  have "take (min 36 (length nm)) (drop p m) = take 36 nm" using cstr_take [OF assms(1), of "min 36 (length nm)"] by (simp add: min_def)
  moreover have "take (min 36 (length nm)) (drop 0 s) = es" using l s by simp
  ultimately show "\<exists>r. memcmp m (Some p) s (Some 0) (min 36 (length nm)) = Some r \<and> (r = 0 \<longleftrightarrow> es = take 36 nm)"
    using r assms(2) by auto
qed

lemma find_loop_spec:
  assumes "table_ok t" and "cstr m p nm" and "nm \<noteq> []"
  shows "length str = 72 \<Longrightarrow> i + n \<le> num t \<Longrightarrow> find_loop drv t m p i n str s =
    Some (case find (\<lambda>j. efi_chars (ent_name (gpt (entry t ! j))) = take 36 nm) [i ..< i + n] of
        None \<Rightarrow> (PARTITION_NOT_EXIST, s)
      | Some j \<Rightarrow> (int j, snd (switch_flash_part drv (part (entry t ! j)) s)))"
proof (induction n arbitrary: i str)
  case (Suc n)
  let ?es = "efi_chars (ent_name (gpt (entry t ! i)))"
  define s' where "s' = ?es @ replicate (72 - length ?es) 0"
  have t: "i < length (entry t)" "length (ent_name (gpt (entry t ! i))) = 36"
    using assms(1) Suc.prems(2) by (simp_all add: table_ok_def MAX_GPT_ENTRY_def MAX_ENT_NAME_def)
  note es = efi_chars_facts(2) [of "ent_name (gpt (entry t ! i))"] efi_chars_facts(1) [OF t(2)]
  have c: "gpt_convert_efi_name_to_char str (ent_name (gpt (entry t ! i))) 72 = Some s'"
    using gpt_convert_spec [OF Suc.prems(1) t(2)] by (simp add: s'_def)
  note nc = name_compare [OF assms(2,3) es s'_def]
  have ls: "length s' = 72" using es(2) by (simp add: s'_def)
  have u: "[i ..< i + Suc n] = i # [Suc i ..< Suc i + n]" by (simp add: upt_rec)
  have IH: "find_loop drv t m p (Suc i) n s' s =
    Some (case find (\<lambda>j. efi_chars (ent_name (gpt (entry t ! j))) = take 36 nm) [Suc i ..< Suc i + n] of
        None \<Rightarrow> (PARTITION_NOT_EXIST, s)
      | Some j \<Rightarrow> (int j, snd (switch_flash_part drv (part (entry t ! j)) s)))"
    using Suc.IH [OF ls, of "Suc i"] Suc.prems(2) by simp
  show ?case
  proof (cases "min 36 (length nm) = length ?es")
    case False
    then show ?thesis using c nc(1,2) nc(3) [OF False] IH t(1) u by (simp add: MAX_ENT_NAME_def)
  next
    case True
    obtain r where r: "memcmp m (Some p) s' (Some 0) (min 36 (length nm)) = Some r" "r = 0 \<longleftrightarrow> ?es = take 36 nm"
      using nc(4) [OF True] by blast
    then show ?thesis using c nc(1,2) True IH t(1) u by (simp add: MAX_ENT_NAME_def)
  qed
qed simp

lemma find_partition_spec:
  assumes "table_ok t" and "cstr m p nm" and "nm \<noteq> []"
  shows "find_partition drv t m p s =
    Some (case named_entry t nm of
        None \<Rightarrow> (PARTITION_NOT_EXIST, s)
      | Some j \<Rightarrow> (int j, snd (switch_flash_part drv (part (entry t ! j)) s)))"
  using find_loop_spec [OF assms, of "replicate 72 0" 0 "num t"]
  by (simp add: find_partition_def named_entry_def MAX_ENT_NAME_def)

section \<open>Images stay in their partition\<close>

text \<open>Block numbers whose byte addresses are signed 64-bit values.\<close>

definition lbas_ok :: "gpt_ent \<Rightarrow> bool" where
  "lbas_ok g \<longleftrightarrow> ent_lba_start g < 2 ^ 53 \<and> ent_lba_end g < 2 ^ 53"

lemma sint_small: "w < 2 ^ 53 \<Longrightarrow> sint w = uint w" and uint_small: "w < 2 ^ 53 \<Longrightarrow> uint w < 2 ^ 53" for w :: u64
proof -
  assume w: "w < 2 ^ 53"
  then show "uint w < 2 ^ 53" by (simp add: word_less_def)
  then have u: "uint w < 9007199254740992" by simp
  have "- (2 ^ 63) \<le> uint w" by (rule order_trans [of _ 0]) simp_all
  moreover have "uint w < 2 ^ 63" using u by simp
  ultimately show "sint w = uint w" unfolding sint_uint by (intro signed_take_bit_int_eq_self) simp_all
qed

lemma ll_in: "- 512 \<le> x \<Longrightarrow> x < 9223372036854775808 \<Longrightarrow> ll x = Some x"
  by (simp add: ll_def)

lemma image_start_iff:
  assumes "lbas_ok g"
  shows "image_start g off sz =
    Some (if uint off + uint sz \<le> 512 * (uint (ent_lba_end g) + 1 - uint (ent_lba_start g))
          then Some (512 * uint (ent_lba_start g) + uint off) else None)"
proof -
  have l: "sint (ent_lba_start g) = uint (ent_lba_start g)" "sint (ent_lba_end g) = uint (ent_lba_end g)"
    "uint (ent_lba_start g) < 9007199254740992" "uint (ent_lba_end g) < 9007199254740992"
    using assms sint_small [of "ent_lba_start g"] sint_small [of "ent_lba_end g"] uint_small [of "ent_lba_start g"]
      uint_small [of "ent_lba_end g"] by (simp_all add: lbas_ok_def)
  have w: "uint off < 4294967296" "uint sz < 4294967296" "0 \<le> uint off" "0 \<le> uint sz" "0 \<le> uint (ent_lba_start g)" "0 \<le> uint (ent_lba_end g)"
    using uint_lt2p [of off] uint_lt2p [of sz] by simp_all
  have r: "ll (uint (ent_lba_start g) * 512) = Some (uint (ent_lba_start g) * 512)"
    "ll (uint (ent_lba_end g) * 512) = Some (uint (ent_lba_end g) * 512)"
    "ll (uint (ent_lba_start g) * 512 + uint off) = Some (uint (ent_lba_start g) * 512 + uint off)"
    "ll (uint sz + (uint (ent_lba_start g) * 512 + uint off)) = Some (uint sz + (uint (ent_lba_start g) * 512 + uint off))"
    "ll (uint sz + (uint (ent_lba_start g) * 512 + uint off) - 512) = Some (uint sz + (uint (ent_lba_start g) * 512 + uint off) - 512)"
    by (rule ll_in; use l(3,4) w in linarith)+
  show ?thesis unfolding image_start_def l SDIO_BLK_SIZE_def r Option.bind.simps by auto
qed

text \<open>An aligned access of at most the partition's bytes stays within its blocks, rounded up as it is.\<close>

lemma round_up_le:
  fixes k z e b :: int
  assumes "512 * k \<le> z + 511" and "z \<le> 512 * (e + 1 - b)"
  shows "b + k \<le> e + 1"
proof (rule ccontr)
  assume "\<not> b + k \<le> e + 1"
  then have "e + 2 - b \<le> k" by simp
  then have "512 * (e + 2 - b) \<le> 512 * k" by (rule mult_left_mono) simp
  then show False using assms by (simp add: algebra_simps)
qed

lemma blocks_in_partition:
  fixes b e :: u64
  assumes "uint sz \<le> 512 * (uint e + 1 - uint b)"
  shows "uint b + uint (emmc_blks sz) \<le> uint e + 1"
proof -
  have "int (512 * unat (emmc_blks sz)) \<le> int (unat sz + 511)" using emmc_blks_le [of sz] by (simp only: of_nat_le_iff)
  then have "512 * uint (emmc_blks sz) \<le> uint sz + 511" unfolding of_nat_mult of_nat_add of_nat_unat by simp
  then show ?thesis using assms by (rule round_up_le)
qed

text \<open>
  The code does not check the block numbers of the table: with one whose byte address is not a
  signed 64-bit value the arithmetic of the bounds check overflows.
\<close>

lemma image_start_overflows:
  assumes "2 ^ 54 \<le> sint (ent_lba_start g)"
  shows "read_image_from_offset drv g off sz buf pos s = None"
  using assms by (simp add: read_image_from_offset_def image_start_def ll_def SDIO_BLK_SIZE_def)

text \<open>
  C12: Reading an image by the (non-empty) name of its partition looks up the first entry with that
  name.  Without one it reports an error and does not touch the flash.  Otherwise it selects the
  part of the entry.  Let the first and last block number of this entry be below 2^53, which the
  code does not check, and let the buffer have room for the image in whole blocks: an image larger
  than the partition is refused with nothing read, and any other image is read by one request to
  the controller that starts at the first block of the partition and does not reach past its last
  one.
\<close>

theorem image_read_in_partition:
  assumes "driver_ok drv" and "table_ok t" and "\<forall>j. named_entry t nm = Some j \<longrightarrow> lbas_ok (gpt (entry t ! j))"
    and "cstr m p nm" and "nm \<noteq> []" and "pos + MMC_BLOCK_SIZE * unat (emmc_blks sz) \<le> length buf"
  shows "\<exists>r buf' s'. read_image_by_ptname drv t m p sz buf pos s = Some (r, buf', s') \<and>
    (case named_entry t nm of
       None \<Rightarrow> r = -1 \<and> buf' = buf \<and> s' = s
     | Some j \<Rightarrow>
         let g = gpt (entry t ! j); s1 = snd (switch_flash_part drv (part (entry t ! j)) s) in
         if uint sz \<le> 512 * (uint (ent_lba_end g) + 1 - uint (ent_lba_start g))
         then emmc_calls s' = emmc_calls s1 @ [Emmc_Read (512 * ent_lba_start g) (emmc_blks sz)] \<and>
              uint (ent_lba_start g) + uint (emmc_blks sz) \<le> uint (ent_lba_end g) + 1
         else r = -1 \<and> buf' = buf \<and> s' = s1)"
proof (cases "named_entry t nm")
  case None
  then show ?thesis using find_partition_spec [OF assms(2,4,5)] by (simp add: read_image_by_ptname_def PARTITION_NOT_EXIST_def)
next
  case (Some j)
  let ?g = "gpt (entry t ! j)" and ?s = "snd (switch_flash_part drv (part (entry t ! j)) s)"
  have j: "j < num t" "j < length (entry t)"
    using Some assms(2) by (auto simp: named_entry_def find_Some_iff table_ok_def)
  have g: "lbas_ok ?g" using assms(3) Some by blast
  have st: "read_image_by_ptname drv t m p sz buf pos s = read_image_from_offset drv ?g 0 sz buf pos ?s"
    using find_partition_spec [OF assms(2,4,5), of drv s] Some j
    by (simp add: read_image_by_ptname_def fetch_partition_info_def read_image_def)
  show ?thesis
  proof (cases "uint sz \<le> 512 * (uint (ent_lba_end ?g) + 1 - uint (ent_lba_start ?g))")
    case False
    then show ?thesis unfolding st read_image_from_offset_def image_start_iff [OF g] using Some by (simp add: Let_def)
  next
    case True
    let ?start = "512 * uint (ent_lba_start ?g)"
    obtain r buf' s' where "read_emmc drv ?start sz buf pos ?s = Some (r, buf', s')"
      "?start mod 512 = 0 \<longrightarrow> emmc_calls s' = emmc_calls ?s @ [Emmc_Read (word_of_int ?start) (emmc_blks sz)]"
      using read_emmc_total [OF assms(1,6)] by blast
    moreover have "(word_of_int ?start :: u64) = 512 * ent_lba_start ?g" by simp
    ultimately show ?thesis unfolding st read_image_from_offset_def image_start_iff [OF g]
      using Some True blocks_in_partition [OF True] by (simp add: read_flash_def)
  qed
qed

definition boot_entry :: gpt_ent_part where
  "boot_entry = \<lparr>part = 0, gpt = \<lparr>ent_type = replicate 16 1, ent_uuid = replicate 16 2, ent_lba_start = 2048, ent_lba_end = 4095,
     ent_attr = 0, ent_name = [0x62, 0x6f, 0x6f, 0x74] @ replicate 32 0\<rparr>\<rparr>"

definition boot_table :: gpt_table_t where
  "boot_table = \<lparr>num = 1, entry = boot_entry # replicate 127 no_entry\<rparr>"

definition image_buf :: mem where
  "image_buf = replicate 1024 0"

lemma length_image_buf: "length image_buf = 1024"
  unfolding image_buf_def by (rule length_replicate)

lemma blks_700: "unat (emmc_blks 700) = 2"
  unfolding unat_emmc_blks by simp

lemma boot_table_named: "named_entry boot_table [0x62, 0x6f, 0x6f, 0x74] = Some 0"
  by (simp add: named_entry_def boot_table_def boot_entry_def efi_chars_def MAX_ENT_NAME_def)

lemma boot_table_facts:
  "table_ok boot_table"
  "\<forall>j. named_entry boot_table [0x62, 0x6f, 0x6f, 0x74] = Some j \<longrightarrow> lbas_ok (gpt (entry boot_table ! j))"
  "cstr [0x62, 0x6f, 0x6f, 0x74, 0] 0 [0x62, 0x6f, 0x6f, 0x74]"
  "0 + MMC_BLOCK_SIZE * unat (emmc_blks 700) \<le> length image_buf"
  unfolding boot_table_named
  by (simp add: table_ok_def boot_table_def boot_entry_def MAX_GPT_ENTRY_def MAX_ENT_NAME_def)
    (simp add: boot_table_def boot_entry_def lbas_ok_def, simp add: rd_def,
     simp add: length_image_buf MMC_BLOCK_SIZE_def blks_700)

theorem image_read_in_partition_witness:
  "named_entry boot_table [0x62, 0x6f, 0x6f, 0x74] = Some 0 \<and>
   (\<exists>r buf' s'. read_image_by_ptname no_gpp_driver boot_table [0x62, 0x6f, 0x6f, 0x74, 0] 0 700 image_buf 0 g_flash =
      Some (r, buf', s') \<and>
    (case named_entry boot_table [0x62, 0x6f, 0x6f, 0x74] of
       None \<Rightarrow> r = -1 \<and> buf' = image_buf \<and> s' = g_flash
     | Some j \<Rightarrow>
         let g = gpt (entry boot_table ! j); s1 = snd (switch_flash_part no_gpp_driver (part (entry boot_table ! j)) g_flash) in
         if uint (700 :: u32) \<le> 512 * (uint (ent_lba_end g) + 1 - uint (ent_lba_start g))
         then emmc_calls s' = emmc_calls s1 @ [Emmc_Read (512 * ent_lba_start g) (emmc_blks 700)] \<and>
              uint (ent_lba_start g) + uint (emmc_blks 700) \<le> uint (ent_lba_end g) + 1
         else r = -1 \<and> buf' = image_buf \<and> s' = s1))"
  by (rule conjI [OF boot_table_named
    image_read_in_partition [OF no_gpp_driver_ok boot_table_facts(1-3) list.distinct(2) boot_table_facts(4)]])

end
