(* ===== verification/Apb_Timer.thy ===== *)
theory Apb_Timer
  imports Sm_Ir "HOL-Library.Signed_Division"
begin

text \<open>
  The timers of the system manager, \<^verbatim>\<open>src/boot/bootloader/sm_cm3/syna/src/sm_apb_timer.c\<close>: the
  table of timers, the interrupt handler and the clock that all modules read.
\<close>

section \<open>State and registers\<close>

datatype timer_cb = Uptime_Cb | Other_Cb nat

record timer_resource_t =
  is_freerun :: bool
  is_used :: bool
  callback :: "timer_cb option"

text \<open>Register writes, acknowledged interrupts and the callbacks of other modules.\<close>

datatype apb_call =
    Write_Control int u32
  | Write_Loadcount int u32
  | Read_Eoi int
  | Run_Callback nat

record apb_timer =
  uptime_calibrator :: u32
  uptimeLong_calibrator :: u32
  g_sys_timer_id :: int
  g_timer_min_id :: int
  g_timer_max_id :: int
  timer_res :: "timer_resource_t list"
  apb_calls :: "apb_call list"

text \<open>What the registers of a timer hold when they are read.\<close>

record apb_regs =
  currentval :: "int \<Rightarrow> u32"
  intstat :: "int \<Rightarrow> u32"

definition TIMER_ID_MAX :: nat where "TIMER_ID_MAX = 8"
definition TIMER_ID_IDX_START :: int where "TIMER_ID_IDX_START = 1"
definition TIMER_ID_IDX_END :: int where "TIMER_ID_IDX_END = 3"
definition SYS_TIMER_ID :: int where "SYS_TIMER_ID = 1"
definition MAX_TIMER_MS :: u32 where "MAX_TIMER_MS = 0xFFFFFFFF"

text \<open>A product of signed integers; its overflow is undefined.\<close>

definition TIMER_US :: "int \<Rightarrow> u32 option" where
  "TIMER_US x = (let y = x * SM_SYSTEM_HZ in if - (2 ^ 31) \<le> y \<and> y < 2 ^ 31 then Some (word_of_int y) else None)"

definition apb_call :: "apb_call \<Rightarrow> apb_timer \<Rightarrow> apb_timer" where
  "apb_call c s = s\<lparr>apb_calls := apb_calls s @ [c]\<rparr>"

text \<open>\<open>timer_res[timerid - 1]\<close>, and an update of it.\<close>

definition res_at :: "int \<Rightarrow> apb_timer \<Rightarrow> timer_resource_t option" where
  "res_at timerid s = (if 1 \<le> timerid then rd (timer_res s) (nat (timerid - 1)) else None)"

definition res_upd :: "int \<Rightarrow> (timer_resource_t \<Rightarrow> timer_resource_t) \<Rightarrow> apb_timer \<Rightarrow> apb_timer option" where
  "res_upd timerid f s =
     do { r \<leftarrow> res_at timerid s;
          rs \<leftarrow> wr (timer_res s) (nat (timerid - 1)) (f r);
          Some (s\<lparr>timer_res := rs\<rparr>) }"

definition id_ok :: "int \<Rightarrow> apb_timer \<Rightarrow> bool" where
  "id_ok timerid s \<longleftrightarrow> g_timer_min_id s \<le> timerid \<and> timerid \<le> g_timer_max_id s"

section \<open>Control\<close>

text \<open>A bad argument is only reported; the registers are written all the same.\<close>

definition sm_apb_timer_setctrl :: "int \<Rightarrow> u32 \<Rightarrow> u32 \<Rightarrow> u32 \<Rightarrow> apb_timer \<Rightarrow> apb_timer" where
  "sm_apb_timer_setctrl timerid msk mode enable s =
     (let val = push_bit 2 msk OR push_bit 1 mode in
      apb_call (Write_Control timerid (val OR enable)) (apb_call (Write_Control timerid val) s))"

definition sm_apb_timer_setloadcount :: "int \<Rightarrow> u32 \<Rightarrow> apb_timer \<Rightarrow> apb_timer" where
  "sm_apb_timer_setloadcount timerid loadCount s =
     (if \<not> id_ok timerid s then s else apb_call (Write_Loadcount timerid loadCount) s)"

definition sm_apb_timer_stop :: "int \<Rightarrow> apb_timer \<Rightarrow> apb_timer option" where
  "sm_apb_timer_stop timerid s =
     res_upd timerid (\<lambda>r. r\<lparr>is_used := False, is_freerun := False\<rparr>) (sm_apb_timer_setctrl timerid 0 1 0 s)"

fun init_loop :: "int \<Rightarrow> nat \<Rightarrow> apb_timer \<Rightarrow> apb_timer option" where
  "init_loop i 0 s = Some s"
| "init_loop i (Suc n) s =
     do { s \<leftarrow> sm_apb_timer_stop (i + 1) s;
          s \<leftarrow> res_upd (i + 1) (\<lambda>r. r\<lparr>is_freerun := False, is_used := False, callback := None\<rparr>) s;
          init_loop (i + 1) n s }"

definition sm_apb_timer_init :: "int \<Rightarrow> int \<Rightarrow> apb_timer \<Rightarrow> apb_timer option" where
  "sm_apb_timer_init min_id max_id s =
     init_loop (min_id - 1) (nat (max_id - (min_id - 1))) (s\<lparr>g_timer_min_id := min_id, g_timer_max_id := max_id\<rparr>)"

definition sm_apb_set_sys_timer_id :: "int \<Rightarrow> apb_timer \<Rightarrow> apb_timer" where
  "sm_apb_set_sys_timer_id i s = s\<lparr>g_sys_timer_id := i\<rparr>"

definition sm_apb_get_sys_timer_id :: "apb_timer \<Rightarrow> int" where
  "sm_apb_get_sys_timer_id s = g_sys_timer_id s"

definition sm_apb_timer_reserve :: "int \<Rightarrow> apb_timer \<Rightarrow> (int \<times> apb_timer) option" where
  "sm_apb_timer_reserve timerid s =
     (if id_ok timerid s
      then do { r \<leftarrow> res_at timerid s;
                if \<not> is_used r then do { s \<leftarrow> res_upd timerid (\<lambda>r. r\<lparr>is_used := True\<rparr>) s; Some (timerid, s) }
                else Some (-1, s) }
      else Some (-1, s))"

fun request_loop :: "int \<Rightarrow> nat \<Rightarrow> apb_timer \<Rightarrow> int option" where
  "request_loop i 0 s = Some i"
| "request_loop i (Suc n) s = do { r \<leftarrow> res_at (i + 1) s; if \<not> is_used r then Some i else request_loop (i + 1) n s }"

definition sm_apb_timer_request :: "apb_timer \<Rightarrow> int option" where
  "sm_apb_timer_request s =
     do { i \<leftarrow> request_loop 0 (nat (g_timer_max_id s)) s; Some (if i = g_timer_max_id s then -1 else i + 1) }"

definition sm_apb_timer_start :: "int \<Rightarrow> int \<Rightarrow> timer_cb option \<Rightarrow> bool \<Rightarrow> apb_timer \<Rightarrow> (bool \<times> apb_timer) option" where
  "sm_apb_timer_start timerid timeoutus cb freerun s =
     (if \<not> id_ok timerid s \<or> cb = None then Some (False, s)
      else do { r \<leftarrow> res_at timerid s;
                if \<not> is_used r
                then do { let mode = (if freerun then 0 else 1);
                          s \<leftarrow> res_upd timerid (\<lambda>r. r\<lparr>callback := cb, is_freerun := freerun\<rparr>) s;
                          let s = sm_apb_timer_setctrl timerid 0 mode 0 s;
                          loadCount \<leftarrow> (if 0xFFFFFFFF div word_of_int SM_SYSTEM_HZ \<le> (word_of_int timeoutus :: u32)
                                       then Some 0xFFFFFFFF else TIMER_US timeoutus);
                          let s = sm_apb_timer_setloadcount timerid loadCount s;
                          s \<leftarrow> res_upd timerid (\<lambda>r. r\<lparr>is_used := True\<rparr>) s;
                          Some (True, sm_apb_timer_setctrl timerid 0 mode 1 s) }
                else Some (False, s) })"

section \<open>Interrupts\<close>

definition sm_apb_timer_getintstatus :: "apb_regs \<Rightarrow> int \<Rightarrow> apb_timer \<Rightarrow> u32" where
  "sm_apb_timer_getintstatus regs timerid s = (if \<not> id_ok timerid s then - 1 else intstat regs timerid)"

definition sm_apb_timer_clearint :: "int \<Rightarrow> apb_timer \<Rightarrow> apb_timer" where
  "sm_apb_timer_clearint timerid s = (if \<not> id_ok timerid s then s else apb_call (Read_Eoi timerid) s)"

definition sm_apb_timer_isr_timer1 :: "apb_timer \<Rightarrow> apb_timer" where
  "sm_apb_timer_isr_timer1 s =
     (if MAX_TIMER_MS - uptime_calibrator s < word_of_int INT_MS
      then s\<lparr>uptimeLong_calibrator := uptimeLong_calibrator s + 1, uptime_calibrator := 0\<rparr>
      else s\<lparr>uptime_calibrator := uptime_calibrator s + word_of_int INT_MS\<rparr>)"

definition run_callback :: "timer_cb \<Rightarrow> apb_timer \<Rightarrow> apb_timer" where
  "run_callback cb s = (case cb of Uptime_Cb \<Rightarrow> sm_apb_timer_isr_timer1 s | Other_Cb n \<Rightarrow> apb_call (Run_Callback n) s)"

text \<open>The first timer in use whose interrupt is pending is served.\<close>

fun isr_loop :: "apb_regs \<Rightarrow> int \<Rightarrow> nat \<Rightarrow> apb_timer \<Rightarrow> apb_timer option" where
  "isr_loop regs i 0 s = Some s"
| "isr_loop regs i (Suc n) s =
     (if sm_apb_timer_getintstatus regs i s AND 1 \<noteq> 0
      then do { r \<leftarrow> res_at i s;
                if is_used r
                then Some (sm_apb_timer_clearint i (case callback r of Some cb \<Rightarrow> run_callback cb s | None \<Rightarrow> s))
                else isr_loop regs (i + 1) n s }
      else isr_loop regs (i + 1) n s)"

definition sm_apb_timer_isr :: "apb_regs \<Rightarrow> apb_timer \<Rightarrow> apb_timer option" where
  "sm_apb_timer_isr regs s = isr_loop regs (g_timer_min_id s) (nat (g_timer_max_id s + 1 - g_timer_min_id s)) s"

definition apb_timer_init :: "apb_timer \<Rightarrow> apb_timer option" where
  "apb_timer_init s =
     do { s \<leftarrow> sm_apb_timer_init TIMER_ID_IDX_START TIMER_ID_IDX_END s;
          (ok, s) \<leftarrow> sm_apb_timer_start SYS_TIMER_ID (1000 * 1000) (Some Uptime_Cb) False (sm_apb_set_sys_timer_id SYS_TIMER_ID s);
          Some s }"

section \<open>The clock\<close>

text \<open>The ticks since the last reload, computed without sign and returned as a signed value.\<close>

definition sm_apb_timer_readclock :: "apb_regs \<Rightarrow> apb_timer \<Rightarrow> u32" where
  "sm_apb_timer_readclock regs s = word_of_int (SM_SYSTEM_HZ * 1000 * 1000) - currentval regs (g_sys_timer_id s)"

text \<open>The milliseconds of the running period, with a missed overflow made up for.\<close>

definition period_ms :: "apb_regs \<Rightarrow> apb_timer \<Rightarrow> int" where
  "period_ms regs s =
     (let timems = sint (sm_apb_timer_readclock regs s) sdiv (SM_SYSTEM_HZ * 1000) in
      if timems < 1 \<and> intstat regs (g_sys_timer_id s) AND 1 \<noteq> 0 then timems + INT_MS else timems)"

definition sm_apb_timer_gettimems :: "apb_regs \<Rightarrow> apb_timer \<Rightarrow> u32" where
  "sm_apb_timer_gettimems regs s = word_of_int (period_ms regs s) + uptime_calibrator s"

record timer_long_t =
  high :: u32
  low :: u32

text \<open>Null is refused (\<open>S_FALSE\<close>); otherwise the value stored at \<open>ret\<close>.\<close>

definition sm_apb_timer_getlongtimems :: "apb_regs \<Rightarrow> ptr \<Rightarrow> apb_timer \<Rightarrow> timer_long_t option" where
  "sm_apb_timer_getlongtimems regs ret s =
     (if ret = None then None
      else let lo = word_of_int (period_ms regs s); left = MAX_TIMER_MS - lo in
        if uptime_calibrator s < left
        then Some \<lparr>high = uptimeLong_calibrator s, low = lo + uptime_calibrator s\<rparr>
        else Some \<lparr>high = 1 + uptimeLong_calibrator s, low = uptime_calibrator s - left - 1\<rparr>)"

section \<open>The system timer\<close>

text \<open>The timer that \<open>apb_timer_init\<close> has started.\<close>

definition sys_ready :: "apb_timer \<Rightarrow> bool" where
  "sys_ready s \<longleftrightarrow> g_sys_timer_id s = 1 \<and> g_timer_min_id s = 1 \<and> g_timer_max_id s = 3 \<and> length (timer_res s) = TIMER_ID_MAX \<and>
     is_used (timer_res s ! 0) \<and> callback (timer_res s ! 0) = Some Uptime_Cb"

definition sys_pending :: "apb_regs \<Rightarrow> bool" where
  "sys_pending r \<longleftrightarrow> intstat r 1 AND 1 \<noteq> 0"

text \<open>A sequence of interrupts, with the registers at each of them.\<close>

fun timer_run :: "apb_regs list \<Rightarrow> apb_timer \<Rightarrow> apb_timer option" where
  "timer_run [] s = Some s"
| "timer_run (r # rs) s = do { s' \<leftarrow> sm_apb_timer_isr r s; timer_run rs s' }"

lemmas res_simps = res_upd_def res_at_def sm_apb_timer_setctrl_def sm_apb_timer_setloadcount_def apb_call_def id_ok_def Let_def

lemma sm_apb_timer_stop_in:
  "1 \<le> i \<Longrightarrow> i \<le> int (length (timer_res s)) \<Longrightarrow>
    \<exists>s'. sm_apb_timer_stop i s = Some s' \<and> timer_res s' = (timer_res s)[nat (i - 1) := (timer_res s ! nat (i - 1))
      \<lparr>is_used := False, is_freerun := False\<rparr>] \<and> uptime_calibrator s' = uptime_calibrator s \<and>
      uptimeLong_calibrator s' = uptimeLong_calibrator s \<and> g_timer_min_id s' = g_timer_min_id s \<and> g_timer_max_id s' = g_timer_max_id s"
  by (simp add: sm_apb_timer_stop_def res_simps)

lemma cleared_resource:
  "r\<lparr>is_freerun := False, is_used := False, callback := None\<rparr> = \<lparr>is_freerun = False, is_used = False, callback = None\<rparr>"
  for r :: timer_resource_t
  by (cases r) simp

lemma init_loop_in:
  assumes "0 \<le> i" and "i + int n \<le> int (length (timer_res s))"
  shows "\<exists>s'. init_loop i n s = Some s' \<and> length (timer_res s') = length (timer_res s) \<and>
    (\<forall>j < length (timer_res s). timer_res s' ! j =
       (if nat i \<le> j \<and> j < nat i + n then \<lparr>is_freerun = False, is_used = False, callback = None\<rparr> else timer_res s ! j)) \<and>
    uptime_calibrator s' = uptime_calibrator s \<and> uptimeLong_calibrator s' = uptimeLong_calibrator s \<and>
    g_timer_min_id s' = g_timer_min_id s \<and> g_timer_max_id s' = g_timer_max_id s"
  using assms
proof (induction n arbitrary: i s)
  case (Suc n)
  obtain s1 where s1: "sm_apb_timer_stop (i + 1) s = Some s1"
    "timer_res s1 = (timer_res s)[nat i := (timer_res s ! nat i)\<lparr>is_used := False, is_freerun := False\<rparr>]"
    "uptime_calibrator s1 = uptime_calibrator s" "uptimeLong_calibrator s1 = uptimeLong_calibrator s"
    "g_timer_min_id s1 = g_timer_min_id s" "g_timer_max_id s1 = g_timer_max_id s"
    using sm_apb_timer_stop_in [of "i + 1" s] Suc.prems by auto
  define s2 where "s2 = s1\<lparr>timer_res := (timer_res s)[nat i := \<lparr>is_freerun = False, is_used = False, callback = None\<rparr>]\<rparr>"
  have "res_upd (i + 1) (\<lambda>r. r\<lparr>is_freerun := False, is_used := False, callback := None\<rparr>) s1 = Some s2"
    using s1 Suc.prems by (simp add: res_upd_def res_at_def s2_def cleared_resource)
  then have st: "init_loop i (Suc n) s = init_loop (i + 1) n s2" using s1(1) by simp
  have "0 \<le> i + 1" "i + 1 + int n \<le> int (length (timer_res s2))" using Suc.prems by (simp_all add: s2_def)
  from Suc.IH [OF this] obtain s' where "init_loop (i + 1) n s2 = Some s'" "length (timer_res s') = length (timer_res s2)"
    "\<forall>j < length (timer_res s2). timer_res s' ! j =
       (if nat (i + 1) \<le> j \<and> j < nat (i + 1) + n then \<lparr>is_freerun = False, is_used = False, callback = None\<rparr> else timer_res s2 ! j)"
    "uptime_calibrator s' = uptime_calibrator s2" "uptimeLong_calibrator s' = uptimeLong_calibrator s2"
    "g_timer_min_id s' = g_timer_min_id s2" "g_timer_max_id s' = g_timer_max_id s2" by blast
  then show ?case unfolding st using s1(3-6) Suc.prems by (auto simp: s2_def nth_list_update)
qed auto

lemma apb_timer_init_ready:
  assumes "length (timer_res s) = TIMER_ID_MAX"
  shows "\<exists>s'. apb_timer_init s = Some s' \<and> sys_ready s' \<and> uptime_calibrator s' = uptime_calibrator s \<and>
    uptimeLong_calibrator s' = uptimeLong_calibrator s"
proof -
  let ?s = "s\<lparr>g_timer_min_id := 1, g_timer_max_id := 3\<rparr>"
  obtain s1 where s1: "init_loop 0 3 ?s = Some s1" "length (timer_res s1) = 8"
    "timer_res s1 ! 0 = \<lparr>is_freerun = False, is_used = False, callback = None\<rparr>" "uptime_calibrator s1 = uptime_calibrator s"
    "uptimeLong_calibrator s1 = uptimeLong_calibrator s" "g_timer_min_id s1 = 1" "g_timer_max_id s1 = 3"
    using init_loop_in [of 0 3 ?s] assms by (auto simp: TIMER_ID_MAX_def)
  then have "sm_apb_timer_init TIMER_ID_IDX_START TIMER_ID_IDX_END s = Some s1"
    by (simp add: sm_apb_timer_init_def TIMER_ID_IDX_START_def TIMER_ID_IDX_END_def)
  then show ?thesis using s1(2-7)
    by (simp add: apb_timer_init_def sm_apb_timer_start_def SYS_TIMER_ID_def sm_apb_set_sys_timer_id_def res_simps sys_ready_def
        TIMER_ID_MAX_def TIMER_US_def SM_SYSTEM_HZ_def)
qed

lemma isr_uptime:
  assumes "sys_ready s" and "sys_pending r"
  shows "sm_apb_timer_isr r s = Some (sm_apb_timer_clearint 1 (sm_apb_timer_isr_timer1 s))"
    and "sys_ready (sm_apb_timer_clearint 1 (sm_apb_timer_isr_timer1 s))"
proof -
  show "sm_apb_timer_isr r s = Some (sm_apb_timer_clearint 1 (sm_apb_timer_isr_timer1 s))"
    using assms unfolding sm_apb_timer_isr_def sys_ready_def sys_pending_def
    by (simp add: sm_apb_timer_getintstatus_def id_ok_def res_at_def run_callback_def TIMER_ID_MAX_def numeral_3_eq_3)
  show "sys_ready (sm_apb_timer_clearint 1 (sm_apb_timer_isr_timer1 s))"
    using assms(1) by (simp add: sys_ready_def sm_apb_timer_clearint_def sm_apb_timer_isr_timer1_def apb_call_def)
qed

lemma uptime_step:
  assumes "n < 4294967" and "uptime_calibrator s = of_nat (1000 * n)"
  shows "uptime_calibrator (sm_apb_timer_clearint 1 (sm_apb_timer_isr_timer1 s)) = of_nat (1000 * Suc n)"
    and "uptimeLong_calibrator (sm_apb_timer_clearint 1 (sm_apb_timer_isr_timer1 s)) = uptimeLong_calibrator s"
proof -
  have u: "unat (uptime_calibrator s) = 1000 * n" unfolding assms(2) unsigned_of_nat using assms(1) by (simp add: take_bit_nat_eq_self)
  have "unat (MAX_TIMER_MS - uptime_calibrator s) = 4294967295 - 1000 * n"
    using u assms(1) by (subst unat_sub) (simp_all add: MAX_TIMER_MS_def word_le_nat_alt)
  then have "\<not> MAX_TIMER_MS - uptime_calibrator s < 1000" using assms(1) by (simp add: word_less_nat_alt)
  then have "sm_apb_timer_isr_timer1 s = s\<lparr>uptime_calibrator := uptime_calibrator s + 1000\<rparr>"
    by (simp add: sm_apb_timer_isr_timer1_def INT_MS_def)
  then show "uptime_calibrator (sm_apb_timer_clearint 1 (sm_apb_timer_isr_timer1 s)) = of_nat (1000 * Suc n)"
    and "uptimeLong_calibrator (sm_apb_timer_clearint 1 (sm_apb_timer_isr_timer1 s)) = uptimeLong_calibrator s"
    using assms(2) by (simp_all add: sm_apb_timer_clearint_def apb_call_def)
qed

lemma timer_run_uptime:
  assumes "\<forall>r \<in> set rs. sys_pending r"
  shows "sys_ready s \<Longrightarrow> uptime_calibrator s = of_nat (1000 * n) \<Longrightarrow> n + length rs \<le> 4294967 \<Longrightarrow>
    \<exists>s'. timer_run rs s = Some s' \<and> sys_ready s' \<and> uptime_calibrator s' = of_nat (1000 * (n + length rs)) \<and>
      uptimeLong_calibrator s' = uptimeLong_calibrator s"
  using assms
proof (induction rs arbitrary: s n)
  case (Cons r rs)
  let ?s = "sm_apb_timer_clearint 1 (sm_apb_timer_isr_timer1 s)"
  have p: "sys_pending r" "\<forall>r \<in> set rs. sys_pending r" using Cons.prems(4) by simp_all
  have n: "n < 4294967" "Suc n + length rs \<le> 4294967" using Cons.prems(3) by simp_all
  note i = isr_uptime [OF Cons.prems(1) p(1)] and u = uptime_step [OF n(1) Cons.prems(2)]
  show ?case using Cons.IH [OF i(2) u(1) n(2) p(2)] i(1) u(2) by simp
qed simp

lemma readclock_ticks:
  assumes "uint (currentval r (g_sys_timer_id s)) \<le> 25000000"
  shows "uint (sm_apb_timer_readclock r s) = 25000000 - uint (currentval r (g_sys_timer_id s))"
proof -
  have "currentval r (g_sys_timer_id s) \<le> 25000000" using assms by (simp add: word_le_def)
  then show ?thesis by (simp add: sm_apb_timer_readclock_def SM_SYSTEM_HZ_def uint_sub_if' word_le_def)
qed

text \<open>
  The readings of the clock are what the remote-control module relies on: the counter recurs to
  values of its period, from which it counts down.
\<close>

lemma apb_clock_recovers:
  assumes "\<And>n. \<exists>m. uint (currentval (f (n + m)) (g_sys_timer_id s)) \<le> 25000000"
  shows "clock_recovers (\<lambda>n. sm_apb_timer_readclock (f n) s)"
proof -
  have "\<exists>m. uint (sm_apb_timer_readclock (f (n + m)) s) \<le> INT_MS * 1000 * SM_SYSTEM_HZ" for n
  proof -
    obtain m where "uint (currentval (f (n + m)) (g_sys_timer_id s)) \<le> 25000000" using assms by blast
    then show ?thesis by (intro exI [of _ m]) (simp add: readclock_ticks INT_MS_def SM_SYSTEM_HZ_def)
  qed
  then show ?thesis by (simp add: clock_recovers_def)
qed

lemma period_ms_ticks:
  assumes "uint (currentval r (g_sys_timer_id s)) \<le> 25000000"
  shows "period_ms r s =
    (let ms = (25000000 - uint (currentval r (g_sys_timer_id s))) div 25000 in
     if ms = 0 \<and> intstat r (g_sys_timer_id s) AND 1 \<noteq> 0 then 1000 else ms)"
proof -
  define t where "t = 25000000 - uint (currentval r (g_sys_timer_id s))"
  have t: "0 \<le> t" "t \<le> 25000000" using assms by (simp_all add: t_def)
  have u: "uint (sm_apb_timer_readclock r s) = t" using readclock_ticks [OF assms] by (simp add: t_def)
  then have "sint (sm_apb_timer_readclock r s) = t"
    using t unfolding sint_uint u by (intro signed_take_bit_int_eq_self) simp_all
  moreover have sd: "t sdiv 25000 = t div 25000" using t by (cases "t = 0") (simp_all add: signed_divide_int_def sgn_if)
  ultimately have "period_ms r s = (if t div 25000 < 1 \<and> intstat r (g_sys_timer_id s) AND 1 \<noteq> 0 then t div 25000 + 1000 else t div 25000)"
    using sd by (simp add: period_ms_def SM_SYSTEM_HZ_def INT_MS_def Let_def)
  moreover have "t div 25000 < 1 \<longleftrightarrow> t div 25000 = 0" using t by (auto simp: div_int_pos_iff intro: antisym)
  ultimately show ?thesis unfolding t_def [symmetric] Let_def by auto
qed

text \<open>
  C23: From the start of the timer module and for every number of timer interrupts up to 4294966 (49
  days), the millisecond clock reads the time that has passed: 1000 for each interrupt plus the
  milliseconds of the running period, and 1000 more in the first millisecond of a period whose
  interrupt is still pending.
\<close>

theorem apb_clock_exact:
  assumes "length (timer_res s0) = TIMER_ID_MAX" and "uptime_calibrator s0 = 0" and "\<forall>r \<in> set rs. sys_pending r"
    and "length rs \<le> 4294966" and "uint (currentval r 1) \<le> 25000000"
  shows "\<exists>s1 s. apb_timer_init s0 = Some s1 \<and> timer_run rs s1 = Some s \<and>
    uint (sm_apb_timer_gettimems r s) =
      (let ms = (25000000 - uint (currentval r 1)) div 25000 in
       1000 * int (length rs) + (if ms = 0 \<and> sys_pending r then 1000 else ms))"
proof -
  obtain s1 where s1: "apb_timer_init s0 = Some s1" "sys_ready s1" "uptime_calibrator s1 = of_nat (1000 * 0)"
    using apb_timer_init_ready [OF assms(1)] assms(2) by auto
  obtain s where s: "timer_run rs s1 = Some s" "sys_ready s" "uptime_calibrator s = of_nat (1000 * (0 + length rs))"
    using timer_run_uptime [OF assms(3) s1(2,3)] assms(4) by auto
  define ms where "ms = (25000000 - uint (currentval r 1)) div 25000"
  define q where "q = (if ms = 0 \<and> sys_pending r then 1000 else ms)"
  have id: "g_sys_timer_id s = 1" using s(2) by (simp add: sys_ready_def)
  have ms: "0 \<le> ms" "ms \<le> 1000"
    using assms(5) by (simp add: ms_def pos_imp_zdiv_nonneg_iff) (use zdiv_mono1 [of "25000000 - uint (currentval r 1)" 25000000 25000] in \<open>simp add: ms_def\<close>)
  then have q: "0 \<le> q" "q \<le> 1000" by (simp_all add: q_def)
  have "period_ms r s = q" using period_ms_ticks [of r s] assms(5) unfolding id Let_def ms_def [symmetric] q_def sys_pending_def by simp
  then have "sm_apb_timer_gettimems r s = word_of_int (q + 1000 * int (length rs))" using s(3) by (simp add: sm_apb_timer_gettimems_def)
  moreover have "uint (word_of_int (q + 1000 * int (length rs)) :: u32) = q + 1000 * int (length rs)"
    unfolding uint_word_of_int using q assms(4) by (simp add: take_bit_int_eq_self)
  ultimately show ?thesis using s1(1) s(1) by (simp add: Let_def ms_def [symmetric] q_def [symmetric])
qed

definition cold_timer :: apb_timer where
  "cold_timer = \<lparr>uptime_calibrator = 0, uptimeLong_calibrator = 0, g_sys_timer_id = 0, g_timer_min_id = 0, g_timer_max_id = 0,
     timer_res = replicate 8 \<lparr>is_freerun = False, is_used = False, callback = None\<rparr>, apb_calls = []\<rparr>"

definition tick_regs :: "u32 \<Rightarrow> u32 \<Rightarrow> apb_regs" where
  "tick_regs v p = \<lparr>currentval = \<lambda>_. v, intstat = \<lambda>_. p\<rparr>"

theorem apb_clock_exact_witness:
  "\<exists>s1 s. apb_timer_init cold_timer = Some s1 \<and> timer_run [tick_regs 25000000 1, tick_regs 24999000 1] s1 = Some s \<and>
    uint (sm_apb_timer_gettimems (tick_regs 12500000 0) s) =
      (let ms = (25000000 - uint (currentval (tick_regs 12500000 0) 1)) div 25000 in
       1000 * int (length [tick_regs 25000000 1, tick_regs 24999000 1]) +
       (if ms = 0 \<and> sys_pending (tick_regs 12500000 0) then 1000 else ms))"
  by (rule apb_clock_exact) (simp_all add: cold_timer_def tick_regs_def sys_pending_def TIMER_ID_MAX_def)

text \<open>
  C24: After 4294967 timer interrupts the long clock steps back by 703 ms.  At the end of the running
  period it reads 703 ms past the overflow of its low word; the interrupt that follows sets the low
  word to zero instead of carrying the rest over, and the next reading is 0 ms past the overflow.
\<close>

theorem long_clock_steps_back:
  assumes "length (timer_res s0) = TIMER_ID_MAX" and "uptime_calibrator s0 = 0" and "\<forall>r \<in> set rs. sys_pending r"
    and "length rs = 4294967" and "sys_pending r"
  shows "\<exists>s1 s s'. apb_timer_init s0 = Some s1 \<and> timer_run rs s1 = Some s \<and> sm_apb_timer_isr r s = Some s' \<and>
    sm_apb_timer_getlongtimems (tick_regs 25000 0) (Some 0) s = Some \<lparr>high = uptimeLong_calibrator s0 + 1, low = 703\<rparr> \<and>
    sm_apb_timer_getlongtimems (tick_regs 25000000 0) (Some 0) s' = Some \<lparr>high = uptimeLong_calibrator s0 + 1, low = 0\<rparr>"
proof -
  obtain s1 where s1: "apb_timer_init s0 = Some s1" "sys_ready s1" "uptime_calibrator s1 = of_nat (1000 * 0)"
    "uptimeLong_calibrator s1 = uptimeLong_calibrator s0"
    using apb_timer_init_ready [OF assms(1)] assms(2) by auto
  obtain s where s: "timer_run rs s1 = Some s" "sys_ready s" "uptime_calibrator s = 4294967000"
    "uptimeLong_calibrator s = uptimeLong_calibrator s0"
    using timer_run_uptime [OF assms(3) s1(2,3)] assms(4) s1(4) by auto
  note i = isr_uptime [OF s(2) assms(5)]
  let ?s' = "sm_apb_timer_clearint 1 (sm_apb_timer_isr_timer1 s)"
  have s': "uptime_calibrator ?s' = 0" "uptimeLong_calibrator ?s' = uptimeLong_calibrator s0 + 1"
    using s(3,4) by (simp_all add: sm_apb_timer_clearint_def apb_call_def sm_apb_timer_isr_timer1_def MAX_TIMER_MS_def INT_MS_def)
  have "period_ms (tick_regs 25000 0) s = 999" "period_ms (tick_regs 25000000 0) ?s' = 0"
    by (subst period_ms_ticks; simp add: tick_regs_def)+
  then show ?thesis using s1(1) s i(1) s' by (simp add: sm_apb_timer_getlongtimems_def Let_def MAX_TIMER_MS_def
      add.commute [of 1 "uptimeLong_calibrator s0"])
qed

theorem long_clock_steps_back_witness:
  "\<exists>s1 s s'. apb_timer_init cold_timer = Some s1 \<and> timer_run (replicate 4294967 (tick_regs 25000000 1)) s1 = Some s \<and>
    sm_apb_timer_isr (tick_regs 25000000 1) s = Some s' \<and>
    sm_apb_timer_getlongtimems (tick_regs 25000 0) (Some 0) s = Some \<lparr>high = uptimeLong_calibrator cold_timer + 1, low = 703\<rparr> \<and>
    sm_apb_timer_getlongtimems (tick_regs 25000000 0) (Some 0) s' = Some \<lparr>high = uptimeLong_calibrator cold_timer + 1, low = 0\<rparr>"
proof (rule long_clock_steps_back)
  show "\<forall>r \<in> set (replicate 4294967 (tick_regs 25000000 1)). sys_pending r"
    by (rule ballI) (auto dest!: in_set_replicate [THEN iffD1] simp: tick_regs_def sys_pending_def)
  show "length (replicate 4294967 (tick_regs 25000000 1)) = 4294967" by (rule length_replicate)
qed (simp_all add: cold_timer_def tick_regs_def sys_pending_def TIMER_ID_MAX_def)

end
