(* ===== verification/Backed_Block.thy ===== *)
theory Backed_Block
  imports Boot_Prelude "HOL-Library.Multiset"
begin

text \<open>
  The list of blocks to be written to a sparse image,
  \<^verbatim>\<open>src/boot/u-boot_2019_10/arch/arm/mach-synaptics/drivers/ext4/libsparse/backed_block.c\<close>: a linked list
  in a store of nodes, kept in block order, with a pointer to the node that was queued last.  The
  assertion of \<open>merge_bb\<close> is active only in a build with \<open>_DEBUG\<close>, the argument \<open>dbg\<close>.
\<close>

section \<open>Nodes and lists\<close>

datatype backed_content =
    BACKED_BLOCK_DATA ptr int
  | BACKED_BLOCK_FILE string int
  | BACKED_BLOCK_FD int int
  | BACKED_BLOCK_FILL u32

record backed_block =
  bb_block :: u32
  bb_len :: u32
  bb_content :: backed_content
  bb_next :: ptr

text \<open>The list with the store its nodes live in; \<open>freed\<close> are the data buffers given back.\<close>

record backed_block_list =
  data_blocks :: ptr
  last_used :: ptr
  bbl_block_size :: u32
  nodes :: "nat \<rightharpoonup> backed_block"
  freed :: "ptr list"

definition EINVAL :: int where "EINVAL = 22"
definition ENOMEM :: int where "ENOMEM = 12"
definition BB_DATA_MALLOC :: int where "BB_DATA_MALLOC = 1"

definition node :: "ptr \<Rightarrow> backed_block_list \<Rightarrow> backed_block option" where
  "node p s = (case p of None \<Rightarrow> None | Some a \<Rightarrow> nodes s a)"

definition upd_node :: "nat \<Rightarrow> (backed_block \<Rightarrow> backed_block) \<Rightarrow> backed_block_list \<Rightarrow> backed_block_list option" where
  "upd_node a f s = do { n \<leftarrow> nodes s a; Some (s\<lparr>nodes := (nodes s)(a \<mapsto> f n)\<rparr>) }"

definition backed_block_iter_new :: "backed_block_list \<Rightarrow> ptr" where
  "backed_block_iter_new s = data_blocks s"

definition backed_block_iter_next :: "ptr \<Rightarrow> backed_block_list \<Rightarrow> ptr option" where
  "backed_block_iter_next bb s = map_option bb_next (node bb s)"

definition backed_block_destroy :: "nat \<Rightarrow> backed_block_list \<Rightarrow> backed_block_list option" where
  "backed_block_destroy bb s =
     do { n \<leftarrow> nodes s bb;
          let s1 = (case bb_content n of
                      BACKED_BLOCK_DATA d flag \<Rightarrow> if flag AND BB_DATA_MALLOC \<noteq> 0 then s\<lparr>freed := freed s @ [d]\<rparr> else s
                    | _ \<Rightarrow> s);
          Some (s1\<lparr>nodes := (nodes s1)(bb := None)\<rparr>) }"

text \<open>The list object that the allocator returns, if any, is used without a check.\<close>

definition backed_block_list_new :: "ptr \<Rightarrow> u32 \<Rightarrow> backed_block_list option" where
  "backed_block_list_new mem bs =
     do { b \<leftarrow> mem; Some \<lparr>data_blocks = None, last_used = None, bbl_block_size = bs, nodes = Map.empty, freed = []\<rparr> }"

partial_function (option) destroy_loop :: "ptr \<Rightarrow> backed_block_list \<Rightarrow> backed_block_list option" where
  "destroy_loop p s =
     (case p of None \<Rightarrow> Some s
      | Some bb \<Rightarrow> do { n \<leftarrow> nodes s bb; s1 \<leftarrow> backed_block_destroy bb s; destroy_loop (bb_next n) s1 })"

definition backed_block_list_destroy :: "backed_block_list \<Rightarrow> backed_block_list option" where
  "backed_block_list_destroy s = destroy_loop (data_blocks s) s"

section \<open>Merging and queueing\<close>

text \<open>The same kind of content, and content of \<open>b\<close> that continues that of \<open>a\<close>; data is never merged.\<close>

definition same_type :: "backed_content \<Rightarrow> backed_content \<Rightarrow> bool" where
  "same_type a b =
     (case (a, b) of (BACKED_BLOCK_DATA _ _, BACKED_BLOCK_DATA _ _) \<Rightarrow> True
      | (BACKED_BLOCK_FILE _ _, BACKED_BLOCK_FILE _ _) \<Rightarrow> True
      | (BACKED_BLOCK_FD _ _, BACKED_BLOCK_FD _ _) \<Rightarrow> True
      | (BACKED_BLOCK_FILL _, BACKED_BLOCK_FILL _) \<Rightarrow> True
      | _ \<Rightarrow> False)"

definition continues :: "backed_block \<Rightarrow> backed_block \<Rightarrow> bool" where
  "continues a b =
     (case (bb_content a, bb_content b) of
        (BACKED_BLOCK_FILL v, BACKED_BLOCK_FILL w) \<Rightarrow> v = w
      | (BACKED_BLOCK_FILE f off, BACKED_BLOCK_FILE g off') \<Rightarrow> f = g \<and> off + uint (bb_len a) = off'
      | (BACKED_BLOCK_FD f off, BACKED_BLOCK_FD g off') \<Rightarrow> f = g \<and> off + uint (bb_len a) = off'
      | _ \<Rightarrow> False)"

definition merge_bb :: "bool \<Rightarrow> ptr \<Rightarrow> ptr \<Rightarrow> backed_block_list \<Rightarrow> (int \<times> backed_block_list) option" where
  "merge_bb dbg pa pb s =
     (case (pa, pb) of
        (Some a, Some b) \<Rightarrow>
          do { na \<leftarrow> nodes s a; nb \<leftarrow> nodes s b;
               c_assert dbg (bb_block na < bb_block nb);
               if \<not> same_type (bb_content na) (bb_content nb) then Some (- EINVAL, s)
               else if bbl_block_size s = 0 then None
               else if bb_block na + bb_len na div bbl_block_size s \<noteq> bb_block nb then Some (- EINVAL, s)
               else if \<not> continues na nb then Some (- EINVAL, s)
               else do { s1 \<leftarrow> upd_node a (\<lambda>n. n\<lparr>bb_len := bb_len n + bb_len nb, bb_next := bb_next nb\<rparr>) s;
                         s2 \<leftarrow> backed_block_destroy b s1;
                         Some (0, s2) } }
      | _ \<Rightarrow> Some (- EINVAL, s))"

text \<open>\<open>for (; bb->next && bb->next->block < new_bb->block; bb = bb->next);\<close>\<close>

partial_function (option) walk :: "(nat \<rightharpoonup> backed_block) \<Rightarrow> u32 \<Rightarrow> nat \<Rightarrow> nat option" where
  "walk h key bb =
     do { n \<leftarrow> h bb;
          case bb_next n of None \<Rightarrow> Some bb
          | Some q \<Rightarrow> do { m \<leftarrow> h q; if bb_block m < key then walk h key q else Some bb } }"

definition queue_bb :: "bool \<Rightarrow> nat \<Rightarrow> backed_block_list \<Rightarrow> (int \<times> backed_block_list) option" where
  "queue_bb dbg new_bb s =
     (case data_blocks s of
        None \<Rightarrow> Some (0, s\<lparr>data_blocks := Some new_bb\<rparr>)
      | Some hd_bb \<Rightarrow>
          do { h \<leftarrow> nodes s hd_bb;
               n \<leftarrow> nodes s new_bb;
               if bb_block n < bb_block h
               then do { s1 \<leftarrow> upd_node new_bb (\<lambda>n. n\<lparr>bb_next := Some hd_bb\<rparr>) s;
                         Some (0, s1\<lparr>data_blocks := Some new_bb\<rparr>) }
               else do { start \<leftarrow> (case last_used s of None \<Rightarrow> Some hd_bb
                           | Some l \<Rightarrow> do { m \<leftarrow> nodes s l; Some (if bb_block m < bb_block n then l else hd_bb) });
                         let s = s\<lparr>last_used := Some new_bb\<rparr>;
                         bb \<leftarrow> walk (nodes s) (bb_block n) start;
                         b \<leftarrow> nodes s bb;
                         s \<leftarrow> (if bb_next b = None then Some s else upd_node new_bb (\<lambda>n. n\<lparr>bb_next := bb_next b\<rparr>) s);
                         s \<leftarrow> upd_node bb (\<lambda>n. n\<lparr>bb_next := Some new_bb\<rparr>) s;
                         n \<leftarrow> nodes s new_bb;
                         (_, s) \<leftarrow> merge_bb dbg (Some new_bb) (bb_next n) s;
                         (r, s) \<leftarrow> merge_bb dbg (Some bb) (Some new_bb) s;
                         Some (0, if r = 0 then s\<lparr>last_used := Some bb\<rparr> else s) } })"

text \<open>\<open>mem\<close> is the node that the allocator returns, if any.\<close>

definition backed_block_add_data ::
    "bool \<Rightarrow> ptr \<Rightarrow> ptr \<Rightarrow> int \<Rightarrow> u32 \<Rightarrow> u32 \<Rightarrow> backed_block_list \<Rightarrow> (int \<times> backed_block_list) option" where
  "backed_block_add_data dbg mem d flag len block s =
     (case mem of None \<Rightarrow> Some (- ENOMEM, s)
      | Some bb \<Rightarrow> queue_bb dbg bb (s\<lparr>nodes := (nodes s)
          (bb \<mapsto> \<lparr>bb_block = block, bb_len = len, bb_content = BACKED_BLOCK_DATA d flag, bb_next = None\<rparr>)\<rparr>))"

section \<open>The list in the store\<close>

fun bb_list :: "(nat \<rightharpoonup> backed_block) \<Rightarrow> ptr \<Rightarrow> nat list \<Rightarrow> bool" where
  "bb_list h p [] \<longleftrightarrow> p = None"
| "bb_list h p (a # as) \<longleftrightarrow> p = Some a \<and> (case h a of None \<Rightarrow> False | Some n \<Rightarrow> bb_list h (bb_next n) as)"

lemma bb_list_cong: "(\<And>a. a \<in> set as \<Longrightarrow> h' a = h a) \<Longrightarrow> bb_list h' p as = bb_list h p as"
  by (induction as arbitrary: p) (auto split: option.split)

lemma bb_list_dom: "bb_list h p as \<Longrightarrow> a \<in> set as \<Longrightarrow> \<exists>n. h a = Some n"
  by (induction as arbitrary: p) (auto split: option.splits)

lemma bb_list_tail: "bb_list h p (us @ b # vs) \<Longrightarrow> h b = Some nb \<Longrightarrow> bb_list h (bb_next nb) vs"
  by (induction us arbitrary: p) (auto split: option.splits)

lemma bb_list_suffix:
  assumes "bb_list h p (us @ b # vs)"
  shows "bb_list h (Some b) (b # vs)"
proof -
  obtain n where "h b = Some n" using bb_list_dom [OF assms, of b] by auto
  then show ?thesis using bb_list_tail [OF assms] by simp
qed

lemma bb_list_insert:
  assumes "bb_list h p (us @ b # vs)" and "distinct (us @ b # vs)" and "x \<notin> set (us @ b # vs)" and "h b = Some nb"
  shows "bb_list (h(x \<mapsto> nx\<lparr>bb_next := bb_next nb\<rparr>, b \<mapsto> nb\<lparr>bb_next := Some x\<rparr>)) p (us @ b # x # vs)"
  using assms
proof (induction us arbitrary: p)
  case Nil
  let ?h = "h(x \<mapsto> nx\<lparr>bb_next := bb_next nb\<rparr>, b \<mapsto> nb\<lparr>bb_next := Some x\<rparr>)"
  have "bb_list ?h (bb_next nb) vs = bb_list h (bb_next nb) vs" by (rule bb_list_cong) (use Nil in auto)
  then have "bb_list ?h (bb_next nb) vs" using Nil by simp
  moreover have "?h b = Some (nb\<lparr>bb_next := Some x\<rparr>)" "?h x = Some (nx\<lparr>bb_next := bb_next nb\<rparr>)" "p = Some b" using Nil by auto
  ultimately show ?case by (simp del: fun_upd_apply)
qed (auto split: option.splits)

lemma walk_list:
  "bb_list h (Some a) (a # as) \<Longrightarrow>
    walk h key a = Some (last (a # takeWhile (\<lambda>x. bb_block (the (h x)) < key) as))"
proof (induction as arbitrary: a)
  case Nil
  then show ?case by (subst walk.simps) (auto split: option.splits)
next
  case (Cons b as)
  then show ?case by (subst walk.simps) (auto split: option.splits)
qed

section \<open>Queueing is ordered insertion\<close>

type_synonym bb_view = "u32 \<times> u32 \<times> backed_content"

definition view :: "(nat \<rightharpoonup> backed_block) \<Rightarrow> nat \<Rightarrow> bb_view" where
  "view h a = (let n = the (h a) in (bb_block n, bb_len n, bb_content n))"

text \<open>The reference: behind the first block, before the first of the others that is not smaller.\<close>

fun insert_before :: "bb_view \<Rightarrow> bb_view list \<Rightarrow> bb_view list" where
  "insert_before x [] = [x]"
| "insert_before x (y # ys) = (if fst y < fst x then y # insert_before x ys else x # y # ys)"

fun insert_block :: "bb_view \<Rightarrow> bb_view list \<Rightarrow> bb_view list" where
  "insert_block x [] = [x]"
| "insert_block x (y # ys) = (if fst x < fst y then x # y # ys else y # insert_before x ys)"

definition bbl_ok :: "backed_block_list \<Rightarrow> nat list \<Rightarrow> bool" where
  "bbl_ok s as \<longleftrightarrow> bb_list (nodes s) (data_blocks s) as \<and> distinct as \<and> bbl_block_size s \<noteq> 0 \<and>
     sorted_wrt (\<lambda>x y. fst x \<le> fst y) (map (view (nodes s)) as) \<and>
     (\<forall>a \<in> set as. \<exists>d f. snd (snd (view (nodes s) a)) = BACKED_BLOCK_DATA d f) \<and>
     (case last_used s of None \<Rightarrow> True | Some l \<Rightarrow> l \<in> set as)"

lemma insert_before_split:
  "insert_before x ys = takeWhile (\<lambda>y. fst y < fst x) ys @ x # dropWhile (\<lambda>y. fst y < fst x) ys"
  by (induction ys) auto

lemma set_insert_block: "set (insert_block x ys) = insert x (set ys)"
proof (cases ys)
  case (Cons y zs)
  have "set (takeWhile P zs) \<union> set (dropWhile P zs) = set zs" for P :: "bb_view \<Rightarrow> bool"
    by (metis set_append takeWhile_dropWhile_id)
  then show ?thesis using Cons by (auto simp: insert_before_split)
qed simp

lemma sorted_insert_block:
  assumes "sorted_wrt (\<lambda>x y. fst x \<le> fst y) ys"
  shows "sorted_wrt (\<lambda>x y. fst x \<le> fst y) (insert_block x ys)"
proof -
  have b: "sorted_wrt (\<lambda>x y. fst x \<le> fst y) (insert_before x zs) \<and> set (insert_before x zs) = insert x (set zs)"
    if "sorted_wrt (\<lambda>x y. fst x \<le> fst y) zs" for zs
    using that by (induction zs) (auto simp: not_less dest: less_imp_le intro: order_trans)
  show ?thesis
  proof (cases ys)
    case (Cons y zs)
    then show ?thesis using assms b [of zs] by (auto simp: not_less intro: order_trans less_imp_le)
  qed simp
qed

text \<open>A search from a later node, when the node is before the key, ends where the search from the head does.\<close>

lemma walk_from_last:
  assumes "bb_list h p (us @ l # vs)" and "sorted_wrt (\<lambda>x y. bb_block (the (h x)) \<le> bb_block (the (h y))) (us @ l # vs)"
    and "bb_block (the (h l)) < key"
  shows "walk h key l = walk h key (hd (us @ [l]))"
proof (cases us)
  case (Cons u us')
  let ?P = "\<lambda>x. bb_block (the (h x)) < key"
  have a: "x \<in> set (us' @ [l]) \<Longrightarrow> ?P x" for x using assms(2,3) Cons by (auto simp: sorted_wrt_append)
  have "walk h key l = Some (last (l # takeWhile ?P vs))" using walk_list [OF bb_list_suffix [OF assms(1)]] .
  moreover have "bb_list h (Some u) (u # us' @ l # vs)" using assms(1) Cons bb_list_suffix [of h p "[]" u "us' @ l # vs"] by simp
  then have "walk h key u = Some (last (u # takeWhile ?P (us' @ l # vs)))" by (rule walk_list)
  moreover have "takeWhile ?P (us' @ l # vs) = us' @ l # takeWhile ?P vs" using a by (simp add: takeWhile_append)
  ultimately show ?thesis using Cons by simp
qed simp

lemma merge_data:
  assumes "nodes s a = Some na" and "bb_content na = BACKED_BLOCK_DATA d f" and "bbl_block_size s \<noteq> 0"
    and "pb = None \<or> (\<exists>b nb. pb = Some b \<and> nodes s b = Some nb \<and> (dbg \<longrightarrow> bb_block na < bb_block nb))"
  shows "merge_bb dbg (Some a) pb s = Some (- EINVAL, s)"
  using assms by (auto simp: merge_bb_def same_type_def continues_def split: backed_content.split)

lemma view_upd: "a \<noteq> x \<Longrightarrow> view (h(x := v)) a = view h a" "h a = Some n \<Longrightarrow> view (h(a \<mapsto> n\<lparr>bb_next := q\<rparr>)) = view h"
  by (auto simp: view_def fun_eq_iff)

lemma map_view_fresh: "x \<notin> set as \<Longrightarrow> map (view (h(x := v))) as = map (view h) as"
  by (auto intro!: view_upd(1))

text \<open>The search of \<open>queue_bb\<close>, from the node queued last or from the head, splits the list.\<close>

lemma walk_split:
  assumes "bb_list h (Some c) (c # cs)" and "sorted_wrt (\<lambda>x y. fst x \<le> fst y) (map (view h) (c # cs))"
    and "l = c \<or> (l \<in> set (c # cs) \<and> bb_block (the (h l)) < key)"
  shows "\<exists>us b. walk h key l = Some b \<and> c # takeWhile (\<lambda>y. bb_block (the (h y)) < key) cs = us @ [b]"
proof -
  let ?P = "\<lambda>y. bb_block (the (h y)) < key"
  have so: "sorted_wrt (\<lambda>x y. bb_block (the (h x)) \<le> bb_block (the (h y))) (c # cs)"
    using assms(2) by (simp add: sorted_wrt_map view_def Let_def)
  have "walk h key l = walk h key c"
  proof (cases "l = c")
    case False
    then obtain us vs where l: "c # cs = us @ l # vs" using assms(3) split_list [of l "c # cs"] by blast
    then have "hd (us @ [l]) = c" by (cases us) auto
    then show ?thesis using walk_from_last [of h "Some c" us l vs key] assms(1,3) so l False by simp
  qed simp
  also have "\<dots> = Some (last (c # takeWhile ?P cs))" by (rule walk_list [OF assms(1)])
  finally show ?thesis by (metis append_butlast_last_id list.distinct(1))
qed

lemma insert_block_behind:
  assumes "\<not> key < bb_block (the (h c))" and "c # takeWhile (\<lambda>y. bb_block (the (h y)) < key) cs = us @ [b]" and "fst x = key"
  shows "c # cs = us @ b # dropWhile (\<lambda>y. bb_block (the (h y)) < key) cs"
    and "insert_block x (map (view h) (c # cs)) =
      map (view h) (us @ [b]) @ x # map (view h) (dropWhile (\<lambda>y. bb_block (the (h y)) < key) cs)"
proof -
  let ?P = "\<lambda>y. bb_block (the (h y)) < key"
  have "c # cs = (c # takeWhile ?P cs) @ dropWhile ?P cs" by simp
  then show "c # cs = us @ b # dropWhile ?P cs" unfolding assms(2) by simp
  have "insert_block x (map (view h) (c # cs)) = map (view h) (c # takeWhile ?P cs) @ x # map (view h) (dropWhile ?P cs)"
    using assms(1,3) by (simp add: insert_before_split takeWhile_map dropWhile_map view_def Let_def comp_def)
  then show "insert_block x (map (view h) (c # cs)) = map (view h) (us @ [b]) @ x # map (view h) (dropWhile ?P cs)"
    unfolding assms(2) .
qed

lemma queue_bb_behind:
  assumes ok: "bb_list (nodes s) (data_blocks s) (c # cs)" "distinct (c # cs)" "bbl_block_size s \<noteq> 0"
      "sorted_wrt (\<lambda>x y. fst x \<le> fst y) (map (view (nodes s)) (c # cs))"
      "\<forall>a \<in> set (c # cs). \<exists>d f. snd (snd (view (nodes s) a)) = BACKED_BLOCK_DATA d f"
      "case last_used s of None \<Rightarrow> True | Some l \<Rightarrow> l \<in> set (c # cs)"
    and x: "x \<notin> set (c # cs)" "nodes s x = Some n" "bb_next n = None" "bb_content n = BACKED_BLOCK_DATA d f"
    and le: "\<not> bb_block n < bb_block (the (nodes s c))"
    and new: "dbg \<longrightarrow> bb_block n \<notin> (\<lambda>a. bb_block (the (nodes s a))) ` set (c # cs)"
  shows "\<exists>us b vs nb s'. c # cs = us @ b # vs \<and> nodes s b = Some nb \<and> queue_bb dbg x s = Some (0, s') \<and>
    nodes s' = (nodes s)(x \<mapsto> n\<lparr>bb_next := bb_next nb\<rparr>, b \<mapsto> nb\<lparr>bb_next := Some x\<rparr>) \<and> data_blocks s' = data_blocks s \<and>
    last_used s' = Some x \<and> bbl_block_size s' = bbl_block_size s \<and>
    insert_block (view (nodes s) x) (map (view (nodes s)) (c # cs)) = map (view (nodes s)) (us @ b # x # vs)"
proof -
  let ?h = "nodes s" and ?key = "bb_block n"
  obtain nc where nc: "?h c = Some nc" "data_blocks s = Some c" using ok(1) by (auto split: option.splits)
  define l where "l = (case last_used s of None \<Rightarrow> c | Some l \<Rightarrow> if bb_block (the (?h l)) < ?key then l else c)"
  have l: "l = c \<or> (l \<in> set (c # cs) \<and> bb_block (the (?h l)) < ?key)" using ok(6) by (auto simp: l_def split: option.splits)
  have start: "(case last_used s of None \<Rightarrow> Some c | Some l \<Rightarrow> do { m \<leftarrow> ?h l; Some (if bb_block m < ?key then l else c) }) = Some l"
  proof (cases "last_used s")
    case (Some k)
    then obtain m where "?h k = Some m" using ok(6) bb_list_dom [OF ok(1), of k] by auto
    then show ?thesis using Some by (simp add: l_def)
  qed (simp add: l_def)
  obtain us b where w: "walk ?h ?key l = Some b" "c # takeWhile (\<lambda>y. bb_block (the (?h y)) < ?key) cs = us @ [b]"
    using walk_split [OF _ ok(4) l] ok(1) nc(2) by auto
  define vs where "vs = dropWhile (\<lambda>y. bb_block (the (?h y)) < ?key) cs"
  have key: "fst (view ?h x) = ?key" using x(2) by (simp add: view_def)
  note ib = insert_block_behind [OF le w(2) key, folded vs_def]
  have b: "b \<in> set (c # cs)" unfolding ib(1) by simp
  then obtain nb where nb: "?h b = Some nb" using bb_list_dom [OF ok(1)] by blast
  have bx: "b \<noteq> x" using b x(1) by blast
  have tail: "bb_list ?h (bb_next nb) vs" using bb_list_tail [of ?h "data_blocks s" us b vs nb] ok(1) ib(1) nb by simp
  let ?h' = "?h(x \<mapsto> n\<lparr>bb_next := bb_next nb\<rparr>, b \<mapsto> nb\<lparr>bb_next := Some x\<rparr>)"
  define s' where "s' = s\<lparr>last_used := Some x, nodes := ?h'\<rparr>"
  obtain d' f' where "bb_content nb = BACKED_BLOCK_DATA d' f'" using ok(5) b nb by (auto simp: view_def Let_def)
  moreover have "dbg \<longrightarrow> bb_block nb < ?key"
  proof -
    have "b \<in> set (c # takeWhile (\<lambda>y. bb_block (the (?h y)) < ?key) cs)" unfolding w(2) by simp
    then have "bb_block (the (?h b)) \<le> ?key" using le by (auto dest!: set_takeWhileD)
    moreover have "dbg \<longrightarrow> ?key \<noteq> bb_block (the (?h b))" using new b by blast
    ultimately show ?thesis using nb by (auto simp: order.order_iff_strict)
  qed
  ultimately have m2: "merge_bb dbg (Some b) (Some x) s' = Some (- EINVAL, s')"
    by (intro merge_data [of _ _ "nb\<lparr>bb_next := Some x\<rparr>" d' f']) (use ok(3) bx x(2) in \<open>auto simp: s'_def\<close>)
  have next_ok: "bb_next nb = None \<or> (\<exists>q nq. bb_next nb = Some q \<and> ?h' q = Some nq \<and> (dbg \<longrightarrow> ?key < bb_block nq))"
  proof (cases vs)
    case Nil
    then show ?thesis using tail by simp
  next
    case (Cons q qs)
    have "q \<in> set (c # cs)" unfolding ib(1) Cons by simp
    moreover have "?key \<le> bb_block (the (?h q))"
      using Cons unfolding vs_def dropWhile_eq_Cons_conv not_less by blast
    moreover have "dbg \<longrightarrow> ?key \<noteq> bb_block (the (?h q))" using new \<open>q \<in> set (c # cs)\<close> by blast
    ultimately have "dbg \<longrightarrow> ?key < bb_block (the (?h q))" by (auto simp: order.order_iff_strict)
    moreover have "q \<noteq> x" using \<open>q \<in> set (c # cs)\<close> x(1) by blast
    moreover have "q \<noteq> b" using ok(2) unfolding ib(1) Cons by auto
    ultimately show ?thesis using tail Cons by (auto split: option.splits)
  qed
  then have m1: "merge_bb dbg (Some x) (bb_next nb) s' = Some (- EINVAL, s')"
    by (intro merge_data [of _ _ "n\<lparr>bb_next := bb_next nb\<rparr>" d f]) (use ok(3) bx x(4) in \<open>auto simp: s'_def\<close>)
  have n_id: "bb_next nb = None \<Longrightarrow> n\<lparr>bb_next := bb_next nb\<rparr> = n" using x(3) by (cases n) simp
  have hx: "bb_next nb = None \<Longrightarrow> ?h(x \<mapsto> n\<lparr>bb_next := bb_next nb\<rparr>) = ?h" using n_id x(2) by (auto simp: fun_eq_iff)
  have "queue_bb dbg x s = Some (0, s')"
  proof (cases "bb_next nb = None")
    case True
    have e: "?h' = ?h(b \<mapsto> nb\<lparr>bb_next := Some x\<rparr>)" using hx [OF True] by simp
    have "s\<lparr>last_used := Some x, nodes := ?h(b \<mapsto> nb\<lparr>bb_next := Some x\<rparr>)\<rparr> = s'" unfolding s'_def e by simp
    then show ?thesis using nc x(2,3) le start w(1) nb True m1 m2 bx
      by (simp add: queue_bb_def upd_node_def EINVAL_def Let_def)
  next
    case False
    then obtain y where y: "bb_next nb = Some y" by blast
    then show ?thesis using nc x(2) le start w(1) nb m1 m2 bx
      by (simp add: queue_bb_def upd_node_def EINVAL_def Let_def s'_def)
  qed
  then show ?thesis using ib nb by (intro exI [of _ us] exI [of _ b] exI [of _ vs] exI [of _ nb] exI [of _ s']) (simp add: s'_def)
qed

lemma view_relink:
  assumes "h b = Some nb" and "h x = Some n" and "b \<noteq> x"
  shows "view (h(x \<mapsto> n\<lparr>bb_next := p\<rparr>, b \<mapsto> nb\<lparr>bb_next := q\<rparr>)) = view h"
  using assms by (auto simp: view_def fun_eq_iff)

lemma bbl_okI:
  assumes "bb_list (nodes s') (data_blocks s') bs" and "distinct bs" and "bbl_block_size s' \<noteq> 0"
    and "map (view (nodes s')) bs = insert_block (block, len, BACKED_BLOCK_DATA d flag) vs"
    and "sorted_wrt (\<lambda>x y. fst x \<le> fst y) vs" and "\<forall>v \<in> set vs. \<exists>d f. snd (snd v) = BACKED_BLOCK_DATA d f"
    and "case last_used s' of None \<Rightarrow> True | Some l \<Rightarrow> l \<in> set bs"
  shows "bbl_ok s' bs"
proof -
  have "view (nodes s') a \<in> insert (block, len, BACKED_BLOCK_DATA d flag) (set vs)" if "a \<in> set bs" for a
    using that assms(4) set_insert_block [of "(block, len, BACKED_BLOCK_DATA d flag)" vs] by (metis image_eqI set_map)
  then have "\<forall>a \<in> set bs. \<exists>d f. snd (snd (view (nodes s') a)) = BACKED_BLOCK_DATA d f" using assms(6) by fastforce
  then show ?thesis unfolding bbl_ok_def using assms sorted_insert_block by metis
qed

lemma queue_data:
  assumes ok: "bbl_ok s as" and x: "x \<notin> set as" and new: "dbg \<longrightarrow> block \<notin> fst ` set (map (view (nodes s)) as)"
  shows "\<exists>s' bs. backed_block_add_data dbg (Some x) d flag len block s = Some (0, s') \<and> bbl_ok s' bs \<and> set bs = insert x (set as) \<and>
    map (view (nodes s')) bs = insert_block (block, len, BACKED_BLOCK_DATA d flag) (map (view (nodes s)) as)"
proof -
  define n where "n = \<lparr>bb_block = block, bb_len = len, bb_content = BACKED_BLOCK_DATA d flag, bb_next = None\<rparr>"
  define s0 where "s0 = s\<lparr>nodes := (nodes s)(x \<mapsto> n)\<rparr>"
  let ?v = "(block, len, BACKED_BLOCK_DATA d flag)"
  have o: "bb_list (nodes s) (data_blocks s) as" "distinct as" "bbl_block_size s \<noteq> 0"
    "sorted_wrt (\<lambda>x y. fst x \<le> fst y) (map (view (nodes s)) as)"
    "\<forall>a \<in> set as. \<exists>d f. snd (snd (view (nodes s) a)) = BACKED_BLOCK_DATA d f"
    "case last_used s of None \<Rightarrow> True | Some l \<Rightarrow> l \<in> set as"
    using ok by (simp_all add: bbl_ok_def)
  have mv: "map (view (nodes s0)) as = map (view (nodes s)) as" using map_view_fresh [OF x] by (simp add: s0_def)
  have eqv: "view (nodes s0) a = view (nodes s) a" if "a \<in> set as" for a
  proof -
    have "a \<noteq> x" using that x by blast
    then show ?thesis by (simp add: s0_def view_upd(1))
  qed
  have "bb_list (nodes s0) (data_blocks s) as = bb_list (nodes s) (data_blocks s) as"
    by (rule bb_list_cong) (use x in \<open>auto simp: s0_def\<close>)
  then have l0: "bb_list (nodes s0) (data_blocks s0) as" using o(1) by (simp add: s0_def)
  have vx: "view (nodes s0) x = ?v" by (simp add: s0_def view_def n_def)
  have hx: "nodes s0 x = Some n" "bb_next n = None" "bb_content n = BACKED_BLOCK_DATA d flag" by (simp_all add: s0_def n_def)
  have s0: "last_used s0 = last_used s" "bbl_block_size s0 = bbl_block_size s" "data_blocks s0 = data_blocks s" by (simp_all add: s0_def)
  have dat: "\<forall>v \<in> set (map (view (nodes s)) as). \<exists>d f. snd (snd v) = BACKED_BLOCK_DATA d f" using o(5) by simp
  have add: "backed_block_add_data dbg (Some x) d flag len block s = queue_bb dbg x s0" by (simp add: backed_block_add_data_def s0_def n_def)
  show ?thesis
  proof (cases as)
    case Nil
    let ?s = "s0\<lparr>data_blocks := Some x\<rparr>"
    have q: "queue_bb dbg x s0 = Some (0, ?s)" using l0 Nil by (simp add: queue_bb_def)
    have m: "map (view (nodes ?s)) [x] = insert_block ?v (map (view (nodes s)) as)" using Nil vx by simp
    have "bbl_ok ?s [x]" by (rule bbl_okI [OF _ _ _ m o(4) dat]) (use hx o(3,6) s0 Nil in \<open>auto split: option.splits\<close>)
    then show ?thesis unfolding add q using m Nil by fastforce
  next
    case (Cons c cs)
    obtain nc where nc: "nodes s0 c = Some nc" "data_blocks s0 = Some c" using l0 Cons by (auto split: option.splits)
    show ?thesis
    proof (cases "bb_block n < bb_block nc")
      case True
      let ?s = "s0\<lparr>nodes := (nodes s0)(x \<mapsto> n\<lparr>bb_next := Some c\<rparr>), data_blocks := Some x\<rparr>"
      have q: "queue_bb dbg x s0 = Some (0, ?s)" using nc hx True by (simp add: queue_bb_def upd_node_def)
      have vs: "view (nodes ?s) = view (nodes s0)" using view_upd(2) [where h = "nodes s0" and a = x and n = n, OF hx(1)] by simp
      have "fst ?v < fst (view (nodes s) c)" using True nc eqv [of c] Cons by (simp add: view_def Let_def n_def)
      then have m: "map (view (nodes ?s)) (x # as) = insert_block ?v (map (view (nodes s)) as)"
        unfolding vs using vx mv Cons by simp
      have "bb_list (nodes ?s) (Some c) as = bb_list (nodes s0) (Some c) as" by (rule bb_list_cong) (use x in auto)
      then have "bb_list (nodes ?s) (data_blocks ?s) (x # as)" using l0 nc(2) by simp
      then have "bbl_ok ?s (x # as)" by (rule bbl_okI [OF _ _ _ m o(4) dat]) (use o(2,3,6) s0 x in \<open>auto split: option.splits\<close>)
      then show ?thesis unfolding add q using m by fastforce
    next
      case False
      have pre: "sorted_wrt (\<lambda>x y. fst x \<le> fst y) (map (view (nodes s0)) (c # cs))"
        "\<forall>a \<in> set (c # cs). \<exists>d f. snd (snd (view (nodes s0) a)) = BACKED_BLOCK_DATA d f"
        "case last_used s0 of None \<Rightarrow> True | Some l \<Rightarrow> l \<in> set (c # cs)" "\<not> bb_block n < bb_block (the (nodes s0 c))"
        unfolding Cons [symmetric] mv s0(1) using o(4-6) eqv False nc by simp_all
      have nb: "dbg \<longrightarrow> bb_block n \<notin> (\<lambda>a. bb_block (the (nodes s0 a))) ` set (c # cs)"
      proof -
        have "bb_block (the (nodes s0 a)) = fst (view (nodes s) a)" if "a \<in> set as" for a
          using eqv [OF that] by (simp add: view_def Let_def)
        then show ?thesis using new unfolding Cons [symmetric] by (force simp: n_def)
      qed
      have bsz: "bbl_block_size s0 \<noteq> 0" using s0(2) o(3) by simp
      obtain us b vs nb s' where q: "c # cs = us @ b # vs" "nodes s0 b = Some nb" "queue_bb dbg x s0 = Some (0, s')"
        "nodes s' = (nodes s0)(x \<mapsto> n\<lparr>bb_next := bb_next nb\<rparr>, b \<mapsto> nb\<lparr>bb_next := Some x\<rparr>)" "data_blocks s' = data_blocks s0"
        "last_used s' = Some x" "bbl_block_size s' = bbl_block_size s0"
        "insert_block (view (nodes s0) x) (map (view (nodes s0)) (c # cs)) = map (view (nodes s0)) (us @ b # x # vs)"
        using queue_bb_behind [OF l0 [unfolded Cons] o(2) [unfolded Cons] bsz pre(1-3) x [unfolded Cons] hx pre(4) nb]
        by (elim exE conjE)
      have bx: "b \<noteq> x" using x q(1) Cons by auto
      have vs: "view (nodes s') = view (nodes s0)" unfolding q(4) by (rule view_relink) (use q(2) hx(1) bx in auto)
      have m: "map (view (nodes s')) (us @ b # x # vs) = insert_block ?v (map (view (nodes s)) as)"
        unfolding vs mv [symmetric] vx [symmetric] unfolding Cons q(8) ..
      have "bb_list (nodes s') (data_blocks s') (us @ b # x # vs)"
        unfolding q(4,5) by (rule bb_list_insert) (use l0 o(2) x q(1,2) Cons in auto)
      then have "bbl_ok s' (us @ b # x # vs)"
        by (rule bbl_okI [OF _ _ _ m o(4) dat]) (use o(2,3) s0 x q Cons in auto)
      then show ?thesis unfolding add q(3) using m q(1) Cons by (intro exI [of _ s'] exI [of _ "us @ b # x # vs"]) auto
    qed
  qed
qed

text \<open>A list is destroyed node by node; the data buffers that were allocated are given back, each once.\<close>

definition malloced :: "(nat \<rightharpoonup> backed_block) \<Rightarrow> nat list \<Rightarrow> ptr list" where
  "malloced h as = concat (map (\<lambda>a. case bb_content (the (h a)) of
     BACKED_BLOCK_DATA d f \<Rightarrow> if f AND BB_DATA_MALLOC \<noteq> 0 then [d] else [] | _ \<Rightarrow> []) as)"

lemma destroy_loop_list:
  "bb_list (nodes s) p as \<Longrightarrow> distinct as \<Longrightarrow>
    \<exists>s'. destroy_loop p s = Some s' \<and> nodes s' = nodes s |` (- set as) \<and> freed s' = freed s @ malloced (nodes s) as"
proof (induction as arbitrary: p s)
  case Nil
  then show ?case by (subst destroy_loop.simps) (simp add: malloced_def restrict_map_def)
next
  case (Cons a as)
  obtain n where n: "p = Some a" "nodes s a = Some n" "bb_list (nodes s) (bb_next n) as" using Cons.prems(1) by (auto split: option.splits)
  obtain s1 where s1: "backed_block_destroy a s = Some s1" "nodes s1 = (nodes s)(a := None)"
    "freed s1 = freed s @ malloced (nodes s) [a]"
    using n(2) by (auto simp: backed_block_destroy_def malloced_def Let_def split: backed_content.splits)
  have "bb_list (nodes s1) (bb_next n) as = bb_list (nodes s) (bb_next n) as"
    by (rule bb_list_cong) (use Cons.prems(2) s1(2) in auto)
  then obtain s' where s': "destroy_loop (bb_next n) s1 = Some s'" "nodes s' = nodes s1 |` (- set as)"
    "freed s' = freed s1 @ malloced (nodes s1) as"
    using Cons.IH [of s1 "bb_next n"] Cons.prems(2) n(3) by auto
  have "malloced (nodes s1) as = malloced (nodes s) as"
    unfolding malloced_def s1(2) using Cons.prems(2) by (intro arg_cong [of _ _ concat] map_cong) auto
  moreover have "nodes s1 |` (- set as) = nodes s |` (- set (a # as))"
    unfolding s1(2) by (rule ext) (auto simp: restrict_map_def)
  moreover have "destroy_loop p s = destroy_loop (bb_next n) s1" using n(1,2) s1(1) by (subst destroy_loop.simps) simp
  ultimately show ?case using s' s1(3) by (simp add: malloced_def)
qed

text \<open>Queueing a sequence of blocks, each with the node the allocator returns for it.\<close>

fun add_all :: "bool \<Rightarrow> (nat \<times> ptr \<times> int \<times> u32 \<times> u32) list \<Rightarrow> backed_block_list \<Rightarrow> backed_block_list option" where
  "add_all dbg [] s = Some s"
| "add_all dbg ((x, d, flag, len, block) # qs) s =
     do { (r, s1) \<leftarrow> backed_block_add_data dbg (Some x) d flag len block s; add_all dbg qs s1 }"

definition queued :: "nat \<times> ptr \<times> int \<times> u32 \<times> u32 \<Rightarrow> bb_view" where
  "queued q = (case q of (x, d, flag, len, block) \<Rightarrow> (block, len, BACKED_BLOCK_DATA d flag))"

definition queued_block :: "nat \<times> ptr \<times> int \<times> u32 \<times> u32 \<Rightarrow> u32" where
  "queued_block q = fst (queued q)"

lemma add_all_ordered:
  assumes "distinct (map queued_block qs)"
  shows "bbl_ok s as \<Longrightarrow> distinct (map fst qs) \<Longrightarrow> set as \<inter> fst ` set qs = {} \<Longrightarrow>
    fst ` set (map (view (nodes s)) as) \<inter> queued_block ` set qs = {} \<Longrightarrow>
    \<exists>s' bs. add_all dbg qs s = Some s' \<and> bbl_ok s' bs \<and>
      map (view (nodes s')) bs = fold insert_block (map queued qs) (map (view (nodes s)) as)"
  using assms
proof (induction qs arbitrary: s as)
  case (Cons q qs)
  obtain x d flag len block where q: "q = (x, d, flag, len, block)" by (cases q)
  have "block \<notin> fst ` set (map (view (nodes s)) as)" using Cons.prems(4) by (auto simp: q queued_block_def queued_def)
  moreover have "x \<notin> set as" using Cons.prems(3) by (auto simp: q)
  ultimately obtain s1 bs where 1: "backed_block_add_data dbg (Some x) d flag len block s = Some (0, s1)" "bbl_ok s1 bs"
    "set bs = insert x (set as)" "map (view (nodes s1)) bs = insert_block (queued q) (map (view (nodes s)) as)"
    using queue_data [OF Cons.prems(1), of x dbg block d flag len] by (auto simp: q queued_def)
  have "distinct (map fst qs)" "set bs \<inter> fst ` set qs = {}" using Cons.prems(2,3) 1(3) by (auto simp: q)
  moreover have "fst ` set (map (view (nodes s1)) bs) \<inter> queued_block ` set qs = {}"
    unfolding 1(4) set_insert_block using Cons.prems(4,5) by (auto simp: queued_block_def [of q])
  moreover have "distinct (map queued_block qs)" using Cons.prems(5) by simp
  ultimately show ?case using Cons.IH [OF 1(2)] 1(1,4) by (auto simp: q)
qed auto

text \<open>With distinct block numbers the reference is the sorted list of the blocks.\<close>

lemma mset_insert_block: "mset (insert_block x ys) = add_mset x (mset ys)"
proof -
  have "mset (insert_before x zs) = add_mset x (mset zs)" for zs by (induction zs) auto
  then show ?thesis by (cases ys) auto
qed

lemma fold_insert_block:
  "mset (fold insert_block xs ys) = mset xs + mset ys"
  "sorted_wrt (\<lambda>x y. fst x \<le> fst y) ys \<Longrightarrow> sorted_wrt (\<lambda>x y. fst x \<le> fst y) (fold insert_block xs ys)"
  by (induction xs arbitrary: ys) (simp_all add: mset_insert_block sorted_insert_block)

lemma fold_insert_block_sort:
  assumes "distinct (map fst xs)"
  shows "fold insert_block xs [] = sort_key fst xs"
proof -
  have "sorted (map fst (fold insert_block xs []))"
    using fold_insert_block(2) [of "[]" xs] by (simp add: sorted_wrt_map)
  moreover have "mset (fold insert_block xs []) = mset xs" using fold_insert_block(1) [of xs "[]"] by simp
  moreover have "inj_on fst (set xs)" using assms by (simp add: distinct_map)
  ultimately show ?thesis by (metis sort_key_inj_key_eq)
qed

text \<open>
  C30: queueing data blocks with distinct block numbers, in any order, ends and meets the assertion
  of the code; the list then holds exactly these blocks sorted by block number, strictly
  increasing, whatever node each search was started from; destroying the list gives back all of its
  nodes, and each data buffer that was allocated exactly once.
\<close>

theorem backed_blocks_ordered:
  assumes "bs \<noteq> 0" and "distinct (map fst qs)" and "distinct (map queued_block qs)"
  shows "\<exists>s0 s as s'. backed_block_list_new (Some p) bs = Some s0 \<and> add_all dbg qs s0 = Some s \<and> bb_list (nodes s) (data_blocks s) as \<and>
    map (view (nodes s)) as = sort_key fst (map queued qs) \<and>
    sorted_wrt (\<lambda>x y. fst x < fst y) (map (view (nodes s)) as) \<and>
    backed_block_list_destroy s = Some s' \<and> nodes s' = nodes s |` (- set as) \<and> freed s' = freed s @ malloced (nodes s) as"
proof -
  obtain s0 where s0: "backed_block_list_new (Some p) bs = Some s0" "bbl_ok s0 []"
    using assms(1) by (simp add: bbl_ok_def backed_block_list_new_def)
  from add_all_ordered [OF assms(3) s0(2) assms(2), of dbg] obtain s as where s: "add_all dbg qs s0 = Some s" "bbl_ok s as"
    "map (view (nodes s)) as = fold insert_block (map queued qs) []" by auto
  have o: "bb_list (nodes s) (data_blocks s) as" "distinct as" using s(2) by (simp_all add: bbl_ok_def)
  have "map fst (map queued qs) = map queued_block qs" by (simp add: queued_block_def)
  then have d: "distinct (map fst (map queued qs))" using assms(3) by (simp only:)
  note v = s(3) [unfolded fold_insert_block_sort [OF d]]
  have "sorted (map fst (sort_key fst (map queued qs)))" "distinct (map fst (sort_key fst (map queued qs)))"
    using d by (simp_all add: distinct_map del: map_map)
  then have "sorted_wrt (<) (map fst (sort_key fst (map queued qs)))" unfolding strict_sorted_iff ..
  then have "sorted_wrt (\<lambda>x y. fst x < fst y) (map (view (nodes s)) as)" unfolding v sorted_wrt_map .
  moreover obtain s' where "destroy_loop (data_blocks s) s = Some s'" "nodes s' = nodes s |` (- set as)"
    "freed s' = freed s @ malloced (nodes s) as"
    using destroy_loop_list [OF o(1,2)] by blast
  ultimately show ?thesis using s0(1) s(1) o(1) v
    by (intro exI [of _ s0] exI [of _ s] exI [of _ as] exI [of _ s']) (simp add: backed_block_list_destroy_def)
qed

theorem backed_blocks_ordered_witness:
  "\<exists>s0 s as. backed_block_list_new (Some 0) 4096 = Some s0 \<and>
    add_all True [(1, Some 5, 1, 4096, 7), (2, None, 0, 4096, 3), (3, None, 0, 4096, 9)] s0 = Some s \<and>
    bb_list (nodes s) (data_blocks s) as \<and>
    map (view (nodes s)) as =
      [(3, 4096, BACKED_BLOCK_DATA None 0), (7, 4096, BACKED_BLOCK_DATA (Some 5) 1), (9, 4096, BACKED_BLOCK_DATA None 0)]"
proof -
  let ?qs = "[(1, Some 5, 1, 4096, 7), (2, None, 0, 4096, 3), (3, None, 0, 4096, 9)] :: (nat \<times> ptr \<times> int \<times> u32 \<times> u32) list"
  have "distinct (map fst ?qs)" "distinct (map queued_block ?qs)" by (simp_all add: queued_block_def queued_def)
  from backed_blocks_ordered [OF _ this, of 4096 0 True] obtain s0 s as where "backed_block_list_new (Some 0) 4096 = Some s0"
    "add_all True ?qs s0 = Some s" "bb_list (nodes s) (data_blocks s) as" "map (view (nodes s)) as = sort_key fst (map queued ?qs)"
    by auto
  moreover have "sort_key fst (map queued ?qs) =
      [(3, 4096, BACKED_BLOCK_DATA None 0), (7, 4096, BACKED_BLOCK_DATA (Some 5) 1), (9, 4096, BACKED_BLOCK_DATA None 0)]"
    by (simp add: queued_def)
  ultimately show ?thesis by (intro exI [of _ s0] exI [of _ s] exI [of _ as]) simp
qed

end
