(* ===== verification/Spec2Isabelle.thy ===== *)
theory Spec2Isabelle
  imports C_String Crc32 Ctype Ts_Store Ram_Ts Flash_Ts Flash_Commit Flash_Recovery
    Fifo Sm_Comm Ring_Buffer Ir_Decode Ir_Frames Sm_Power Sm_Power_Inv Mmgr Mmgr_Lists Mmgr_Heap
    Mmgr_Safe Mmgr_Props Ir_Keys Sm_Ir
    Flash_Adaptor Gpt Gpt_Props Apb_Timer Backed_Block
begin

text \<open>
  A verification of the boot loader and system-manager firmware under \<^verbatim>\<open>src/\<close>.

  \<^bold>\<open>Parts of the program.\<close>  The boot loader (\<^verbatim>\<open>src/boot/common\<close>) has a C library of its own
  (strings, character classes, CRC-32, a heap), two key/value stores, one in a RAM region that
  survives a warm reset (\<^verbatim>\<open>driver/ram_ts\<close>) and one on eMMC pages (\<^verbatim>\<open>driver/flash_ts\<close>), and a flash
  adaptor (\<^verbatim>\<open>driver/flash\<close>, \<^verbatim>\<open>driver/emmc/emmc.c\<close>) below the partition table, through which images
  are read by name.  It talks to the system manager, a Cortex-M3 with its own firmware
  (\<^verbatim>\<open>src/boot/bootloader/sm_cm3/syna\<close>), through message queues in shared memory.  The firmware
  dispatches messages to its modules: the power-state machine, which turns the SoC off and on
  again, and the remote-control module, whose interrupt handler stores edges that a task decodes
  into keys; a released key wakes the SoC up.  Both use the clock of the hardware timers.
  U-Boot's USB console exchanges characters through a ring buffer, and its image writer queues
  blocks in an ordered list.

  \<^bold>\<open>Model.\<close>  Memory is a list of bytes and a pointer an optional index (\<open>Boot_Prelude\<close>); an
  access outside the memory, a null pointer or any other undefined behaviour is \<open>None\<close>, so a
  result \<open>Some\<close> includes memory safety.  Machine integers are words.  Static variables of a
  file are one record; handlers take and return it.  Hardware below the modelled code is a
  parameter: the eMMC controller is a record of operations on an abstract device, the
  millisecond clock is the sequence of its readings, calls into other modules are recorded
  in the order in which they happen.

  \<^bold>\<open>Theories.\<close>
  \<^item> \<open>Boot_Prelude\<close>: byte memories, checked reads and writes, word lemmas, shared simp sets.
  \<^item> \<open>C_String\<close>: \<^verbatim>\<open>lib/string.c\<close>; functional correctness of the copy, compare, search and
    number-parsing routines.
  \<^item> \<open>Crc32\<close>: \<^verbatim>\<open>lib/crc32.c\<close>; the table-driven word loop equals the bit-serial CRC, and
    detects every burst of up to 32 bits.  \<open>Ctype\<close>: \<^verbatim>\<open>lib/ctype.c\<close>.
  \<^item> \<open>Ts_Store\<close>: the record format and entry editing both stores share, with the abstract
    store (a list of key/value entries) they refine.  \<open>Ram_Ts\<close>: \<^verbatim>\<open>ram_ts.c\<close>.
  \<^item> \<open>Flash_Ts\<close>, \<open>Flash_Commit\<close>, \<open>Flash_Recovery\<close>: \<^verbatim>\<open>flash_ts.c\<close> over the page layer of
    \<^verbatim>\<open>emmc_drv.c\<close>; commits are atomic and durable, a restart finds the newest record.
  \<^item> \<open>Fifo\<close>: the locale of a bounded first-in first-out channel and what its clients get: every
    run is that of a bounded list of messages, which refuses exactly when it is full.
    \<open>Sm_Comm\<close>: both ends of the message queues, the dispatcher, the message task and the
    initialisation order (\<^verbatim>\<open>sm_comm.c\<close>, \<^verbatim>\<open>sm_rt_module.c\<close>, \<^verbatim>\<open>sm_main.c\<close>), interpreting it.
    \<open>Circular\<close> and \<open>Ring_Buffer\<close>: the console ring and its driver, interpreting it too.
  \<^item> \<open>Mmgr\<close>, \<open>Mmgr_Lists\<close>, \<open>Mmgr_Heap\<close>, \<open>Mmgr_Safe\<close>, \<open>Mmgr_Props\<close>: \<^verbatim>\<open>lib/mmgr.c\<close>, two doubly linked
    lists in a pool of nodes; the lists, the tiling of the heap by blocks, and what allocation
    and release keep for every sequence of calls.
  \<^item> \<open>Flash_Adaptor\<close>: \<^verbatim>\<open>flash_adaptor.c\<close> with the back end \<^verbatim>\<open>emmc.c\<close>; a failed part switch that is
    forgotten.  \<open>Gpt\<close>, \<open>Gpt_Props\<close>: \<^verbatim>\<open>load_gpt.c\<close>; loading any table content safely, lookup by
    name, image reads inside the partition.
  \<^item> \<open>Ir_Decode\<close>, \<open>Ir_Frames\<close>: the edge buffer and the NEC, TC9012, RC5 and XMP readers;
    decoding of frames with the documented timings, totality on every buffer.  \<open>Ir_Keys\<close>: the
    key tables and the translation of codes, which finds the first matching entry.  \<open>Sm_Ir\<close>: \<^verbatim>\<open>sm_ir.c\<close> in the NEC configuration; for every interleaving the
    keys follow the protocol down, hold, up.
  \<^item> \<open>Sm_Power\<close>, \<open>Sm_Power_Inv\<close>: the flows, task, timers, wake-up sources and messages of
    \<^verbatim>\<open>src/power\<close> and \<^verbatim>\<open>sm_state.c\<close>; an invariant of every reachable state, completion of a
    warm-up and a reset flow that cannot complete.
  \<^item> \<open>Apb_Timer\<close>: \<^verbatim>\<open>sm_apb_timer.c\<close>; the millisecond clock, the recurring readings in range that
    \<open>Sm_Ir\<close> relies on (\<open>apb_clock_recovers\<close>), and a long clock that steps back.
  \<^item> \<open>Backed_Block\<close>: \<^verbatim>\<open>libsparse/backed_block.c\<close>; queueing blocks with distinct numbers sorts them.

  \<^bold>\<open>Configuration.\<close>  Conditional code is modelled for one configuration: NEC remote control
  without \<^verbatim>\<open>LWSTANDBY_ENABLE\<close>, \<^verbatim>\<open>LTIMER_ENABLE\<close>, \<^verbatim>\<open>CONFIG_GPT\<close> on eMMC.  The assertions of U-Boot's
  \<^verbatim>\<open>log.h\<close> are modelled by \<open>c_assert\<close>; whether they are active is a parameter of the code that
  has them.

  \<^bold>\<open>Steps.\<close>  A message send, a visit of the message task, an interrupt handler, a task iteration
  and a message handler are atomic steps.  So the stores of one send to the slot, the index and
  the total are not interleaved with the other processor's, and the delays inside
  \<open>soc_assert\<close> and \<open>soc_deassert\<close>, during which FreeRTOS may run other tasks, are no points at
  which a step of the power module is interrupted.

  \<^bold>\<open>Hypotheses on the environment.\<close>  The message queues are correct while their byte totals are
  below 2^31 (\<open>q_inv\<close>; \<open>sm_queue_stalls\<close> shows what happens at the bound).  The retry loop of the
  remote-control interrupt ends if readings of the clock inside the timer's range recur
  (\<open>clock_recovers\<close>).  The flows of the power module proceed while the millisecond clock runs
  (\<open>clock_runs\<close>).  Image reads stay in the partition if the block numbers of its entry are below
  2^53 (\<open>lbas_ok\<close>); the code does not check them.

  \<^bold>\<open>Fuel and bounds.\<close>  \<open>scan_loop\<close> runs with as much fuel as the store has bytes plus one,
  and every iteration advances by at least one byte.  The IR readers' loops run with
  \<open>IR_CBUFF_LENGTH\<close> = 256 units; the buffer holds at most 255 edges and every iteration removes
  at least one.  The walks over the lists of the heap run with \<open>MAXNUM_POOL\<close> + 1 units, one more
  than there are nodes.  All are proved sufficient (\<open>flash_ts_scan_newest\<close>, \<open>ir_readers_total\<close>,
  \<open>mmgr_alloc_result\<close>).  The loops that may run forever (\<open>isr_clock\<close>, \<open>walk\<close>, \<open>destroy_loop\<close>) are
  partial functions; \<open>ir_key_protocol\<close> and \<open>backed_blocks_ordered\<close> prove that they return.

  \<^bold>\<open>Not modelled.\<close>  Vendored code (U-Boot outside the Synaptics directories, FreeRTOS, libfdt,
  libufdt, lz4, SHA-2, the ext4 writer above the block list), code that programs registers (DDR
  and PLL set-up, pin multiplexing, I2C, SPI, GPIO, the eMMC and USB controllers, video output),
  the build tools.  Not covered yet, although they hold logic of their own: the CEC service, the
  debouncing of front-panel buttons, the boot mode and A/B slot selection
  (\<^verbatim>\<open>driver/misc/boot_mode.c\<close>), the version-table loader and the U-Boot commands.
\<close>

end
